(* ===== verification/Prelude.thy ===== *)
theory Prelude
  imports Complex_Main "HOL-Library.AList"
begin

text \<open>
  Shared vocabulary of the development: result types, the collections of
  simplification rules the components fill, and generic lemmas on lists,
  association lists and finite decimal strings.
\<close>

section \<open>Collections\<close>

named_theorems store_simps \<open>characteristic equations of the order store\<close>
named_theorems tracker_simps \<open>characteristic equations of the order tracker\<close>
named_theorems float_simps \<open>evaluation of float64 operations\<close>
named_theorems gateway_simps \<open>unfolding of the gateway's handlers\<close>

section \<open>Results\<close>

text \<open>A Go error value is its message; a function returning \<open>(T, error)\<close> returns
  \<open>goerror + T\<close>, one returning only \<open>error\<close> returns \<open>goerror option\<close> (\<open>None\<close> is nil).\<close>

type_synonym goerror = string

definition is_ok :: "goerror + 'a \<Rightarrow> bool" where
  "is_ok r = (case r of Inl _ \<Rightarrow> False | Inr _ \<Rightarrow> True)"

lemma is_ok_simps [simp]: "\<not> is_ok (Inl e)" "is_ok (Inr v)"
  by (simp_all add: is_ok_def)

section \<open>Lists\<close>

lemma append_eq_same_length:
  "length us = length vs \<Longrightarrow> xs @ us = ys @ vs \<longleftrightarrow> xs = ys \<and> us = vs"
  by simp

lemma takeWhile_append_stop:
  "\<lbrakk> \<forall>x\<in>set xs. P x; \<not> P y \<rbrakk> \<Longrightarrow> takeWhile P (xs @ y # ys) = xs"
  by (induction xs) auto

text \<open>Two strings that end in a run of \<open>P\<close>-characters preceded by a non-\<open>P\<close> character
  have the same run and the same rest.\<close>

lemma append_run_unique:
  assumes "xs @ c # us = ys @ d # vs"
    and "\<forall>x\<in>set us. P x" and "\<forall>x\<in>set vs. P x" and "\<not> P c" and "\<not> P d"
  shows "xs = ys \<and> c = d \<and> us = vs"
proof -
  from assms(1) have rev_eq: "rev us @ c # rev xs = rev vs @ d # rev ys"
    by (metis append.assoc append_Cons append_Nil rev.simps(2) rev_append)
  have "rev us = takeWhile P (rev us @ c # rev xs)"
    using assms by (subst takeWhile_append_stop) auto
  also have "\<dots> = rev vs"
    unfolding rev_eq using assms by (subst takeWhile_append_stop) auto
  finally have uv: "us = vs" by simp
  with assms(1) show ?thesis by simp
qed

lemma length_filter_map_same:
  "(\<And>x. x \<in> set xs \<Longrightarrow> P (f x) = P x) \<Longrightarrow> length (filter P (map f xs)) = length (filter P xs)"
  by (induction xs) auto

section \<open>Association lists\<close>

lemma dom_map_of_update [simp]:
  "dom (map_of (AList.update k v al)) = insert k (dom (map_of al))"
  by (simp add: update_conv')

lemma map_of_update_same [simp]: "map_of (AList.update k v al) k = Some v"
  by (simp add: update_conv')

lemma map_of_update_other: "k \<noteq> j \<Longrightarrow> map_of (AList.update k v al) j = map_of al j"
  by (simp add: update_conv')

end
