(* ===== verification/Float64.thy ===== *)
theory Float64
  imports Prelude "HOL-Library.Log_Nat"
begin

text \<open>
  Go's \<open>float64\<close> (IEEE 754 binary64, round to nearest, ties to even), executable.
  A finite value is its rational number; every arithmetic operation computes the
  exact rational result and rounds it once (\<open>fround\<close>). The two zeros are one value:
  they compare equal, and the sources divide by zero only with the positive zero.
  NaN payloads are not distinguished.
\<close>

section \<open>Values and comparisons\<close>

datatype float64 = NaN | PosInf | NegInf | Fin rat

fun float_lt :: "float64 \<Rightarrow> float64 \<Rightarrow> bool" where
  "float_lt NaN _ = False"
| "float_lt _ NaN = False"
| "float_lt (Fin a) (Fin b) = (a < b)"
| "float_lt PosInf _ = False"
| "float_lt _ NegInf = False"
| "float_lt _ _ = True"

fun float_eq :: "float64 \<Rightarrow> float64 \<Rightarrow> bool" where
  "float_eq NaN _ = False"
| "float_eq x y = (x = y)"

definition float_le :: "float64 \<Rightarrow> float64 \<Rightarrow> bool" where
  "float_le x y = (float_lt x y \<or> float_eq x y)"

abbreviation float_gt :: "float64 \<Rightarrow> float64 \<Rightarrow> bool" where
  "float_gt x y \<equiv> float_lt y x"

abbreviation float_ge :: "float64 \<Rightarrow> float64 \<Rightarrow> bool" where
  "float_ge x y \<equiv> float_le y x"

definition is_nan :: "float64 \<Rightarrow> bool" where
  "is_nan x = (x = NaN)"

lemma float_lt_Inf [simp]:
  "float_lt NegInf PosInf" "float_lt NegInf (Fin a)" "float_lt (Fin a) PosInf"
  "\<not> float_lt PosInf x" "\<not> float_lt x NegInf" "\<not> float_lt x NaN"
  by (cases x; simp)+

lemma float_le_simps [simp]:
  "float_le (Fin a) (Fin b) = (a \<le> b)"
  "\<not> float_le NaN x" "\<not> float_le x NaN"
  "float_le NegInf (Fin a)" "float_le (Fin a) PosInf" "float_le NegInf PosInf"
  "\<not> float_le PosInf (Fin a)" "\<not> float_le (Fin a) NegInf"
  "float_le PosInf PosInf" "float_le NegInf NegInf" "\<not> float_le PosInf NegInf"
  by (cases x; auto simp: float_le_def)+

lemma float_eq_Fin [simp]: "float_eq (Fin a) y = (y = Fin a)" "float_eq x (Fin b) = (x = Fin b)"
  by (cases y; auto) (cases x; auto)

lemma float_lt_irrefl [simp]: "\<not> float_lt x x"
  by (cases x) auto

lemma float_le_refl: "\<not> is_nan x \<Longrightarrow> float_le x x"
  by (cases x) (auto simp: is_nan_def)

lemma float_le_trans: "float_le x y \<Longrightarrow> float_le y z \<Longrightarrow> float_le x z"
  by (cases x; cases y; cases z) auto

lemma float_lt_le_trans: "float_lt x y \<Longrightarrow> float_le y z \<Longrightarrow> float_lt x z"
  by (cases x; cases y; cases z) auto

lemma float_le_lt_trans: "float_le x y \<Longrightarrow> float_lt y z \<Longrightarrow> float_lt x z"
  by (cases x; cases y; cases z) auto

lemma float_not_lt: "\<lbrakk> \<not> is_nan x; \<not> is_nan y \<rbrakk> \<Longrightarrow> \<not> float_lt x y \<longleftrightarrow> float_le y x"
  by (cases x; cases y) (auto simp: is_nan_def)

lemma float_le_not_lt: "float_le x y \<Longrightarrow> \<not> float_lt y x"
  by (cases x; cases y) auto

section \<open>Rounding\<close>

text \<open>Binary logarithm of a positive rational, rounded down.\<close>

definition flog2 :: "rat \<Rightarrow> int" where
  "flog2 x = (if 1 \<le> x then bitlen \<lfloor>x\<rfloor> - 1 else - bitlen (\<lceil>1 / x\<rceil> - 1))"

text \<open>Nearest integer, ties to even.\<close>

definition rne :: "rat \<Rightarrow> int" where
  "rne q = (let f = \<lfloor>q\<rfloor>; d = q - of_int f
            in if d < 1/2 then f else if 1/2 < d then f + 1
               else if even f then f else f + 1)"

text \<open>Exponent of the last place of a value of the magnitude of \<open>x\<close>: 53 significant bits,
  gradual underflow below \<open>2\<^sup>-\<^sup>1\<^sup>0\<^sup>2\<^sup>2\<close>.\<close>

definition ulp_exp :: "rat \<Rightarrow> int" where
  "ulp_exp x = max (flog2 \<bar>x\<bar> - 52) (-1074)"

definition fround_rat :: "rat \<Rightarrow> rat" where
  "fround_rat x = (if x = 0 then 0
     else of_int (rne (x / 2 powi ulp_exp x)) * 2 powi ulp_exp x)"

definition fround :: "rat \<Rightarrow> float64" where
  "fround x = (let r = fround_rat x
     in if 2 ^ 1024 \<le> r then PosInf else if r \<le> - (2 ^ 1024) then NegInf else Fin r)"

section \<open>Arithmetic\<close>

fun float_neg :: "float64 \<Rightarrow> float64" where
  "float_neg NaN = NaN"
| "float_neg PosInf = NegInf"
| "float_neg NegInf = PosInf"
| "float_neg (Fin a) = Fin (- a)"

fun float_add :: "float64 \<Rightarrow> float64 \<Rightarrow> float64" where
  "float_add NaN _ = NaN"
| "float_add _ NaN = NaN"
| "float_add PosInf NegInf = NaN"
| "float_add NegInf PosInf = NaN"
| "float_add PosInf _ = PosInf"
| "float_add _ PosInf = PosInf"
| "float_add NegInf _ = NegInf"
| "float_add _ NegInf = NegInf"
| "float_add (Fin a) (Fin b) = fround (a + b)"

definition float_sub :: "float64 \<Rightarrow> float64 \<Rightarrow> float64" where
  "float_sub x y = float_add x (float_neg y)"

definition signed_inf :: "bool \<Rightarrow> float64" where
  "signed_inf pos = (if pos then PosInf else NegInf)"

fun float_mul :: "float64 \<Rightarrow> float64 \<Rightarrow> float64" where
  "float_mul NaN _ = NaN"
| "float_mul _ NaN = NaN"
| "float_mul (Fin a) (Fin b) = fround (a * b)"
| "float_mul (Fin a) PosInf = (if a = 0 then NaN else signed_inf (0 < a))"
| "float_mul (Fin a) NegInf = (if a = 0 then NaN else signed_inf (a < 0))"
| "float_mul PosInf (Fin b) = (if b = 0 then NaN else signed_inf (0 < b))"
| "float_mul NegInf (Fin b) = (if b = 0 then NaN else signed_inf (b < 0))"
| "float_mul x y = signed_inf (x = y)"

text \<open>Division by (positive) zero: NaN for \<open>0/0\<close>, otherwise the infinity of the
  numerator's sign.\<close>

fun float_div :: "float64 \<Rightarrow> float64 \<Rightarrow> float64" where
  "float_div NaN _ = NaN"
| "float_div _ NaN = NaN"
| "float_div (Fin a) (Fin b) =
     (if b = 0 then if a = 0 then NaN else signed_inf (0 < a) else fround (a / b))"
| "float_div (Fin _) _ = Fin 0"
| "float_div PosInf (Fin b) = signed_inf (0 \<le> b)"
| "float_div NegInf (Fin b) = signed_inf (b < 0)"
| "float_div _ _ = NaN"

fun float_abs :: "float64 \<Rightarrow> float64" where
  "float_abs NaN = NaN"
| "float_abs PosInf = PosInf"
| "float_abs NegInf = PosInf"
| "float_abs (Fin a) = Fin \<bar>a\<bar>"

definition float_of_int :: "int \<Rightarrow> float64" where
  "float_of_int i = fround (of_int i)"

text \<open>Conversion \<open>int64(f)\<close>: truncation towards zero. For a value outside the range
  Go leaves the result to the implementation: the parameter \<open>oor\<close>.\<close>

definition trunc_rat :: "rat \<Rightarrow> int" where
  "trunc_rat r = (if 0 \<le> r then \<lfloor>r\<rfloor> else \<lceil>r\<rceil>)"

definition int64_of_float :: "(float64 \<Rightarrow> int) \<Rightarrow> float64 \<Rightarrow> int" where
  "int64_of_float oor x = (case x of
     Fin r \<Rightarrow> (if - (2 ^ 63) \<le> trunc_rat r \<and> trunc_rat r < 2 ^ 63 then trunc_rat r else oor x)
   | _ \<Rightarrow> oor x)"

section \<open>Laws of rounding\<close>

lemma flog2_bounds:
  assumes "0 < x"
  shows "2 powi flog2 x \<le> x" and "x < 2 powi (flog2 x + 1)"
proof -
  have "2 powi flog2 x \<le> x \<and> x < 2 powi (flog2 x + 1)"
  proof (cases "1 \<le> x")
    case True
    define n where "n = \<lfloor>x\<rfloor>"
    have n: "1 \<le> n" "of_int n \<le> x" "x < of_int n + 1"
      using True unfolding n_def by (simp, simp, linarith)
    define b where "b = bitlen n"
    have bb: "2 ^ nat (b - 1) \<le> n" "n < 2 ^ nat b"
      using bitlen_bounds [of n] n by (auto simp: b_def)
    have b1: "1 \<le> b" using n bb by (cases "b \<le> 0") auto
    have p1: "(2::rat) powi (b - 1) = of_int (2 ^ nat (b - 1))"
      and p2: "(2::rat) powi b = of_int (2 ^ nat b)"
      using b1 by (simp_all add: power_int_def)
    have "of_int (n + 1) \<le> (of_int (2 ^ nat b) :: rat)"
      using bb by (subst of_int_le_iff) simp
    with n p2 have "x < 2 powi b" by simp
    moreover have "of_int (2 ^ nat (b - 1)) \<le> (of_int n :: rat)"
      using bb by (subst of_int_le_iff) simp
    with n p1 have "2 powi (b - 1) \<le> x" by linarith
    ultimately show ?thesis
      using True by (simp add: flog2_def n_def [symmetric] b_def [symmetric])
  next
    case False
    define y where "y = 1 / x"
    have y: "1 < y" using False assms by (simp add: y_def)
    define m where "m = \<lceil>y\<rceil> - 1"
    have m: "1 \<le> m" "of_int m < y" "y \<le> of_int m + 1"
      using y unfolding m_def by linarith+
    define b where "b = bitlen m"
    have bb: "2 ^ nat (b - 1) \<le> m" "m < 2 ^ nat b"
      using bitlen_bounds [of m] m by (auto simp: b_def)
    have b1: "1 \<le> b" using m bb by (cases "b \<le> 0") auto
    have p1: "(2::rat) powi (b - 1) = of_int (2 ^ nat (b - 1))"
      using b1 by (simp add: power_int_def)
    have p2: "(2::rat) powi b = of_int (2 ^ nat b)"
      using b1 by (simp add: power_int_def)
    have "of_int (m + 1) \<le> (of_int (2 ^ nat b) :: rat)"
      using bb by (subst of_int_le_iff) simp
    with m p2 have up: "y \<le> 2 powi b" by simp
    have "of_int (2 ^ nat (b - 1)) \<le> (of_int m :: rat)"
      using bb by (subst of_int_le_iff) simp
    with m p1 have lo: "2 powi (b - 1) < y" by linarith
    have fl: "flog2 x = - b" using False by (simp add: flog2_def b_def m_def y_def)
    have x: "1 / y = x" using assms by (simp add: y_def)
    have "1 / (2 powi b) \<le> 1 / y" using up y by (intro divide_left_mono) auto
    moreover have "1 / y < 1 / (2 powi (b - 1))" using lo y by (intro divide_strict_left_mono) auto
    moreover have "(2::rat) powi (- b) = 1 / 2 powi b" by (simp add: power_int_minus divide_inverse)
    moreover have "(2::rat) powi (- b + 1) = 1 / 2 powi (b - 1)"
      using power_int_minus [of "2::rat" "b - 1"] by (simp add: divide_inverse)
    ultimately show ?thesis unfolding fl by (simp add: x)
  qed
  then show "2 powi flog2 x \<le> x" and "x < 2 powi (flog2 x + 1)" by auto
qed

lemma powi2_less: "a < b \<Longrightarrow> (2::rat) powi a < 2 powi b"
  by (rule power_int_strict_increasing) simp_all

lemma powi2_less_iff: "(2::rat) powi a < 2 powi b \<longleftrightarrow> a < b"
  using powi2_less [of a b] powi2_less [of b a] by (cases a b rule: linorder_cases) auto

lemma powi2_le_iff: "(2::rat) powi a \<le> 2 powi b \<longleftrightarrow> a \<le> b"
  using powi2_less_iff [of b a] by linarith

lemma flog2_mono: "0 < x \<Longrightarrow> x \<le> y \<Longrightarrow> flog2 x \<le> flog2 y"
proof -
  assume "0 < x" "x \<le> y"
  then have "2 powi flog2 x < (2::rat) powi (flog2 y + 1)"
    using flog2_bounds [of x] flog2_bounds [of y] by linarith
  then show ?thesis by (simp add: powi2_less_iff)
qed

lemma rne_cases: "rne q = \<lfloor>q\<rfloor> \<or> rne q = \<lfloor>q\<rfloor> + 1"
  by (simp add: rne_def Let_def)

lemma rne_of_int [simp]: "rne (of_int n) = n"
  by (simp add: rne_def Let_def)

lemma rne_mono: "q \<le> p \<Longrightarrow> rne q \<le> rne p"
proof -
  assume le: "q \<le> p"
  then have fl: "\<lfloor>q\<rfloor> \<le> \<lfloor>p\<rfloor>" by (rule floor_mono)
  show ?thesis
  proof (cases "\<lfloor>q\<rfloor> = \<lfloor>p\<rfloor>")
    case True
    then show ?thesis using le by (auto simp: rne_def Let_def)
  next
    case False
    with fl show ?thesis using rne_cases [of q] rne_cases [of p] by linarith
  qed
qed

lemma rne_le_int: "q \<le> of_int n \<Longrightarrow> rne q \<le> n"
  using rne_mono [of q "of_int n"] by simp

lemma rne_ge_int: "of_int n \<le> q \<Longrightarrow> n \<le> rne q"
  using rne_mono [of "of_int n" q] by simp

lemma rne_error: "\<bar>of_int (rne q) - q\<bar> \<le> 1 / 2"
  by (auto simp: rne_def Let_def abs_if) linarith+

lemma rne_uminus: "rne (- q) = - rne q"
proof (cases "q = of_int \<lfloor>q\<rfloor>")
  case True
  then show ?thesis by (metis of_int_minus rne_of_int)
next
  case False
  have lt: "of_int \<lfloor>q\<rfloor> < q" using False of_int_floor_le [of q] by linarith
  have fm: "\<lfloor>- q\<rfloor> = - \<lfloor>q\<rfloor> - 1"
  proof -
    have "of_int (- \<lfloor>q\<rfloor> - 1) \<le> - q" using floor_less_iff [of q "\<lfloor>q\<rfloor> + 1"] by (simp; linarith)
    moreover have "- q < of_int (- \<lfloor>q\<rfloor> - 1) + 1" using lt by simp
    ultimately show ?thesis by (intro floor_unique) auto
  qed
  show ?thesis
    unfolding rne_def Let_def fm by auto
qed

lemma powi2_mult_nat: "e \<le> f \<Longrightarrow> (2::rat) powi f = of_int (2 ^ nat (f - e)) * 2 powi e"
  using power_int_add [of "2::rat" "f - e" e] by (simp add: power_int_def)

lemma ulp_exp_mono: "0 < x \<Longrightarrow> x \<le> y \<Longrightarrow> ulp_exp x \<le> ulp_exp y"
  using flog2_mono [of x y] by (simp add: ulp_exp_def)

lemma fround_rat_0 [simp]: "fround_rat 0 = 0"
  by (simp add: fround_rat_def)

lemma fround_rat_uminus: "fround_rat (- x) = - fround_rat x"
  by (simp add: fround_rat_def ulp_exp_def rne_uminus)

lemma fround_rat_le_powi:
  assumes "0 < x" "x \<le> 2 powi k" "ulp_exp x \<le> k"
  shows "fround_rat x \<le> 2 powi k"
proof -
  let ?u = "ulp_exp x"
  have pk: "2 powi k = of_int (2 ^ nat (k - ?u)) * (2::rat) powi ?u"
    using assms(3) by (rule powi2_mult_nat)
  with assms(2) have "x / 2 powi ?u \<le> of_int (2 ^ nat (k - ?u))"
    by (simp add: divide_le_eq)
  then have "rne (x / 2 powi ?u) \<le> 2 ^ nat (k - ?u)" by (rule rne_le_int)
  then have "(of_int (rne (x / 2 powi ?u)) :: rat) \<le> of_int (2 ^ nat (k - ?u))"
    by (subst of_int_le_iff)
  then show ?thesis using assms(1) by (simp add: fround_rat_def pk)
qed

lemma fround_rat_ge_powi:
  assumes "0 < x" "2 powi k \<le> x" "ulp_exp x \<le> k"
  shows "2 powi k \<le> fround_rat x"
proof -
  let ?u = "ulp_exp x"
  have pk: "2 powi k = of_int (2 ^ nat (k - ?u)) * (2::rat) powi ?u"
    using assms(3) by (rule powi2_mult_nat)
  with assms(2) have "of_int (2 ^ nat (k - ?u)) \<le> x / 2 powi ?u"
    by (simp add: le_divide_eq)
  then have "2 ^ nat (k - ?u) \<le> rne (x / 2 powi ?u)" by (rule rne_ge_int)
  then have "of_int (2 ^ nat (k - ?u)) \<le> (of_int (rne (x / 2 powi ?u)) :: rat)"
    by (subst of_int_le_iff)
  then show ?thesis using assms(1) by (simp add: fround_rat_def pk)
qed

lemma fround_rat_mono_pos:
  assumes "0 < x" "x \<le> y"
  shows "fround_rat x \<le> fround_rat y"
proof (cases "ulp_exp x = ulp_exp y")
  case True
  have "rne (x / 2 powi ulp_exp y) \<le> rne (y / 2 powi ulp_exp y)"
    using assms by (intro rne_mono divide_right_mono) auto
  then show ?thesis using assms True by (simp add: fround_rat_def)
next
  case False
  then have lt: "ulp_exp x < ulp_exp y" using ulp_exp_mono [OF assms] by linarith
  define k where "k = flog2 y"
  have uy: "ulp_exp y = k - 52" using lt assms by (auto simp: ulp_exp_def k_def)
  have "flog2 x < k" using lt assms by (auto simp: ulp_exp_def k_def)
  then have "x \<le> 2 powi k"
    using flog2_bounds(2) [OF assms(1)] powi2_le_iff [of "flog2 x + 1" k] by linarith
  moreover have "2 powi k \<le> y" using flog2_bounds(1) [of y] assms by (simp add: k_def)
  ultimately show ?thesis
    using fround_rat_le_powi [of x k] fround_rat_ge_powi [of y k] assms lt uy by simp
qed

lemma fround_rat_nonneg: "0 \<le> x \<Longrightarrow> 0 \<le> fround_rat x"
proof -
  assume "0 \<le> x"
  then have "0 \<le> rne (x / 2 powi ulp_exp x)" by (intro rne_ge_int) simp
  then show ?thesis by (simp add: fround_rat_def)
qed

lemma fround_rat_mono: "x \<le> y \<Longrightarrow> fround_rat x \<le> fround_rat y"
proof -
  assume le: "x \<le> y"
  consider "0 < x" | "x \<le> 0" "0 \<le> y" | "y < 0" by linarith
  then show ?thesis
  proof cases
    case 1 then show ?thesis using le by (rule fround_rat_mono_pos)
  next
    case 2
    then show ?thesis
      using fround_rat_nonneg [of y] fround_rat_nonneg [of "- x"] by (simp add: fround_rat_uminus)
  next
    case 3
    then show ?thesis
      using fround_rat_mono_pos [of "- y" "- x"] le by (simp add: fround_rat_uminus)
  qed
qed

text \<open>Values with at most 53 significant bits are not changed by rounding.\<close>

lemma fround_rat_exact_ulp:
  assumes "x = of_int m * 2 powi e" and "ulp_exp x \<le> e"
  shows "fround_rat x = x"
proof -
  let ?u = "ulp_exp x"
  have xe: "x = of_int (m * 2 ^ nat (e - ?u)) * 2 powi ?u"
    using assms(1) powi2_mult_nat [OF assms(2)] by (simp add: mult.assoc)
  then have q: "x / 2 powi ?u = of_int (m * 2 ^ nat (e - ?u))"
    by (simp add: divide_eq_eq del: of_int_mult)
  have "of_int (rne (x / 2 powi ?u)) * 2 powi ?u = x"
    unfolding q rne_of_int by (rule xe [symmetric])
  then show ?thesis by (simp add: fround_rat_def)
qed

lemma fround_rat_exact:
  assumes "x = of_int m * 2 powi e" and "\<bar>m\<bar> \<le> 2 ^ 53" and "-1074 \<le> e"
  shows "fround_rat x = x"
proof (cases "m = 0")
  case True
  then show ?thesis using assms by simp
next
  case False
  have ax: "\<bar>x\<bar> = of_int \<bar>m\<bar> * 2 powi e" using assms(1) by (simp add: abs_mult)
  have xpos: "0 < \<bar>x\<bar>" using False by (simp add: ax)
  show ?thesis
  proof (cases "\<bar>m\<bar> = 2 ^ 53")
    case True
    define m' where "m' = sgn m * 2 ^ 52"
    have "m = m' * 2" using True by (auto simp: m'_def sgn_if abs_if split: if_splits)
    then have x': "x = of_int m' * 2 powi (e + 1)"
      using assms(1) by (simp add: power_int_add)
    have "\<bar>x\<bar> = 2 powi (e + 53)" using ax True by (simp add: power_int_add)
    then have "2 powi flog2 \<bar>x\<bar> \<le> (2::rat) powi (e + 53)" using flog2_bounds(1) [OF xpos] by simp
    then have "ulp_exp x \<le> e + 1" using assms(3) by (simp add: powi2_le_iff ulp_exp_def)
    with x' show ?thesis by (rule fround_rat_exact_ulp)
  next
    case False
    with assms(2) have "\<bar>m\<bar> < 2 ^ 53" by simp
    then have "(of_int \<bar>m\<bar> :: rat) < of_int (2 ^ 53)" by (subst of_int_less_iff)
    then have "\<bar>x\<bar> < 2 ^ 53 * 2 powi e" by (simp add: ax)
    then have "\<bar>x\<bar> < 2 powi (e + 53)" by (simp add: power_int_add mult.commute)
    then have "2 powi flog2 \<bar>x\<bar> < (2::rat) powi (e + 53)" using flog2_bounds(1) [OF xpos] by linarith
    then have "ulp_exp x \<le> e" using assms(3) by (simp add: powi2_less_iff ulp_exp_def)
    with assms(1) show ?thesis by (rule fround_rat_exact_ulp)
  qed
qed

lemma ulp_exp_ge: "-1074 \<le> ulp_exp x"
  by (simp add: ulp_exp_def)

lemma fround_rat_digits:
  assumes "x \<noteq> 0"
  shows "\<bar>rne (x / 2 powi ulp_exp x)\<bar> \<le> 2 ^ 53"
proof -
  let ?u = "ulp_exp x"
  have "\<bar>x\<bar> < 2 powi (flog2 \<bar>x\<bar> + 1)" using flog2_bounds(2) [of "\<bar>x\<bar>"] assms by simp
  moreover have "(2::rat) powi (flog2 \<bar>x\<bar> + 1) \<le> 2 powi (?u + 53)"
    by (subst powi2_le_iff) (simp add: ulp_exp_def)
  ultimately have "\<bar>x\<bar> \<le> 2 ^ 53 * 2 powi ?u" by (simp add: power_int_add mult.commute)
  then have "x \<le> of_int (2 ^ 53) * 2 powi ?u" "- of_int (2 ^ 53) * 2 powi ?u \<le> x"
    by simp_all
  then have "x / 2 powi ?u \<le> of_int (2 ^ 53)" "of_int (- (2 ^ 53)) \<le> x / 2 powi ?u"
    by (simp_all add: divide_le_eq le_divide_eq)
  then have "rne (x / 2 powi ?u) \<le> 2 ^ 53" "- (2 ^ 53) \<le> rne (x / 2 powi ?u)"
    using rne_le_int rne_ge_int by blast+
  then show ?thesis by (simp add: abs_le_iff)
qed

lemma fround_rat_idem [simp]: "fround_rat (fround_rat x) = fround_rat x"
proof (cases "x = 0")
  case False
  show ?thesis
    using False fround_rat_digits [OF False] ulp_exp_ge [of x]
    by (intro fround_rat_exact [of _ "rne (x / 2 powi ulp_exp x)" "ulp_exp x"])
       (simp_all add: fround_rat_def)
qed simp

lemma fround_rat_error: "\<bar>fround_rat x - x\<bar> \<le> 2 powi ulp_exp x / 2"
proof (cases "x = 0")
  case False
  let ?u = "ulp_exp x" let ?q = "x / 2 powi ulp_exp x"
  have "fround_rat x - x = (of_int (rne ?q) - ?q) * 2 powi ?u"
    using False by (simp add: fround_rat_def left_diff_distrib)
  then have "\<bar>fround_rat x - x\<bar> = \<bar>of_int (rne ?q) - ?q\<bar> * 2 powi ?u"
    by (simp add: abs_mult)
  also have "\<dots> \<le> 1 / 2 * 2 powi ?u"
    by (rule mult_right_mono [OF rne_error]) simp
  finally show ?thesis by simp
qed simp

section \<open>Rounding at the level of float64\<close>

lemma fround_0 [simp]: "fround 0 = Fin 0"
  by (simp add: fround_def)

lemma fround_not_nan [simp]: "fround x \<noteq> NaN"
  by (simp add: fround_def Let_def)

lemma fround_mono: "x \<le> y \<Longrightarrow> float_le (fround x) (fround y)"
  using fround_rat_mono [of x y] by (auto simp: fround_def Let_def)

definition float_ok :: "float64 \<Rightarrow> bool" where
  "float_ok x = (case x of Fin a \<Rightarrow> fround a = Fin a | _ \<Rightarrow> True)"

lemma float_ok_simps [simp]: "float_ok NaN" "float_ok PosInf" "float_ok NegInf"
  "float_ok (Fin a) = (fround a = Fin a)"
  by (simp_all add: float_ok_def)

lemma float_ok_fround [simp]: "float_ok (fround x)"
  by (auto simp: fround_def Let_def)

lemma fround_exact:
  assumes "x = of_int m * 2 powi e" "\<bar>m\<bar> \<le> 2 ^ 53" "-1074 \<le> e" "\<bar>x\<bar> < 2 ^ 1024"
  shows "fround x = Fin x"
  using fround_rat_exact [OF assms(1,2,3)] assms(4) by (simp add: fround_def Let_def abs_less_iff)

lemma fround_of_int: "\<bar>i\<bar> \<le> 2 ^ 53 \<Longrightarrow> fround (of_int i) = Fin (of_int i)"
proof -
  assume i: "\<bar>i\<bar> \<le> 2 ^ 53"
  have "(of_int \<bar>i\<bar> :: rat) \<le> of_int (2 ^ 53)" using i by (subst of_int_le_iff)
  then have "\<bar>of_int i :: rat\<bar> < 2 ^ 1024" by simp
  with i show ?thesis by (intro fround_exact [of _ i 0]) simp_all
qed

lemma float_of_int_small: "\<bar>i\<bar> \<le> 2 ^ 53 \<Longrightarrow> float_of_int i = Fin (of_int i)"
  by (simp add: float_of_int_def fround_of_int)

lemma fround_numeral [float_simps]:
  "numeral k \<le> (9007199254740992::int) \<Longrightarrow> fround (numeral k) = Fin (numeral k)"
  using fround_of_int [of "numeral k"] by simp

lemma fround_neg_numeral [float_simps]:
  "numeral k \<le> (9007199254740992::int) \<Longrightarrow> fround (- numeral k) = Fin (- numeral k)"
  using fround_of_int [of "- numeral k"] by simp

lemma fround_1 [simp]: "fround 1 = Fin 1"
  using fround_of_int [of 1] by simp

lemma fround_dyadic:
  assumes "\<bar>m\<bar> \<le> 2 ^ 53" "k \<le> 1074"
  shows "fround (of_int m / 2 ^ k) = Fin (of_int m / 2 ^ k)"
proof -
  have "(of_int \<bar>m\<bar> :: rat) \<le> of_int (2 ^ 53)" using assms by (subst of_int_le_iff)
  moreover have "\<bar>of_int m / (2::rat) ^ k\<bar> \<le> \<bar>of_int m\<bar>"
    by (simp add: abs_divide divide_le_eq mult_le_cancel_left1 linorder_not_less)
  ultimately have "\<bar>of_int m / (2::rat) ^ k\<bar> < 2 ^ 1024" by simp
  with assms show ?thesis
    by (intro fround_exact [of _ m "- int k"]) (simp_all add: power_int_minus divide_inverse)
qed

section \<open>Laws of the operations\<close>

lemma float_ok_ops [simp]:
  "float_ok (float_add x y)" if "float_ok x" "float_ok y"
  using that by (cases x; cases y) auto

lemma fround_between:
  assumes "fround a = Fin a" "fround b = Fin b" "a \<le> x" "x \<le> b"
  shows "\<exists>y. fround x = Fin y \<and> a \<le> y \<and> y \<le> b"
  using fround_mono [OF assms(3)] fround_mono [OF assms(4)] assms(1,2) by (cases "fround x") auto

text \<open>Adding a non-negative value does not decrease a value.\<close>

lemma float_add_increasing:
  assumes "fround a = Fin a" "float_le (Fin 0) y"
  shows "float_le (Fin a) (float_add (Fin a) y)"
proof (cases y)
  case (Fin b)
  then show ?thesis using assms fround_mono [of a "a + b"] by simp
qed (use assms in auto)

lemma float_add_increasing':
  assumes "0 \<le> a"
  shows "float_le (fround b) (float_add (Fin a) (fround b))"
proof (cases "fround b")
  case (Fin c)
  then have "fround c = Fin c" using float_ok_fround [of b] by simp
  with Fin assms show ?thesis using fround_mono [of c "a + c"] by simp
qed (auto simp: fround_def Let_def split: if_splits)

lemma float_add_nonneg:
  assumes "float_le (Fin 0) x" "float_le (Fin 0) y"
  shows "float_le (Fin 0) (float_add x y)"
proof (cases x; cases y)
  fix a b assume "x = Fin a" "y = Fin b"
  then show ?thesis using assms fround_mono [of 0 "a + b"] by simp
qed (use assms in auto)

lemma float_mul_nonneg:
  assumes "float_le (Fin 0) x" "float_le (Fin 0) y" "x \<noteq> PosInf" "y \<noteq> PosInf"
  shows "float_le (Fin 0) (float_mul x y)"
proof (cases x; cases y)
  fix a b assume "x = Fin a" "y = Fin b"
  then show ?thesis using assms fround_mono [of 0 "a * b"] by simp
qed (use assms in auto)

section \<open>The standard error bound\<close>

lemma fround_error:
  assumes "fround x = Fin y"
  shows "\<bar>y - x\<bar> \<le> \<bar>x\<bar> / 2 ^ 53 + 1 / 2 ^ 1075"
proof (cases "x = 0")
  case False
  have y: "y = fround_rat x" using assms by (simp add: fround_def Let_def split: if_splits)
  have "(2::rat) powi ulp_exp x \<le> \<bar>x\<bar> / 2 ^ 52 + 1 / 2 ^ 1074"
  proof (cases "flog2 \<bar>x\<bar> - 52 \<ge> -1074")
    case True
    then have "(2::rat) powi ulp_exp x = 2 powi flog2 \<bar>x\<bar> / 2 ^ 52"
      by (simp add: ulp_exp_def power_int_diff)
    moreover have "2 powi flog2 \<bar>x\<bar> \<le> \<bar>x\<bar>" using flog2_bounds [of "\<bar>x\<bar>"] False by simp
    ultimately have "(2::rat) powi ulp_exp x \<le> \<bar>x\<bar> / 2 ^ 52" by (simp add: divide_right_mono)
    then show ?thesis by (rule order_trans) simp
  next
    case False
    then have "(2::rat) powi ulp_exp x = 2 powi (-1074)" by (simp add: ulp_exp_def)
    also have "\<dots> = 1 / 2 ^ 1074" by (simp only: power_int_minus power_int_numeral inverse_eq_divide)
    finally show ?thesis by simp
  qed
  then have "(2::rat) powi ulp_exp x / 2 \<le> (\<bar>x\<bar> / 2 ^ 52 + 1 / 2 ^ 1074) / 2"
    by (rule divide_right_mono) simp
  with fround_rat_error [of x] have "\<bar>fround_rat x - x\<bar> \<le> (\<bar>x\<bar> / 2 ^ 52 + 1 / 2 ^ 1074) / 2"
    by (rule order_trans)
  then show ?thesis by (simp add: y add_divide_distrib)
qed (use assms in simp)

end
