(* ===== verification/Golib.thy ===== *)
theory Golib
  imports Float64 "HOL-Library.Signed_Division"
begin

text \<open>
  What the sources use of Go's language and standard library: 64-bit integers and
  durations, instants of time, and the functions of package \<open>strings\<close> and \<open>fmt\<close>.
  A Go string is its bytes, so \<open>string\<close> (a list of 8-bit characters) is exact.
\<close>

section \<open>Integers, instants and durations\<close>

text \<open>An instant is its distance from the Unix epoch in nanoseconds, a duration its length
  in nanoseconds. Arithmetic on durations is 64-bit and wraps.\<close>

type_synonym time = int
type_synonym duration = int

definition wrap64 :: "int \<Rightarrow> int" where
  "wrap64 i = (i + 2 ^ 63) mod 2 ^ 64 - 2 ^ 63"

lemma wrap64_id: "- (2 ^ 63) \<le> i \<Longrightarrow> i < 2 ^ 63 \<Longrightarrow> wrap64 i = i"
  by (simp add: wrap64_def)

lemma wrap64_range: "- (2 ^ 63) \<le> wrap64 i \<and> wrap64 i < 2 ^ 63"
proof -
  have "0 \<le> (i + 2 ^ 63) mod 2 ^ 64" "(i + 2 ^ 63) mod 2 ^ 64 < 2 ^ 64" by simp_all
  then show ?thesis by (simp add: wrap64_def)
qed

abbreviation Millisecond :: duration where "Millisecond \<equiv> 1000000"
abbreviation Second :: duration where "Second \<equiv> 1000000000"
abbreviation Minute :: duration where "Minute \<equiv> 60000000000"

text \<open>\<open>Time.Sub\<close> saturates.\<close>

definition time_sub :: "time \<Rightarrow> time \<Rightarrow> duration" where
  "time_sub t u = max (- (2 ^ 63)) (min (2 ^ 63 - 1) (t - u))"

text \<open>\<open>Duration.Seconds\<close>: whole seconds and the rest are converted separately.\<close>

definition dur_seconds :: "duration \<Rightarrow> float64" where
  "dur_seconds d = float_add (float_of_int (d sdiv Second))
                     (float_div (float_of_int (d smod Second)) (Fin 1000000000))"

text \<open>The zero \<open>time.Time\<close> (January 1, year 1) and \<open>time.UnixMilli\<close>.\<close>

definition zero_time :: time where
  "zero_time = - 62135596800000000000"

definition UnixMilli :: "int \<Rightarrow> time" where
  "UnixMilli ms = ms * 1000000"

section \<open>Strings\<close>

definition is_ascii :: "string \<Rightarrow> bool" where
  "is_ascii s = list_all (\<lambda>c. (of_char c :: nat) < 128) s"

definition upper_char :: "char \<Rightarrow> char" where
  "upper_char c = (if 97 \<le> (of_char c :: nat) \<and> (of_char c :: nat) \<le> 122
                   then char_of ((of_char c :: nat) - 32) else c)"

text \<open>\<open>strings.ToUpper\<close>: ASCII strings byte by byte, others through the Unicode tables,
  which are the parameter \<open>uni\<close>.\<close>

definition ToUpper :: "(string \<Rightarrow> string) \<Rightarrow> string \<Rightarrow> string" where
  "ToUpper uni s = (if is_ascii s then map upper_char s else uni s)"

definition HasPrefix :: "string \<Rightarrow> string \<Rightarrow> bool" where
  "HasPrefix s p = (take (length p) s = p)"

definition HasSuffix :: "string \<Rightarrow> string \<Rightarrow> bool" where
  "HasSuffix s t = (length t \<le> length s \<and> drop (length s - length t) s = t)"

definition TrimSuffix :: "string \<Rightarrow> string \<Rightarrow> string" where
  "TrimSuffix s t = (if HasSuffix s t then take (length s - length t) s else s)"

definition TrimPrefix :: "string \<Rightarrow> string \<Rightarrow> string" where
  "TrimPrefix s p = (if HasPrefix s p then drop (length p) s else s)"

lemma HasSuffix_append [simp]: "HasSuffix (s @ t) t"
  by (simp add: HasSuffix_def)

lemma HasSuffix_iff: "HasSuffix s t \<longleftrightarrow> (\<exists>u. s = u @ t)"
  by (metis HasSuffix_append HasSuffix_def append_take_drop_id)

lemma TrimSuffix_append [simp]: "TrimSuffix (s @ t) t = s"
  by (simp add: TrimSuffix_def)

lemma of_char_upper_char_less: "(of_char c :: nat) < 128 \<Longrightarrow> (of_char (upper_char c) :: nat) < 128"
  by (auto simp: upper_char_def of_char_of)

lemma upper_char_idem [simp]: "upper_char (upper_char c) = upper_char c"
proof (cases "97 \<le> (of_char c :: nat) \<and> (of_char c :: nat) \<le> 122")
  case True
  then have "(of_char c - 32 :: nat) < 256" by linarith
  with True have "(of_char (upper_char c) :: nat) = of_char c - 32"
    by (simp add: upper_char_def of_char_of)
  with True show ?thesis by (subst (1) upper_char_def) auto
next
  case False
  then show ?thesis by (auto simp: upper_char_def)
qed

lemma is_ascii_ToUpper: "is_ascii s \<Longrightarrow> is_ascii (ToUpper uni s)"
  by (simp add: ToUpper_def is_ascii_def list_all_iff of_char_upper_char_less)

lemma ToUpper_idem: "is_ascii s \<Longrightarrow> ToUpper uni (ToUpper uni s) = ToUpper uni s"
  using is_ascii_ToUpper [of s uni] by (simp add: ToUpper_def)

text \<open>\<open>strings.Cut\<close> at a single byte: what is before its first occurrence, and what is after it if
  it occurs.\<close>

definition split_at :: "char \<Rightarrow> string \<Rightarrow> string \<times> string option" where
  "split_at c s = (let pre = takeWhile (\<lambda>x. x \<noteq> c) s in
     (pre, if length pre < length s then Some (drop (Suc (length pre)) s) else None))"

lemma split_at_append: "c \<notin> set u \<Longrightarrow> split_at c (u @ c # v) = (u, Some v)"
proof -
  assume "c \<notin> set u"
  then have "takeWhile (\<lambda>x. x \<noteq> c) (u @ c # v) = u" by (induction u) auto
  then show ?thesis by (simp add: split_at_def)
qed

text \<open>\<open>strings.TrimRight\<close> for a single byte, \<open>strings.Join\<close>, and \<open>strings.TrimSpace\<close> (ASCII
  strings byte by byte, others through the Unicode tables).\<close>

definition TrimRight :: "char \<Rightarrow> string \<Rightarrow> string" where
  "TrimRight c s = rev (dropWhile (\<lambda>x. x = c) (rev s))"

fun Join :: "string \<Rightarrow> string list \<Rightarrow> string" where
  "Join sep [] = ''''"
| "Join sep [s] = s"
| "Join sep (s # ss) = s @ sep @ Join sep ss"

text \<open>\<open>strings.Split\<close> at a one-character separator.\<close>

fun Split :: "char \<Rightarrow> string \<Rightarrow> string list" where
  "Split sep [] = [[]]"
| "Split sep (c # cs) =
     (if c = sep then [] # Split sep cs
      else case Split sep cs of [] \<Rightarrow> [[c]] | w # ws \<Rightarrow> (c # w) # ws)"

lemma Split_not_Nil: "Split sep s \<noteq> []"
  by (induction s) (auto split: list.split)

lemma Join_Split: "Join [sep] (Split sep s) = s"
proof (induction s)
  case (Cons c cs)
  then show ?case using Split_not_Nil [of sep cs] by (cases "Split sep cs"; cases "tl (Split sep cs)") auto
qed simp

definition is_space :: "char \<Rightarrow> bool" where
  "is_space c = (of_char c \<in> {9, 10, 11, 12, 13, 32 :: nat})"

definition TrimSpace :: "(string \<Rightarrow> string) \<Rightarrow> string \<Rightarrow> string" where
  "TrimSpace uni s = (if is_ascii s then rev (dropWhile is_space (rev (dropWhile is_space s))) else uni s)"

section \<open>Decimal formatting of integers\<close>

definition digit_char :: "nat \<Rightarrow> char" where
  "digit_char d = char_of (48 + d)"

fun nat_digits :: "nat \<Rightarrow> string" where
  "nat_digits n = (if n < 10 then [digit_char n]
                   else nat_digits (n div 10) @ [digit_char (n mod 10)])"

declare nat_digits.simps [simp del]

text \<open>The verb \<open>%d\<close> of package \<open>fmt\<close>.\<close>

definition itoa :: "int \<Rightarrow> string" where
  "itoa i = (if i < 0 then CHR ''-'' # nat_digits (nat (- i)) else nat_digits (nat i))"

lemma itoa_small:
  "itoa 0 = ''0''" "itoa 1 = ''1''" "itoa 2 = ''2''" "itoa 3 = ''3''" "itoa 4 = ''4''"
  "itoa 5 = ''5''" "itoa 6 = ''6''" "itoa 7 = ''7''" "itoa 8 = ''8''" "itoa 9 = ''9''"
  by code_simp+

definition is_digit :: "char \<Rightarrow> bool" where
  "is_digit c = (48 \<le> (of_char c :: nat) \<and> (of_char c :: nat) \<le> 57)"

definition digits_value :: "string \<Rightarrow> nat" where
  "digits_value s = foldl (\<lambda>n c. 10 * n + (of_char c - 48)) 0 s"

lemma of_char_digit_char: "d < 10 \<Longrightarrow> (of_char (digit_char d) :: nat) = 48 + d"
  by (simp add: digit_char_def of_char_of)

lemma nat_digits_all_digits: "\<forall>c\<in>set (nat_digits n). is_digit c"
proof (induction n rule: nat_digits.induct)
  case (1 n)
  then show ?case
    by (cases "n < 10") (auto simp: nat_digits.simps [of n] is_digit_def of_char_digit_char)
qed

lemma digits_value_nat_digits [simp]: "digits_value (nat_digits n) = n"
proof (induction n rule: nat_digits.induct)
  case (1 n)
  show ?case
  proof (cases "n < 10")
    case True
    then show ?thesis by (subst nat_digits.simps) (simp add: digits_value_def of_char_digit_char)
  next
    case False
    then have "digits_value (nat_digits n) = 10 * digits_value (nat_digits (n div 10)) + n mod 10"
      by (subst nat_digits.simps) (simp add: digits_value_def of_char_digit_char)
    with 1 False show ?thesis by simp
  qed
qed

lemma nat_digits_inj: "nat_digits m = nat_digits n \<longleftrightarrow> m = n"
  by (metis digits_value_nat_digits)

lemma nat_digits_not_Nil [simp]: "nat_digits n \<noteq> []"
  by (subst nat_digits.simps) simp

lemma not_is_digit_dash [simp]: "\<not> is_digit (CHR ''-'')"
  by (simp add: is_digit_def)

text \<open>A string that ends in a dash and a decimal number determines both parts.\<close>

lemma dash_digits_unique:
  "s @ CHR ''-'' # nat_digits m = t @ CHR ''-'' # nat_digits n \<longleftrightarrow> s = t \<and> m = n"
  using append_run_unique [of s "CHR ''-''" "nat_digits m" t "CHR ''-''" "nat_digits n" is_digit]
    nat_digits_all_digits nat_digits_inj by auto

end
