(* ===== verification/Exchange.thy ===== *)
theory Exchange
  imports Golib
begin

text \<open>
  \<open>internal/exchange/connector.go\<close>: the order and fill types and the
  \<open>ExchangeConnector\<close> interface. The Go types \<open>OrderSide\<close>, \<open>OrderType\<close> and
  \<open>OrderState\<close> are string types whose values arrive from JSON, so they stay strings with
  named constants. A connector is a record of operations on its own state \<open>'x\<close>.
\<close>

section \<open>Data\<close>

type_synonym OrderSide = string
type_synonym OrderType = string
type_synonym OrderState = string

abbreviation SideBuy :: OrderSide where "SideBuy \<equiv> ''BUY''"
abbreviation SideSell :: OrderSide where "SideSell \<equiv> ''SELL''"

abbreviation TypeLimit :: OrderType where "TypeLimit \<equiv> ''LIMIT''"
abbreviation TypeMarket :: OrderType where "TypeMarket \<equiv> ''MARKET''"

abbreviation StatePending :: OrderState where "StatePending \<equiv> ''PENDING''"
abbreviation StateSubmitted :: OrderState where "StateSubmitted \<equiv> ''SUBMITTED''"
abbreviation StatePartiallyFilled :: OrderState where
  "StatePartiallyFilled \<equiv> ''PARTIALLY_FILLED''"
abbreviation StateFilled :: OrderState where "StateFilled \<equiv> ''FILLED''"
abbreviation StateCanceled :: OrderState where "StateCanceled \<equiv> ''CANCELED''"
abbreviation StateRejected :: OrderState where "StateRejected \<equiv> ''REJECTED''"
abbreviation StateExpired :: OrderState where "StateExpired \<equiv> ''EXPIRED''"

record Order =
  o_OrderID :: string
  o_Instrument :: string
  o_Side :: OrderSide
  o_Quantity :: float64
  o_Price :: float64
  o_Type :: OrderType

record ExecutionFill =
  f_OrderID :: string
  f_ExecutionID :: string
  f_Instrument :: string
  f_Side :: OrderSide
  f_OrderStatus :: OrderState
  f_Quantity :: float64
  f_FillPrice :: float64
  f_TransactionCost :: float64
  f_Timestamp :: time

text \<open>The zero value \<open>ExecutionFill{}\<close>.\<close>

definition empty_fill :: ExecutionFill where
  "empty_fill = \<lparr> f_OrderID = '''', f_ExecutionID = '''', f_Instrument = '''', f_Side = '''',
     f_OrderStatus = '''', f_Quantity = Fin 0, f_FillPrice = Fin 0, f_TransactionCost = Fin 0,
     f_Timestamp = zero_time \<rparr>"

record OrderStatusResult =
  r_State :: OrderState
  r_ExecutedQty :: float64
  r_FillPrice :: float64
  r_TransactTime :: time

text \<open>Terminal states, as \<open>GetAllActiveOrders\<close> and the store's query list them.\<close>

definition is_terminal :: "OrderState \<Rightarrow> bool" where
  "is_terminal st = (st \<in> {StateFilled, StateCanceled, StateRejected, StateExpired})"

lemma is_terminal_simps [simp]:
  "is_terminal StateFilled" "is_terminal StateCanceled" "is_terminal StateRejected"
  "is_terminal StateExpired" "\<not> is_terminal StatePending" "\<not> is_terminal StateSubmitted"
  "\<not> is_terminal StatePartiallyFilled"
  by (simp_all add: is_terminal_def)

section \<open>The environment of a call\<close>

text \<open>What the surroundings decide during one call of an operation: the reading of the
  clock, whether \<open>ctx.Done()\<close> wins the operation's first \<open>select\<close>, whether the database
  statement succeeds (and the driver's message if not), whether the iteration over a result
  set breaks off after some rows or fails to scan a row (\<open>None\<close>: neither), and how the \<open>i\<close>-th
  channel send of the call ends.\<close>

datatype send = Sent | CtxDone | Full

datatype rows_fault = RowsEnd nat | ScanFails

record call =
  c_now :: time
  c_done :: bool
  c_ok :: bool
  c_err :: goerror
  c_rows :: "rows_fault option"
  c_send :: "nat \<Rightarrow> send"

section \<open>The connector interface\<close>

record 'x ExchangeConnector =
  SubmitOrder :: "call \<Rightarrow> Order \<Rightarrow> 'x \<Rightarrow> (goerror + ExecutionFill) \<times> 'x"
  CancelOrder :: "call \<Rightarrow> string \<Rightarrow> string \<Rightarrow> 'x \<Rightarrow> goerror option \<times> 'x"
  GetOrderState :: "call \<Rightarrow> string \<Rightarrow> string \<Rightarrow> 'x \<Rightarrow> (goerror + OrderStatusResult) \<times> 'x"

text \<open>What the gateway relies on when it books an immediate fill: a fill returned for an
  order carries that order's id and side.\<close>

locale echoing_connector =
  fixes C :: "'x ExchangeConnector"
  assumes submit_echo_id:
    "SubmitOrder C c ord x = (Inr fill, x') \<Longrightarrow> f_OrderID fill = o_OrderID ord"
  and submit_echo_side:
    "SubmitOrder C c ord x = (Inr fill, x') \<Longrightarrow> f_Side fill = o_Side ord"

end
