(* ===== verification/Ports.thy ===== *)
theory Ports
  imports Exchange
begin

text \<open>
  \<open>internal/gateway/ports.go\<close>: the interfaces through which the gateway consumes intents and
  publishes fills, their contracts, and the in-memory implementations of the repository
  (\<open>internal/gateway/gateway_e2e_test.go\<close>).
\<close>

section \<open>The interfaces\<close>

record 'p FillPublisher =
  PublishFill :: "call \<Rightarrow> ExecutionFill \<Rightarrow> 'p \<Rightarrow> goerror option \<times> 'p"

text \<open>A message is opaque to the gateway (\<open>'k\<close>); it is handed back to \<open>Commit\<close>.\<close>

record ('k, 'm) IntentConsumer =
  FetchIntent :: "call \<Rightarrow> 'm \<Rightarrow> (goerror + Order \<times> 'k) \<times> 'm"
  Commit :: "call \<Rightarrow> 'k \<Rightarrow> 'm \<Rightarrow> goerror option \<times> 'm"

text \<open>The contract of a publisher: a nil error means the entry of the fill is on the broker's log.
  After an error it may or may not be there.\<close>

locale fill_publisher =
  fixes P :: "'p FillPublisher"
    and delivered :: "'p \<Rightarrow> 'd list"
    and entry :: "ExecutionFill \<Rightarrow> 'd"
  assumes publish_ok: "PublishFill P c fill p = (None, p') \<Longrightarrow> delivered p' = delivered p @ [entry fill]"
    and publish_err: "PublishFill P c fill p = (Some e, p') \<Longrightarrow>
      delivered p' = delivered p \<or> delivered p' = delivered p @ [entry fill]"

text \<open>The contract of a consumer: fetching commits nothing, a successful commit adds exactly
  the given message, a failed one at most that message.\<close>

locale intent_consumer =
  fixes M :: "('k, 'm) IntentConsumer"
    and committed :: "'m \<Rightarrow> 'k list"
  assumes fetch_committed: "committed (snd (FetchIntent M c m)) = committed m"
    and commit_ok: "Commit M c k m = (None, m') \<Longrightarrow> committed m' = committed m @ [k]"
    and commit_err: "Commit M c k m = (Some e, m') \<Longrightarrow>
      committed m' = committed m \<or> committed m' = committed m @ [k]"

section \<open>The in-memory implementations\<close>

record fakeConsumer =
  fc_intents :: "Order list"
  fc_idx :: nat
  fc_committed :: "int list"

text \<open>An exhausted consumer blocks until the context is done and returns its error. A message
  is its offset.\<close>

definition fake_FetchIntent :: "call \<Rightarrow> fakeConsumer \<Rightarrow> (goerror + Order \<times> int) \<times> fakeConsumer" where
  "fake_FetchIntent c f =
     (if length (fc_intents f) \<le> fc_idx f then (Inl (c_err c), f)
      else (Inr (fc_intents f ! fc_idx f, int (fc_idx f) + 1), f\<lparr> fc_idx := fc_idx f + 1 \<rparr>))"

definition fake_Commit :: "call \<Rightarrow> int \<Rightarrow> fakeConsumer \<Rightarrow> goerror option \<times> fakeConsumer" where
  "fake_Commit c msg f = (None, f\<lparr> fc_committed := fc_committed f @ [msg] \<rparr>)"

definition fake_consumer :: "(int, fakeConsumer) IntentConsumer" where
  "fake_consumer = \<lparr> FetchIntent = fake_FetchIntent, Commit = fake_Commit \<rparr>"

definition fake_PublishFill ::
    "call \<Rightarrow> ExecutionFill \<Rightarrow> ExecutionFill list \<Rightarrow> goerror option \<times> ExecutionFill list" where
  "fake_PublishFill c fill fills = (None, fills @ [fill])"

definition fake_publisher :: "ExecutionFill list FillPublisher" where
  "fake_publisher = \<lparr> PublishFill = fake_PublishFill \<rparr>"

interpretation fakepub: fill_publisher fake_publisher "\<lambda>fills. fills" "\<lambda>fill. fill"
  by unfold_locales (auto simp: fake_publisher_def fake_PublishFill_def)

interpretation fakecon: intent_consumer fake_consumer fc_committed
  by unfold_locales
     (auto simp: fake_consumer_def fake_FetchIntent_def fake_Commit_def split: if_splits)

end
