(* ===== verification/Store.thy ===== *)
theory Store
  imports Exchange
begin

text \<open>
  \<open>internal/gateway/store.go\<close>: the SQLite order store. The table \<open>orders\<close> is the list of
  its rows; each SQL statement of the source is a function on that list. A statement that
  fails (\<open>c_ok\<close> false) returns the wrapped error and leaves the table as it was. Instants
  are compared as instants.
\<close>

section \<open>Schema migrations\<close>

datatype migration_query = CreateOrders | AddColumn string

record Schema =
  sc_versions :: "int list option"
  sc_columns :: "string list option"

definition base_columns :: "string list" where
  "base_columns = [''order_id'', ''instrument'', ''side'', ''quantity'', ''price'', ''type'',
     ''state'', ''filled_qty'', ''created_at'', ''updated_at'']"

definition dbMigrations :: "(int \<times> migration_query) list" where
  "dbMigrations = [(1, CreateOrders), (2, AddColumn ''commission''), (3, AddColumn ''slippage'')]"

text \<open>\<open>CREATE TABLE IF NOT EXISTS\<close> and \<open>ALTER TABLE ... ADD COLUMN\<close>, which fails when the
  table is missing or the column is already there.\<close>

fun exec_query :: "migration_query \<Rightarrow> string list option \<Rightarrow> string list option option" where
  "exec_query CreateOrders None = Some (Some base_columns)"
| "exec_query CreateOrders (Some cols) = Some (Some cols)"
| "exec_query (AddColumn c) None = None"
| "exec_query (AddColumn c) (Some cols) =
     (if c \<in> set cols then None else Some (Some (cols @ [c])))"

text \<open>How far the five database calls of one migration get before one fails.\<close>

datatype mig_fault = MigOk | FailCheck | FailBegin | FailExec | FailRecord | FailCommit

fun run_migration ::
    "mig_fault \<Rightarrow> int \<times> migration_query \<Rightarrow> int list \<Rightarrow> string list option \<Rightarrow>
     goerror option \<times> int list \<times> string list option" where
  "run_migration flt (v, q) vs cols =
     (if flt = FailCheck then (Some ''failed to check migration version'', vs, cols)
      else if v \<in> set vs then (None, vs, cols)
      else if flt = FailBegin then (Some ''failed to start migration transaction'', vs, cols)
      else if flt = FailExec then (Some ''failed to execute migration'', vs, cols)
      else case exec_query q cols of
        None \<Rightarrow> (Some ''failed to execute migration'', vs, cols)
      | Some cols' \<Rightarrow>
          if flt = FailRecord then (Some ''failed to record migration'', vs, cols)
          else if flt = FailCommit then (Some ''failed to commit migration'', vs, cols)
          else (None, vs @ [v], cols'))"

fun run_migrations_loop ::
    "(nat \<Rightarrow> mig_fault) \<Rightarrow> nat \<Rightarrow> (int \<times> migration_query) list \<Rightarrow> int list \<Rightarrow> string list option \<Rightarrow>
     goerror option \<times> int list \<times> string list option" where
  "run_migrations_loop flts i [] vs cols = (None, vs, cols)"
| "run_migrations_loop flts i (m # ms) vs cols =
     (case run_migration (flts i) m vs cols of
        (Some e, vs', cols') \<Rightarrow> (Some e, vs', cols')
      | (None, vs', cols') \<Rightarrow> run_migrations_loop flts (Suc i) ms vs' cols')"

definition runMigrations ::
    "bool \<Rightarrow> (nat \<Rightarrow> mig_fault) \<Rightarrow> Schema \<Rightarrow> goerror option \<times> Schema" where
  "runMigrations create_ok flts sc =
     (if \<not> create_ok then (Some ''failed to create schema_migrations table'', sc)
      else
        let vs = (case sc_versions sc of None \<Rightarrow> [] | Some vs \<Rightarrow> vs) in
        case run_migrations_loop flts 0 dbMigrations vs (sc_columns sc) of
          (e, vs', cols') \<Rightarrow> (e, sc\<lparr> sc_versions := Some vs', sc_columns := cols' \<rparr>))"

text \<open>Opening the store: \<open>mkdir\<close> and \<open>opn\<close> are the errors of \<open>os.MkdirAll\<close> and \<open>sql.Open\<close>. The
  schema is the one of the file, also after an error.\<close>

definition NewSQLiteOrderStore ::
    "goerror option \<Rightarrow> goerror option \<Rightarrow> bool \<Rightarrow> (nat \<Rightarrow> mig_fault) \<Rightarrow> Schema \<Rightarrow> goerror option \<times> Schema" where
  "NewSQLiteOrderStore mkdir opn create_ok flts sc =
     (case mkdir of
        Some e \<Rightarrow> (Some (''failed to create database directory: '' @ e), sc)
      | None \<Rightarrow> (case opn of
          Some e \<Rightarrow> (Some (''failed to open sqlite database: '' @ e), sc)
        | None \<Rightarrow> runMigrations create_ok flts sc))"

section \<open>The table of orders\<close>

record OrderRow =
  row_order_id :: string
  row_instrument :: string
  row_side :: string
  row_quantity :: float64
  row_price :: float64
  row_type :: string
  row_state :: OrderState
  row_filled_qty :: float64
  row_created_at :: time
  row_updated_at :: time
  row_commission :: float64
  row_slippage :: float64

type_synonym table = "OrderRow list"

definition new_row :: "Order \<Rightarrow> OrderState \<Rightarrow> time \<Rightarrow> OrderRow" where
  "new_row order state now =
     \<lparr> row_order_id = o_OrderID order, row_instrument = o_Instrument order,
       row_side = o_Side order, row_quantity = o_Quantity order, row_price = o_Price order,
       row_type = o_Type order, row_state = state, row_filled_qty = Fin 0,
       row_created_at = now, row_updated_at = now, row_commission = Fin 0,
       row_slippage = Fin 0 \<rparr>"

lemma new_row_simps [simp]:
  "row_order_id (new_row ord st now) = o_OrderID ord" "row_state (new_row ord st now) = st"
  "row_created_at (new_row ord st now) = now" "row_updated_at (new_row ord st now) = now"
  "row_side (new_row ord st now) = o_Side ord" "row_filled_qty (new_row ord st now) = Fin 0"
  by (simp_all add: new_row_def)

text \<open>\<open>UPDATE orders SET ... WHERE order_id = ?\<close>.\<close>

definition sql_update :: "string \<Rightarrow> (OrderRow \<Rightarrow> OrderRow) \<Rightarrow> table \<Rightarrow> table" where
  "sql_update oid f rows = map (\<lambda>r. if row_order_id r = oid then f r else r) rows"

text \<open>\<open>INSERT ... ON CONFLICT(order_id) DO UPDATE SET state, updated_at\<close>.\<close>

definition sql_upsert :: "OrderRow \<Rightarrow> table \<Rightarrow> table" where
  "sql_upsert row rows =
     (if row_order_id row \<in> row_order_id ` set rows
      then sql_update (row_order_id row)
             (\<lambda>r. r\<lparr> row_state := row_state row, row_updated_at := row_updated_at row \<rparr>) rows
      else rows @ [row])"

definition SaveOrder :: "call \<Rightarrow> Order \<Rightarrow> OrderState \<Rightarrow> table \<Rightarrow> goerror option \<times> table" where
  "SaveOrder c order state rows =
     (if c_ok c then (None, sql_upsert (new_row order state (c_now c)) rows)
      else (Some (''failed to save order to sqlite: '' @ c_err c), rows))"

definition store_UpdateOrderState ::
    "call \<Rightarrow> string \<Rightarrow> OrderState \<Rightarrow> float64 \<Rightarrow> table \<Rightarrow> goerror option \<times> table" where
  "store_UpdateOrderState c oid state filledQty rows =
     (if c_ok c
      then (None, sql_update oid (\<lambda>r. r\<lparr> row_state := state, row_filled_qty := filledQty,
                                          row_updated_at := c_now c \<rparr>) rows)
      else (Some (''failed to update order state in sqlite: '' @ c_err c), rows))"

definition RecordFillCosts ::
    "call \<Rightarrow> string \<Rightarrow> float64 \<Rightarrow> float64 \<Rightarrow> table \<Rightarrow> goerror option \<times> table" where
  "RecordFillCosts c oid commission slippage rows =
     (if c_ok c
      then (None, sql_update oid (\<lambda>r. r\<lparr> row_commission := commission, row_slippage := slippage,
                                          row_updated_at := c_now c \<rparr>) rows)
      else (Some (''failed to record fill costs for order '' @ oid @ '': '' @ c_err c), rows))"

definition row_order :: "OrderRow \<Rightarrow> Order" where
  "row_order r = \<lparr> o_OrderID = row_order_id r, o_Instrument = row_instrument r,
     o_Side = row_side r, o_Quantity = row_quantity r, o_Price = row_price r,
     o_Type = row_type r \<rparr>"

text \<open>The scan loop of \<open>GetActiveOrders\<close> over the selected rows. An error that ends the
  iteration early (\<open>c_rows\<close>) goes unnoticed, because \<open>rows.Err()\<close> is not consulted.\<close>

type_synonym active_orders =
  "Order list \<times> (string \<times> OrderState) list \<times> (string \<times> float64) list"

fun scan_rows :: "OrderRow list \<Rightarrow> active_orders \<Rightarrow> active_orders" where
  "scan_rows [] acc = acc"
| "scan_rows (r # rs) (orders, states, qtys) =
     scan_rows rs (orders @ [row_order r],
                   AList.update (row_order_id r) (row_state r) states,
                   AList.update (row_order_id r) (row_filled_qty r) qtys)"

definition select_active :: "table \<Rightarrow> OrderRow list" where
  "select_active rows =
     filter (\<lambda>r. row_state r \<notin> {''FILLED'', ''CANCELED'', ''REJECTED'', ''EXPIRED''}) rows"

definition GetActiveOrders :: "call \<Rightarrow> table \<Rightarrow> goerror + active_orders" where
  "GetActiveOrders c rows =
     (if c_ok c
      then (case c_rows c of
              None \<Rightarrow> Inr (scan_rows (select_active rows) ([], [], []))
            | Some (RowsEnd n) \<Rightarrow> Inr (scan_rows (take n (select_active rows)) ([], [], []))
            | Some ScanFails \<Rightarrow> Inl (''failed to scan active order row: '' @ c_err c))
      else Inl (''failed to query active orders from sqlite: '' @ c_err c))"

text \<open>The daily counts; \<open>sod\<close> maps an instant to the midnight that starts its day in the
  local time zone.\<close>

definition GetDailyOrderCount :: "(time \<Rightarrow> time) \<Rightarrow> call \<Rightarrow> table \<Rightarrow> goerror + int" where
  "GetDailyOrderCount sod c rows =
     (if c_ok c then Inr (int (length (filter (\<lambda>r. sod (c_now c) \<le> row_created_at r) rows)))
      else Inl (''failed to count daily orders: '' @ c_err c))"

definition GetDailyOrderCountBySide ::
    "(time \<Rightarrow> time) \<Rightarrow> call \<Rightarrow> OrderSide \<Rightarrow> table \<Rightarrow> goerror + int" where
  "GetDailyOrderCountBySide sod c side rows =
     (if c_ok c
      then Inr (int (length (filter (\<lambda>r. row_side r = side \<and> sod (c_now c) \<le> row_created_at r) rows)))
      else Inl (''failed to count daily '' @ side @ '' orders: '' @ c_err c))"

section \<open>The OrderStore interface\<close>

record 's OrderStore =
  st_SaveOrder :: "call \<Rightarrow> Order \<Rightarrow> OrderState \<Rightarrow> 's \<Rightarrow> goerror option \<times> 's"
  st_UpdateOrderState :: "call \<Rightarrow> string \<Rightarrow> OrderState \<Rightarrow> float64 \<Rightarrow> 's \<Rightarrow> goerror option \<times> 's"
  st_RecordFillCosts :: "call \<Rightarrow> string \<Rightarrow> float64 \<Rightarrow> float64 \<Rightarrow> 's \<Rightarrow> goerror option \<times> 's"
  st_GetActiveOrders :: "call \<Rightarrow> 's \<Rightarrow> goerror + active_orders"
  st_GetDailyOrderCount :: "call \<Rightarrow> 's \<Rightarrow> goerror + int"
  st_GetDailyOrderCountBySide :: "call \<Rightarrow> OrderSide \<Rightarrow> 's \<Rightarrow> goerror + int"

definition sqlite_store :: "(time \<Rightarrow> time) \<Rightarrow> table OrderStore" where
  "sqlite_store sod =
     \<lparr> st_SaveOrder = SaveOrder, st_UpdateOrderState = store_UpdateOrderState,
       st_RecordFillCosts = RecordFillCosts, st_GetActiveOrders = GetActiveOrders,
       st_GetDailyOrderCount = GetDailyOrderCount sod,
       st_GetDailyOrderCountBySide = GetDailyOrderCountBySide sod \<rparr>"

text \<open>The contract of a store, in terms of the row it holds per order id. A call that fails
  reports an error and changes nothing; \<open>SaveOrder\<close> inserts, or updates only the state of a
  known order; the other updates touch existing rows only; a complete read of the active
  orders returns exactly the rows in a non-terminal state.\<close>

locale order_store =
  fixes S :: "'s OrderStore"
    and view :: "'s \<Rightarrow> string \<Rightarrow> OrderRow option"
    and invar :: "'s \<Rightarrow> bool"
  assumes save_fail: "\<not> c_ok c \<Longrightarrow> \<exists>e. st_SaveOrder S c ord st s = (Some e, s)"
    and save_ok: "c_ok c \<Longrightarrow> invar s \<Longrightarrow> \<exists>s'. st_SaveOrder S c ord st s = (None, s') \<and> invar s' \<and>
      view s' = (view s)(o_OrderID ord \<mapsto>
        (case view s (o_OrderID ord) of None \<Rightarrow> new_row ord st (c_now c)
         | Some r \<Rightarrow> r\<lparr> row_state := st, row_updated_at := c_now c \<rparr>))"
    and update_fail: "\<not> c_ok c \<Longrightarrow> \<exists>e. st_UpdateOrderState S c oid st q s = (Some e, s)"
    and update_ok: "c_ok c \<Longrightarrow> invar s \<Longrightarrow>
      \<exists>s'. st_UpdateOrderState S c oid st q s = (None, s') \<and> invar s' \<and>
      view s' = (view s)(oid := map_option (\<lambda>r. r\<lparr> row_state := st, row_filled_qty := q,
                                               row_updated_at := c_now c \<rparr>) (view s oid))"
    and costs_fail: "\<not> c_ok c \<Longrightarrow> \<exists>e. st_RecordFillCosts S c oid cm sl s = (Some e, s)"
    and costs_ok: "c_ok c \<Longrightarrow> invar s \<Longrightarrow>
      \<exists>s'. st_RecordFillCosts S c oid cm sl s = (None, s') \<and> invar s' \<and>
      view s' = (view s)(oid := map_option (\<lambda>r. r\<lparr> row_commission := cm, row_slippage := sl,
                                               row_updated_at := c_now c \<rparr>) (view s oid))"
    and active_fail: "\<not> c_ok c \<Longrightarrow> \<exists>e. st_GetActiveOrders S c s = Inl e"
    and active_ok: "c_ok c \<Longrightarrow> c_rows c = None \<Longrightarrow> invar s \<Longrightarrow>
      \<exists>os sts qs. st_GetActiveOrders S c s = Inr (os, sts, qs) \<and> distinct (map o_OrderID os) \<and>
        set os = {row_order r | r oid. view s oid = Some r \<and> \<not> is_terminal (row_state r)} \<and>
        (\<forall>oid. map_of sts oid = (case view s oid of None \<Rightarrow> None
            | Some r \<Rightarrow> if is_terminal (row_state r) then None else Some (row_state r))) \<and>
        (\<forall>oid. map_of qs oid = (case view s oid of None \<Rightarrow> None
            | Some r \<Rightarrow> if is_terminal (row_state r) then None else Some (row_filled_qty r)))"
    and view_id: "invar s \<Longrightarrow> view s oid = Some r \<Longrightarrow> row_order_id r = oid"

section \<open>The SQLite store meets the contract\<close>

definition rows_view :: "table \<Rightarrow> string \<Rightarrow> OrderRow option" where
  "rows_view rows oid = map_of (map (\<lambda>r. (row_order_id r, r)) rows) oid"

definition rows_inv :: "table \<Rightarrow> bool" where
  "rows_inv rows = distinct (map row_order_id rows)"

lemma rows_view_Nil [simp]: "rows_view [] = Map.empty"
  by (simp add: rows_view_def fun_eq_iff)

lemma rows_view_Cons: "rows_view (r # rs) = (rows_view rs)(row_order_id r \<mapsto> r)"
  by (simp add: rows_view_def fun_eq_iff)

lemma rows_view_None: "rows_view rows oid = None \<longleftrightarrow> oid \<notin> row_order_id ` set rows"
  by (induction rows) (auto simp: rows_view_Cons)

lemma rows_view_SomeD: "rows_view rows oid = Some r \<Longrightarrow> r \<in> set rows \<and> row_order_id r = oid"
  by (induction rows) (auto simp: rows_view_Cons split: if_splits)

lemma rows_view_in: "rows_inv rows \<Longrightarrow> r \<in> set rows \<Longrightarrow> rows_view rows (row_order_id r) = Some r"
proof (induction rows)
  case (Cons a rows)
  then show ?case
    by (cases "r = a") (auto simp: rows_view_Cons rows_inv_def, metis imageI)
qed simp

lemma rows_view_snoc:
  "row_order_id r \<notin> row_order_id ` set rows \<Longrightarrow>
     rows_view (rows @ [r]) = (rows_view rows)(row_order_id r \<mapsto> r)"
  by (induction rows) (auto simp: rows_view_Cons)

lemma rows_inv_sql_update:
  assumes "\<And>r. row_order_id (f r) = row_order_id r"
  shows "rows_inv (sql_update oid f rows) = rows_inv rows"
proof -
  have "map row_order_id (sql_update oid f rows) = map row_order_id rows"
    using assms by (simp add: sql_update_def)
  then show ?thesis by (simp add: rows_inv_def)
qed

lemma rows_view_sql_update:
  assumes "\<And>r. row_order_id (f r) = row_order_id r"
  shows "rows_view (sql_update oid f rows) = (rows_view rows)(oid := map_option f (rows_view rows oid))"
proof (induction rows)
  case (Cons r rs)
  then show ?case
    using assms by (cases "row_order_id r = oid") (auto simp: sql_update_def rows_view_Cons)
qed (simp add: sql_update_def fun_eq_iff)

lemma rows_view_sql_upsert:
  "rows_view (sql_upsert row rows) = (rows_view rows)(row_order_id row \<mapsto>
     (case rows_view rows (row_order_id row) of None \<Rightarrow> row
      | Some r \<Rightarrow> r\<lparr> row_state := row_state row, row_updated_at := row_updated_at row \<rparr>))"
proof (cases "row_order_id row \<in> row_order_id ` set rows")
  case True
  then obtain r where "rows_view rows (row_order_id row) = Some r"
    using rows_view_None by (metis not_None_eq)
  then show ?thesis using True by (simp add: sql_upsert_def rows_view_sql_update)
next
  case False
  then have "rows_view rows (row_order_id row) = None" by (simp add: rows_view_None)
  then show ?thesis using False by (simp add: sql_upsert_def rows_view_snoc)
qed

lemma rows_inv_sql_upsert: "rows_inv rows \<Longrightarrow> rows_inv (sql_upsert row rows)"
  by (auto simp: sql_upsert_def rows_inv_sql_update) (auto simp: rows_inv_def)

lemma select_active_eq: "select_active rows = filter (\<lambda>r. \<not> is_terminal (row_state r)) rows"
  by (simp add: select_active_def is_terminal_def)

lemma rows_inv_filter: "rows_inv rows \<Longrightarrow> rows_inv (filter P rows)"
  by (induction rows) (auto simp: rows_inv_def)

lemma rows_view_filter:
  "rows_inv rows \<Longrightarrow> rows_view (filter P rows) oid =
     (case rows_view rows oid of None \<Rightarrow> None | Some r \<Rightarrow> if P r then Some r else None)"
proof (induction rows)
  case (Cons r rows)
  have inv: "rows_inv rows" and notin: "row_order_id r \<notin> row_order_id ` set rows"
    using Cons.prems by (auto simp: rows_inv_def)
  have "rows_view rows (row_order_id r) = None" using notin by (simp add: rows_view_None)
  with Cons.IH [OF inv] show ?case by (auto simp: rows_view_Cons)
qed simp

lemma scan_rows_orders: "fst (scan_rows rs acc) = fst acc @ map row_order rs"
  by (induction rs acc rule: scan_rows.induct) auto

lemma scan_rows_maps:
  assumes "rows_inv rs"
  shows "map_of (fst (snd (scan_rows rs (os, sts, qs)))) oid =
           (case rows_view rs oid of None \<Rightarrow> map_of sts oid | Some r \<Rightarrow> Some (row_state r)) \<and>
         map_of (snd (snd (scan_rows rs (os, sts, qs)))) oid =
           (case rows_view rs oid of None \<Rightarrow> map_of qs oid | Some r \<Rightarrow> Some (row_filled_qty r))"
  using assms
proof (induction rs arbitrary: os sts qs)
  case (Cons r rs)
  have inv: "rows_inv rs" and notin: "row_order_id r \<notin> row_order_id ` set rs"
    using Cons.prems by (auto simp: rows_inv_def)
  have "rows_view rs (row_order_id r) = None" using notin by (simp add: rows_view_None)
  then show ?case
    using Cons.IH [OF inv] by (auto simp: rows_view_Cons map_of_update_other split: option.splits)
qed simp

lemma map_row_order_ids: "map o_OrderID (map row_order rs) = map row_order_id rs"
  by (simp add: row_order_def)

lemma set_select_active:
  assumes "rows_inv rows"
  shows "row_order ` set (select_active rows) =
    {row_order r | r oid. rows_view rows oid = Some r \<and> \<not> is_terminal (row_state r)}"
  using rows_view_in [OF assms] rows_view_SomeD [of rows] by (auto simp: select_active_eq)

lemma GetActiveOrders_complete:
  assumes "c_ok c" "c_rows c = None" "rows_inv rows"
  shows "\<exists>os sts qs. GetActiveOrders c rows = Inr (os, sts, qs) \<and> distinct (map o_OrderID os) \<and>
        set os = {row_order r | r oid. rows_view rows oid = Some r \<and> \<not> is_terminal (row_state r)} \<and>
        (\<forall>oid. map_of sts oid = (case rows_view rows oid of None \<Rightarrow> None
            | Some r \<Rightarrow> if is_terminal (row_state r) then None else Some (row_state r))) \<and>
        (\<forall>oid. map_of qs oid = (case rows_view rows oid of None \<Rightarrow> None
            | Some r \<Rightarrow> if is_terminal (row_state r) then None else Some (row_filled_qty r)))"
proof -
  let ?sel = "select_active rows"
  obtain os sts qs where res: "scan_rows ?sel ([], [], []) = (os, sts, qs)"
    using prod_cases3 by blast
  have inv: "rows_inv ?sel" using assms(3) by (simp add: select_active_eq rows_inv_filter)
  have os: "os = map row_order ?sel" using scan_rows_orders [of ?sel "([], [], [])"] res by simp
  have maps: "map_of sts oid = map_option row_state (rows_view ?sel oid) \<and>
     map_of qs oid = map_option row_filled_qty (rows_view ?sel oid)" for oid
    using scan_rows_maps [OF inv, of "[]" "[]" "[]" oid] res by (auto split: option.splits)
  have view: "rows_view ?sel oid = (case rows_view rows oid of None \<Rightarrow> None
      | Some r \<Rightarrow> if is_terminal (row_state r) then None else Some r)" for oid
    using rows_view_filter [OF assms(3)] by (auto simp: select_active_eq split: option.splits)
  have "GetActiveOrders c rows = Inr (os, sts, qs)"
    using assms res by (simp add: GetActiveOrders_def)
  moreover have "distinct (map o_OrderID os)"
    using inv by (simp only: os map_row_order_ids rows_inv_def)
  moreover have "set os = {row_order r | r oid. rows_view rows oid = Some r \<and> \<not> is_terminal (row_state r)}"
    using set_select_active [OF assms(3)] by (simp add: os)
  moreover have "map_of sts oid = (case rows_view rows oid of None \<Rightarrow> None
            | Some r \<Rightarrow> if is_terminal (row_state r) then None else Some (row_state r))" for oid
    using maps [of oid] view [of oid] by (auto split: option.splits)
  moreover have "map_of qs oid = (case rows_view rows oid of None \<Rightarrow> None
            | Some r \<Rightarrow> if is_terminal (row_state r) then None else Some (row_filled_qty r))" for oid
    using maps [of oid] view [of oid] by (auto split: option.splits)
  ultimately show ?thesis by blast
qed

interpretation sqlite: order_store "sqlite_store sod" rows_view rows_inv for sod
proof (unfold_locales, goal_cases)
  case (2 c s ord st)
  then show ?case
    by (auto simp: sqlite_store_def SaveOrder_def rows_inv_sql_upsert rows_view_sql_upsert
        split: option.split)
next
  case (8 c s)
  then show ?case
    using GetActiveOrders_complete [of c s] by (simp add: sqlite_store_def)
next
  case (9 s oid r)
  then show ?case by (auto dest: rows_view_SomeD)
qed (simp_all add: sqlite_store_def SaveOrder_def store_UpdateOrderState_def RecordFillCosts_def
       GetActiveOrders_def rows_view_sql_update rows_inv_sql_update)

section \<open>Migrations are atomic\<close>

text \<open>The schemas that applying the first \<open>n\<close> migrations gives.\<close>

definition empty_schema :: Schema where
  "empty_schema = \<lparr> sc_versions = None, sc_columns = None \<rparr>"

definition full_schema :: Schema where
  "full_schema = \<lparr> sc_versions = Some [1, 2, 3],
     sc_columns = Some (base_columns @ [''commission'', ''slippage'']) \<rparr>"

fun schema_stage :: "nat \<Rightarrow> int list \<times> string list option" where
  "schema_stage 0 = ([], None)"
| "schema_stage (Suc 0) = ([1], Some base_columns)"
| "schema_stage (Suc (Suc 0)) = ([1, 2], Some (base_columns @ [''commission'']))"
| "schema_stage _ = ([1, 2, 3], Some (base_columns @ [''commission'', ''slippage'']))"

definition schema_inv :: "Schema \<Rightarrow> bool" where
  "schema_inv sc =
     list_ex (\<lambda>n. (case sc_versions sc of None \<Rightarrow> [] | Some vs \<Rightarrow> vs, sc_columns sc) = schema_stage n)
       [0, 1, 2, 3]"

lemma columns_fresh: "''commission'' \<notin> set base_columns" "''slippage'' \<notin> set base_columns"
  by (simp_all add: base_columns_def)

lemma run_migration_known:
  "v \<in> set vs \<Longrightarrow> run_migration flt (v, q) vs cols =
     (if flt = FailCheck then Some ''failed to check migration version'' else None, vs, cols)"
  by simp

lemma run_migration_new:
  "v \<notin> set vs \<Longrightarrow> exec_query q cols = Some cols' \<Longrightarrow>
     run_migration flt (v, q) vs cols = (None, vs @ [v], cols') \<and> flt = MigOk \<or>
     (\<exists>e. run_migration flt (v, q) vs cols = (Some e, vs, cols)) \<and> flt \<noteq> MigOk"
  by (cases flt) auto

lemmas migration_cases = less_Suc_eq numeral_eq_Suc le_Suc_eq

text \<open>Migration \<open>k\<close> moves a schema on which the first \<open>k\<close> are applied one stage further,
  leaves a later stage alone, and on any failure leaves the stage as it was.\<close>

lemma schema_stage_step:
  assumes "k < 3" "k \<le> n" "n \<le> 3"
  obtains e n' where "run_migration flt (dbMigrations ! k) (fst (schema_stage n)) (snd (schema_stage n))
      = (e, schema_stage n')" "n \<le> n'" "n' \<le> 3" "e = None \<Longrightarrow> k < n'" "flt = MigOk \<Longrightarrow> e = None"
proof (cases "k = n")
  case False
  then have "fst (dbMigrations ! k) \<in> set (fst (schema_stage n))"
    using assms by (auto simp: dbMigrations_def migration_cases)
  then have "run_migration flt (dbMigrations ! k) (fst (schema_stage n)) (snd (schema_stage n))
      = (if flt = FailCheck then Some ''failed to check migration version'' else None, schema_stage n)"
    using run_migration_known by (metis prod.collapse)
  with False assms show ?thesis
    by (intro that [of "if flt = FailCheck then Some ''failed to check migration version'' else None" n])
       auto
next
  case True
  have "fst (dbMigrations ! k) \<notin> set (fst (schema_stage k))"
    and "exec_query (snd (dbMigrations ! k)) (snd (schema_stage k)) = Some (snd (schema_stage (Suc k)))"
    and "fst (schema_stage k) @ [fst (dbMigrations ! k)] = fst (schema_stage (Suc k))"
    using assms columns_fresh by (auto simp: dbMigrations_def migration_cases)
  with run_migration_new [of "fst (dbMigrations ! k)" "fst (schema_stage k)"
      "snd (dbMigrations ! k)" "snd (schema_stage k)" "snd (schema_stage (Suc k))" flt]
  have "run_migration flt (dbMigrations ! k) (fst (schema_stage k)) (snd (schema_stage k))
          = (None, schema_stage (Suc k)) \<and> flt = MigOk \<or>
        (\<exists>e. run_migration flt (dbMigrations ! k) (fst (schema_stage k)) (snd (schema_stage k))
          = (Some e, schema_stage k)) \<and> flt \<noteq> MigOk" by simp
  then show ?thesis using True assms that [of None "Suc k"] that [of "Some e" k for e] by force
qed

lemma run_migrations_loop_stage:
  assumes "k \<le> 3" "k \<le> n" "n \<le> 3"
  shows "\<exists>e n'. run_migrations_loop flts i (drop k dbMigrations) (fst (schema_stage n)) (snd (schema_stage n))
     = (e, schema_stage n') \<and> n' \<le> 3 \<and> ((\<forall>j. flts j = MigOk) \<longrightarrow> e = None) \<and> (e = None \<longrightarrow> n' = 3)"
  using assms
proof (induction "3 - k" arbitrary: k n i)
  case 0
  then have "k = 3" "n = 3" by auto
  then show ?case by (auto simp: dbMigrations_def)
next
  case (Suc d)
  then have k: "k < 3" by simp
  then have drop: "drop k dbMigrations = dbMigrations ! k # drop (Suc k) dbMigrations"
    by (intro Cons_nth_drop_Suc [symmetric]) (simp add: dbMigrations_def)
  obtain e n' where step:
    "run_migration (flts i) (dbMigrations ! k) (fst (schema_stage n)) (snd (schema_stage n)) = (e, schema_stage n')"
    and n': "n \<le> n'" "n' \<le> 3" "e = None \<Longrightarrow> k < n'" "flts i = MigOk \<Longrightarrow> e = None"
    using schema_stage_step [OF k Suc.prems(2,3)] by metis
  show ?case
  proof (cases e)
    case None
    have "\<exists>e n''. run_migrations_loop flts (Suc i) (drop (Suc k) dbMigrations)
        (fst (schema_stage n')) (snd (schema_stage n')) = (e, schema_stage n'') \<and> n'' \<le> 3 \<and>
        ((\<forall>j. flts j = MigOk) \<longrightarrow> e = None) \<and> (e = None \<longrightarrow> n'' = 3)"
      using Suc.hyps n' None k by (intro Suc.hyps(1)) auto
    with step None show ?thesis by (simp add: drop split: prod.splits) (metis fst_conv snd_conv)
  next
    case (Some err)
    with step n' show ?thesis by (auto simp: drop split: prod.splits)
  qed
qed

lemma schema_inv_cases:
  "schema_inv sc \<longleftrightarrow> (\<exists>n\<le>3. (case sc_versions sc of None \<Rightarrow> [] | Some vs \<Rightarrow> vs, sc_columns sc) = schema_stage n)"
proof -
  have "set [0, 1, 2, 3] = {n. n \<le> (3::nat)}" by auto
  then show ?thesis unfolding schema_inv_def list_ex_iff by (metis mem_Collect_eq)
qed

lemma runMigrations_stage:
  assumes "schema_inv sc"
  obtains e n where "runMigrations True flts sc = (e, sc\<lparr> sc_versions := Some (fst (schema_stage n)),
      sc_columns := snd (schema_stage n) \<rparr>)" "n \<le> 3" "(\<forall>j. flts j = MigOk) \<Longrightarrow> e = None" "e = None \<Longrightarrow> n = 3"
proof -
  from assms obtain n where n: "n \<le> 3"
    "(case sc_versions sc of None \<Rightarrow> [] | Some vs \<Rightarrow> vs) = fst (schema_stage n)"
    "sc_columns sc = snd (schema_stage n)"
    unfolding schema_inv_cases by (metis fst_conv snd_conv)
  obtain e n' where loop: "run_migrations_loop flts 0 dbMigrations (fst (schema_stage n)) (snd (schema_stage n))
      = (e, schema_stage n')" and n': "n' \<le> 3" "(\<forall>j. flts j = MigOk) \<longrightarrow> e = None" "e = None \<longrightarrow> n' = 3"
    using run_migrations_loop_stage [of 0 n flts 0] n(1) by auto
  show ?thesis
    by (rule that [of e n']) (use n n' loop in \<open>simp_all add: runMigrations_def case_prod_beta\<close>)
qed

lemma runMigrations_inv: "schema_inv sc \<Longrightarrow> schema_inv (snd (runMigrations ok flts sc))"
proof (cases ok)
  case True
  assume "schema_inv sc"
  then obtain e n where "runMigrations True flts sc = (e, sc\<lparr> sc_versions := Some (fst (schema_stage n)),
      sc_columns := snd (schema_stage n) \<rparr>)" "n \<le> 3" by (rule runMigrations_stage)
  then show ?thesis using True by (auto simp: schema_inv_cases intro!: exI [of _ n])
qed (simp add: runMigrations_def)

lemma runMigrations_ok:
  assumes "schema_inv sc" "runMigrations ok flts sc = (None, sc')"
  shows "sc' = full_schema"
proof -
  have "ok" using assms(2) by (cases ok) (simp_all add: runMigrations_def)
  moreover obtain e n where "runMigrations True flts sc = (e, sc\<lparr> sc_versions := Some (fst (schema_stage n)),
      sc_columns := snd (schema_stage n) \<rparr>)" "e = None \<Longrightarrow> n = 3"
    using runMigrations_stage [OF assms(1), of flts] by metis
  ultimately show ?thesis using assms(2) by (auto simp: full_schema_def numeral_eq_Suc)
qed

lemma runMigrations_complete:
  assumes "schema_inv sc"
  shows "runMigrations True (\<lambda>_. MigOk) sc = (None, full_schema)"
proof -
  obtain sc' where "runMigrations True (\<lambda>_. MigOk) sc = (None, sc')"
    using runMigrations_stage [OF assms, of "\<lambda>_. MigOk"] by metis
  with runMigrations_ok [OF assms this] show ?thesis by simp
qed

lemma NewSQLiteOrderStore_ok:
  "schema_inv sc \<Longrightarrow> NewSQLiteOrderStore mkdir opn ok flts sc = (None, sc') \<Longrightarrow> sc' = full_schema"
  by (auto simp: NewSQLiteOrderStore_def intro: runMigrations_ok split: option.splits)

section \<open>Properties\<close>

text \<open>C25. Migrations are crash-safe: after any number of boots, each of which may fail at any
  statement of any migration, one boot without faults brings the schema to its final version with
  every column present once.\<close>

theorem migrations_crash_safe:
  "runMigrations True (\<lambda>_. MigOk)
     (foldl (\<lambda>sc (create_ok, flts). snd (runMigrations create_ok flts sc)) empty_schema boots) = (None, full_schema)"
proof -
  have "schema_inv (foldl (\<lambda>sc (create_ok, flts). snd (runMigrations create_ok flts sc)) sc boots)"
    if "schema_inv sc" for sc
    using that by (induction boots arbitrary: sc) (auto intro: runMigrations_inv split: prod.splits)
  moreover have "schema_inv empty_schema"
    unfolding schema_inv_cases by (intro exI [of _ 0]) (simp add: empty_schema_def)
  ultimately show ?thesis by (intro runMigrations_complete)
qed

text \<open>C26. Insert/lookup: an order saved under a new id in a non-terminal state is returned by the
  next complete read of the active orders, with its fields, its state and a filled quantity of 0;
  the orders read before are still returned.\<close>

theorem save_then_active:
  assumes "rows_inv rows" "o_OrderID ord \<notin> row_order_id ` set rows" "\<not> is_terminal st"
    and "c_ok c" "c_ok c'" "c_rows c' = None"
  shows "\<exists>os sts qs. GetActiveOrders c' (snd (SaveOrder c ord st rows)) = Inr (os, sts, qs) \<and>
    set os = insert ord {row_order r | r. r \<in> set rows \<and> \<not> is_terminal (row_state r)} \<and>
    map_of sts (o_OrderID ord) = Some st \<and> map_of qs (o_OrderID ord) = Some (Fin 0)"
proof -
  let ?rows = "snd (SaveOrder c ord st rows)"
  have eq: "?rows = rows @ [new_row ord st (c_now c)]"
    using assms(2,4) by (simp add: SaveOrder_def sql_upsert_def)
  have inv: "rows_inv ?rows" using assms(1,2) unfolding eq by (auto simp: rows_inv_def)
  obtain os sts qs where g: "GetActiveOrders c' ?rows = Inr (os, sts, qs)"
    "set os = {row_order r | r oid. rows_view ?rows oid = Some r \<and> \<not> is_terminal (row_state r)}"
    "\<forall>oid. map_of sts oid = (case rows_view ?rows oid of None \<Rightarrow> None
            | Some r \<Rightarrow> if is_terminal (row_state r) then None else Some (row_state r))"
    "\<forall>oid. map_of qs oid = (case rows_view ?rows oid of None \<Rightarrow> None
            | Some r \<Rightarrow> if is_terminal (row_state r) then None else Some (row_filled_qty r))"
    using sqlite.active_ok [OF assms(5,6) inv] by (auto simp: sqlite_store_def)
  have v: "rows_view ?rows (o_OrderID ord) = Some (new_row ord st (c_now c))"
    using rows_view_in [OF inv, of "new_row ord st (c_now c)"] by (simp add: eq)
  have "(\<exists>oid. rows_view ?rows oid = Some r) \<longleftrightarrow> r \<in> set ?rows" for r
    using rows_view_in [OF inv] rows_view_SomeD by metis
  then have "set os = {row_order r | r. r \<in> set ?rows \<and> \<not> is_terminal (row_state r)}" using g(2) by blast
  moreover have "row_order (new_row ord st (c_now c)) = ord" by (simp add: row_order_def new_row_def)
  moreover have "\<not> is_terminal (row_state (new_row ord st (c_now c)))" using assms(3) by simp
  ultimately have "set os = insert ord {row_order r | r. r \<in> set rows \<and> \<not> is_terminal (row_state r)}"
  proof -
    assume os: "set os = {row_order r | r. r \<in> set ?rows \<and> \<not> is_terminal (row_state r)}"
      and new: "row_order (new_row ord st (c_now c)) = ord" "\<not> is_terminal (row_state (new_row ord st (c_now c)))"
    have "{row_order r | r. r \<in> set ?rows \<and> \<not> is_terminal (row_state r)} =
        insert (row_order (new_row ord st (c_now c))) {row_order r | r. r \<in> set rows \<and> \<not> is_terminal (row_state r)}"
      unfolding eq using new(2) by auto
    with os new(1) show ?thesis by simp
  qed
  with g(1,3,4) v assms(3) show ?thesis by auto
qed

theorem save_then_active_witness:
  "\<exists>os sts qs. GetActiveOrders \<lparr> c_now = 2, c_done = False, c_ok = True, c_err = '''', c_rows = None, c_send = (\<lambda>_. Sent) \<rparr>
     (snd (SaveOrder \<lparr> c_now = 1, c_done = False, c_ok = True, c_err = '''', c_rows = None, c_send = (\<lambda>_. Sent) \<rparr>
        \<lparr> o_OrderID = ''o1'', o_Instrument = ''BTC-USD'', o_Side = SideBuy, o_Quantity = Fin 8, o_Price = Fin 100,
          o_Type = TypeLimit \<rparr> StatePending [])) = Inr (os, sts, qs) \<and> map_of sts ''o1'' = Some StatePending"
  using save_then_active [of "[]" "\<lparr> o_OrderID = ''o1'', o_Instrument = ''BTC-USD'', o_Side = SideBuy,
      o_Quantity = Fin 8, o_Price = Fin 100, o_Type = TypeLimit \<rparr>" StatePending
      "\<lparr> c_now = 1, c_done = False, c_ok = True, c_err = '''', c_rows = None, c_send = (\<lambda>_. Sent) \<rparr>"
      "\<lparr> c_now = 2, c_done = False, c_ok = True, c_err = '''', c_rows = None, c_send = (\<lambda>_. Sent) \<rparr>"]
  by (auto simp: rows_inv_def)

lemma length_filter_sql_update:
  assumes "\<And>r. P (f r) = P r"
  shows "length (filter P (sql_update oid f rows)) = length (filter P rows)"
  unfolding sql_update_def by (induction rows) (simp_all add: assms)

text \<open>What the daily counters count: saving an order under a new id adds one to the day's count
  and to the count of its side, whatever state it is saved in (a rejected order counts); saving
  under a known id changes no count.\<close>

theorem daily_count_after_save:
  assumes "c_ok c" "c_ok c'" "sod (c_now c') \<le> c_now c"
  shows "GetDailyOrderCount sod c' (snd (SaveOrder c ord st rows)) =
      Inr (int (length (filter (\<lambda>r. sod (c_now c') \<le> row_created_at r) rows))
           + (if o_OrderID ord \<in> row_order_id ` set rows then 0 else 1)) \<and>
    GetDailyOrderCountBySide sod c' side (snd (SaveOrder c ord st rows)) =
      Inr (int (length (filter (\<lambda>r. row_side r = side \<and> sod (c_now c') \<le> row_created_at r) rows))
           + (if o_OrderID ord \<in> row_order_id ` set rows \<or> o_Side ord \<noteq> side then 0 else 1))"
proof (cases "o_OrderID ord \<in> row_order_id ` set rows")
  case True
  then have "snd (SaveOrder c ord st rows) = sql_update (o_OrderID ord) (\<lambda>r. r\<lparr> row_state := st, row_updated_at := c_now c \<rparr>) rows"
    using assms(1) by (simp add: SaveOrder_def sql_upsert_def)
  with True assms(2) show ?thesis
    by (simp add: GetDailyOrderCount_def GetDailyOrderCountBySide_def length_filter_sql_update)
next
  case False
  then show ?thesis
    using assms by (simp add: GetDailyOrderCount_def GetDailyOrderCountBySide_def SaveOrder_def sql_upsert_def)
qed

theorem daily_count_after_save_witness:
  "GetDailyOrderCount (\<lambda>_. 0) \<lparr> c_now = 2, c_done = False, c_ok = True, c_err = '''', c_rows = None, c_send = (\<lambda>_. Sent) \<rparr>
     (snd (SaveOrder \<lparr> c_now = 1, c_done = False, c_ok = True, c_err = '''', c_rows = None, c_send = (\<lambda>_. Sent) \<rparr>
        \<lparr> o_OrderID = ''o1'', o_Instrument = ''BTC-USD'', o_Side = SideBuy, o_Quantity = Fin 8, o_Price = Fin 100,
          o_Type = TypeLimit \<rparr> StateRejected [])) = Inr 1"
  using daily_count_after_save [of "\<lparr> c_now = 1, c_done = False, c_ok = True, c_err = '''', c_rows = None, c_send = (\<lambda>_. Sent) \<rparr>"
      "\<lparr> c_now = 2, c_done = False, c_ok = True, c_err = '''', c_rows = None, c_send = (\<lambda>_. Sent) \<rparr>" "\<lambda>_. 0"
      "\<lparr> o_OrderID = ''o1'', o_Instrument = ''BTC-USD'', o_Side = SideBuy, o_Quantity = Fin 8, o_Price = Fin 100,
          o_Type = TypeLimit \<rparr>" StateRejected "[]" SideBuy]
  by simp

end
