(* ===== verification/Tracker.thy ===== *)
theory Tracker
  imports Store
begin

text \<open>
  \<open>internal/gateway/tracker.go\<close>, the order tracker: two in-memory maps and an optional
  persistent store behind the \<open>OrderStore\<close> interface. Every operation takes the store's
  operations \<open>S\<close> and the environment of each store call it makes.
\<close>

section \<open>State and operations\<close>

record 's OrderTracker =
  tr_orders :: "(string \<times> Order) list"
  tr_states :: "(string \<times> OrderState) list"
  tr_store :: "'s option"

definition NewOrderTracker :: "'s OrderTracker" where
  "NewOrderTracker = \<lparr> tr_orders = [], tr_states = [], tr_store = None \<rparr>"

text \<open>The preload loop of \<open>WithStore\<close>; a missing state is Go's zero value, the empty string.\<close>

fun preload ::
    "(string \<times> OrderState) list \<Rightarrow> Order list \<Rightarrow> 's OrderTracker \<Rightarrow> 's OrderTracker" where
  "preload states [] t = t"
| "preload states (ord # os) t =
     preload states os
       (t\<lparr> tr_orders := AList.update (o_OrderID ord) ord (tr_orders t),
           tr_states := AList.update (o_OrderID ord)
             (case map_of states (o_OrderID ord) of None \<Rightarrow> '''' | Some st \<Rightarrow> st) (tr_states t) \<rparr>)"

definition WithStore :: "'s OrderStore \<Rightarrow> call \<Rightarrow> 's \<Rightarrow> 's OrderTracker \<Rightarrow> 's OrderTracker" where
  "WithStore S c s t =
     (let t' = t\<lparr> tr_store := Some s \<rparr> in
      case st_GetActiveOrders S c s of
        Inl e \<Rightarrow> t'
      | Inr (orders, states, _) \<Rightarrow> preload states orders t')"

definition AddOrder ::
    "'s OrderStore \<Rightarrow> call \<Rightarrow> Order \<Rightarrow> OrderState \<Rightarrow> 's OrderTracker \<Rightarrow> 's OrderTracker" where
  "AddOrder S c order state t =
     t\<lparr> tr_orders := AList.update (o_OrderID order) order (tr_orders t),
        tr_states := AList.update (o_OrderID order) state (tr_states t),
        tr_store := map_option (\<lambda>s. snd (st_SaveOrder S c order state s)) (tr_store t) \<rparr>"

definition lookupFilledQtyLocked ::
    "'s OrderStore \<Rightarrow> call \<Rightarrow> string \<Rightarrow> 's OrderTracker \<Rightarrow> float64 option" where
  "lookupFilledQtyLocked S c oid t =
     (case tr_store t of
        None \<Rightarrow> None
      | Some s \<Rightarrow> (case st_GetActiveOrders S c s of
                     Inl e \<Rightarrow> None
                   | Inr (_, _, qmap) \<Rightarrow> map_of qmap oid))"

text \<open>The quantity \<open>UpdateOrderState\<close> writes: the order's full quantity for FILLED,
  otherwise what the store has for a still active order, 0 if it has nothing.\<close>

definition filled_qty_for ::
    "'s OrderStore \<Rightarrow> call \<Rightarrow> string \<Rightarrow> OrderState \<Rightarrow> 's OrderTracker \<Rightarrow> float64" where
  "filled_qty_for S c oid state t =
     (if state = StateFilled
      then (case map_of (tr_orders t) oid of Some ord \<Rightarrow> o_Quantity ord | None \<Rightarrow> Fin 0)
      else (case lookupFilledQtyLocked S c oid t of Some q \<Rightarrow> q | None \<Rightarrow> Fin 0))"

definition UpdateOrderState ::
    "'s OrderStore \<Rightarrow> call \<Rightarrow> call \<Rightarrow> string \<Rightarrow> OrderState \<Rightarrow> 's OrderTracker \<Rightarrow>
     bool \<times> 's OrderTracker" where
  "UpdateOrderState S c1 c2 oid state t =
     (if map_of (tr_states t) oid \<noteq> Some state
      then let t' = t\<lparr> tr_states := AList.update oid state (tr_states t) \<rparr>;
               q = filled_qty_for S c1 oid state t
           in (True, t'\<lparr> tr_store :=
                map_option (\<lambda>s. snd (st_UpdateOrderState S c2 oid state q s)) (tr_store t) \<rparr>)
      else (False, t))"

definition UpdateOrderStateAndQty ::
    "'s OrderStore \<Rightarrow> call \<Rightarrow> string \<Rightarrow> OrderState \<Rightarrow> float64 \<Rightarrow> 's OrderTracker \<Rightarrow>
     bool \<times> 's OrderTracker" where
  "UpdateOrderStateAndQty S c oid state filledQty t =
     (map_of (tr_states t) oid \<noteq> Some state,
      t\<lparr> tr_states := AList.update oid state (tr_states t),
         tr_store :=
           map_option (\<lambda>s. snd (st_UpdateOrderState S c oid state filledQty s)) (tr_store t) \<rparr>)"

definition GetOrder :: "string \<Rightarrow> 's OrderTracker \<Rightarrow> Order option" where
  "GetOrder oid t = map_of (tr_orders t) oid"

definition tracker_GetOrderState :: "string \<Rightarrow> 's OrderTracker \<Rightarrow> OrderState option" where
  "tracker_GetOrderState oid t = map_of (tr_states t) oid"

text \<open>The state of a tracked order as a Go map read gives it.\<close>

definition state_of :: "'s OrderTracker \<Rightarrow> string \<Rightarrow> OrderState" where
  "state_of t oid = (case map_of (tr_states t) oid of None \<Rightarrow> '''' | Some st \<Rightarrow> st)"

definition GetAllActiveOrders :: "'s OrderTracker \<Rightarrow> Order list" where
  "GetAllActiveOrders t =
     map snd (filter (\<lambda>(oid, ord).
        state_of t oid \<noteq> StateFilled \<and> state_of t oid \<noteq> StateCanceled \<and>
        state_of t oid \<noteq> StateRejected \<and> state_of t oid \<noteq> StateExpired) (tr_orders t))"

section \<open>Characteristic equations\<close>

lemma AddOrder_maps [tracker_simps]:
  "map_of (tr_orders (AddOrder S c ord st t)) = (map_of (tr_orders t))(o_OrderID ord \<mapsto> ord)"
  "map_of (tr_states (AddOrder S c ord st t)) = (map_of (tr_states t))(o_OrderID ord \<mapsto> st)"
  "tr_store (AddOrder S c ord st t) = map_option (\<lambda>s. snd (st_SaveOrder S c ord st s)) (tr_store t)"
  by (simp_all add: AddOrder_def update_conv')

lemma UpdateOrderState_maps [tracker_simps]:
  "tr_orders (snd (UpdateOrderState S c1 c2 oid st t)) = tr_orders t"
  "map_of (tr_states (snd (UpdateOrderState S c1 c2 oid st t))) = (map_of (tr_states t))(oid \<mapsto> st)"
  by (auto simp: UpdateOrderState_def Let_def update_conv' fun_upd_idem_iff)

lemma UpdateOrderStateAndQty_maps [tracker_simps]:
  "tr_orders (snd (UpdateOrderStateAndQty S c oid st q t)) = tr_orders t"
  "map_of (tr_states (snd (UpdateOrderStateAndQty S c oid st q t))) = (map_of (tr_states t))(oid \<mapsto> st)"
  "tr_store (snd (UpdateOrderStateAndQty S c oid st q t)) =
     map_option (\<lambda>s. snd (st_UpdateOrderState S c oid st q s)) (tr_store t)"
  by (simp_all add: UpdateOrderStateAndQty_def update_conv')

text \<open>Well-formedness: distinct keys, and an order is stored under its own id with a state.\<close>

definition tracker_wf :: "'s OrderTracker \<Rightarrow> bool" where
  "tracker_wf t =
     (distinct (map fst (tr_orders t)) \<and> distinct (map fst (tr_states t)) \<and>
      list_all (\<lambda>(oid, ord). o_OrderID ord = oid \<and> oid \<in> fst ` set (tr_states t)) (tr_orders t))"

lemma tracker_wf_New [simp]: "tracker_wf NewOrderTracker"
  by (simp add: tracker_wf_def NewOrderTracker_def)

lemma set_update_subset: "set (AList.update k v al) \<subseteq> insert (k, v) (set al)"
  by (induction al) auto

lemma keys_update: "fst ` set (AList.update k v al) = insert k (fst ` set al)"
  using dom_update [of k v al] by simp

lemma tracker_wf_AddOrder:
  assumes "tracker_wf t"
  shows "tracker_wf (AddOrder S c ord st t)"
proof -
  have "p \<in> set (AList.update (o_OrderID ord) ord (tr_orders t)) \<Longrightarrow>
      p = (o_OrderID ord, ord) \<or> p \<in> set (tr_orders t)" for p
    using set_update_subset [of "o_OrderID ord" ord "tr_orders t"] by blast
  with assms show ?thesis
    by (fastforce simp: tracker_wf_def AddOrder_def list_all_iff keys_update distinct_update)
qed

lemma tracker_wf_UpdateOrderState: "tracker_wf t \<Longrightarrow> tracker_wf (snd (UpdateOrderState S c1 c2 oid st t))"
  by (force simp: tracker_wf_def UpdateOrderState_def Let_def list_all_iff keys_update distinct_update)

lemma tracker_wf_UpdateOrderStateAndQty:
  "tracker_wf t \<Longrightarrow> tracker_wf (snd (UpdateOrderStateAndQty S c oid st q t))"
  by (force simp: tracker_wf_def UpdateOrderStateAndQty_def list_all_iff keys_update distinct_update)


lemma GetAllActiveOrders_iff:
  assumes "tracker_wf t"
  shows "ord \<in> set (GetAllActiveOrders t) \<longleftrightarrow>
    GetOrder (o_OrderID ord) t = Some ord \<and>
    (\<exists>st. tracker_GetOrderState (o_OrderID ord) t = Some st \<and> \<not> is_terminal st)"
proof -
  have mo: "GetOrder oid t = Some ord \<longleftrightarrow> (oid, ord) \<in> set (tr_orders t)" for oid
    using assms by (simp add: GetOrder_def tracker_wf_def)
  have own: "(oid, ord) \<in> set (tr_orders t) \<Longrightarrow> oid = o_OrderID ord \<and> (\<exists>st. map_of (tr_states t) oid = Some st)" for oid
    using assms map_of_eq_None_iff [of "tr_states t" oid]
    by (auto simp: tracker_wf_def list_all_iff simp del: map_of_eq_None_iff)
  have "ord \<in> set (GetAllActiveOrders t) \<longleftrightarrow>
      (\<exists>oid. (oid, ord) \<in> set (tr_orders t) \<and> \<not> is_terminal (state_of t oid))"
    by (auto simp: GetAllActiveOrders_def is_terminal_def image_iff)
  also have "\<dots> \<longleftrightarrow> (o_OrderID ord, ord) \<in> set (tr_orders t) \<and> \<not> is_terminal (state_of t (o_OrderID ord))"
    using own by blast
  also have "\<dots> \<longleftrightarrow> (o_OrderID ord, ord) \<in> set (tr_orders t) \<and>
      (\<exists>st. map_of (tr_states t) (o_OrderID ord) = Some st \<and> \<not> is_terminal st)"
    using own [of "o_OrderID ord"] by (auto simp: state_of_def)
  finally show ?thesis by (simp add: mo tracker_GetOrderState_def)
qed

section \<open>Tracker and store agree\<close>

text \<open>The tracker mirrors the store: every order it holds is the order of a row, with the
  row's state, and every row in a non-terminal state is held. Rows in a terminal state from
  before a restart need not be in memory.\<close>

definition coherent ::
    "('s \<Rightarrow> string \<Rightarrow> OrderRow option) \<Rightarrow> ('s \<Rightarrow> bool) \<Rightarrow> 's OrderTracker \<Rightarrow> bool" where
  "coherent view invar t \<longleftrightarrow> tracker_wf t \<and>
     (\<exists>s. tr_store t = Some s \<and> invar s \<and>
       (\<forall>oid ord. map_of (tr_orders t) oid = Some ord \<longrightarrow>
          (\<exists>r. view s oid = Some r \<and> row_order r = ord \<and> map_of (tr_states t) oid = Some (row_state r))) \<and>
       (\<forall>oid r. view s oid = Some r \<and> \<not> is_terminal (row_state r) \<longrightarrow> oid \<in> dom (map_of (tr_orders t))))"

text \<open>Runs of a tracker on a store whose statements succeed. New orders have an id no row has
  (or repeat the row's own order); updates concern a held order or an id without a row.\<close>

inductive tracker_reach ::
    "'s OrderStore \<Rightarrow> ('s \<Rightarrow> string \<Rightarrow> OrderRow option) \<Rightarrow> ('s \<Rightarrow> bool) \<Rightarrow> 's OrderTracker \<Rightarrow> bool"
  for S view invar where
  boot: "invar s \<Longrightarrow> c_ok c \<Longrightarrow> c_rows c = None \<Longrightarrow>
     tracker_reach S view invar (WithStore S c s NewOrderTracker)"
| add: "tracker_reach S view invar t \<Longrightarrow> c_ok c \<Longrightarrow>
     (\<And>s r. tr_store t = Some s \<Longrightarrow> view s (o_OrderID ord) = Some r \<Longrightarrow> row_order r = ord) \<Longrightarrow>
     tracker_reach S view invar (AddOrder S c ord st t)"
| upd: "tracker_reach S view invar t \<Longrightarrow> c_ok c2 \<Longrightarrow>
     (\<And>s. tr_store t = Some s \<Longrightarrow> oid \<in> dom (map_of (tr_orders t)) \<or> view s oid = None) \<Longrightarrow>
     tracker_reach S view invar (snd (UpdateOrderState S c1 c2 oid st t))"
| qty: "tracker_reach S view invar t \<Longrightarrow> c_ok c \<Longrightarrow>
     (\<And>s. tr_store t = Some s \<Longrightarrow> oid \<in> dom (map_of (tr_orders t)) \<or> view s oid = None) \<Longrightarrow>
     tracker_reach S view invar (snd (UpdateOrderStateAndQty S c oid st q t))"

lemma row_order_update [simp]:
  "row_order (r\<lparr> row_state := st \<rparr>) = row_order r"
  "row_order (r\<lparr> row_filled_qty := q \<rparr>) = row_order r"
  "row_order (r\<lparr> row_updated_at := now \<rparr>) = row_order r"
  by (simp_all add: row_order_def)

lemma row_order_new_row [simp]: "row_order (new_row ord st now) = ord"
  by (simp add: row_order_def new_row_def)

lemma preload_store [simp]: "tr_store (preload states os t) = tr_store t"
  by (induction states os t rule: preload.induct) auto

lemma preload_orders:
  "distinct (map o_OrderID os) \<Longrightarrow> map_of (tr_orders (preload states os t)) oid =
     (case find (\<lambda>ord. o_OrderID ord = oid) os of None \<Rightarrow> map_of (tr_orders t) oid | Some ord \<Rightarrow> Some ord)"
proof (induction states os t rule: preload.induct)
  case (2 states ord os t)
  then have "find (\<lambda>o'. o_OrderID o' = o_OrderID ord) os = None"
    unfolding find_None_iff by (metis distinct.simps(2) image_eqI list.simps(9) list.set_map)
  with 2 show ?case by (auto simp: update_conv' split: option.splits)
qed simp

lemma preload_states:
  "map_of (tr_states (preload states os t)) oid =
     (if oid \<in> o_OrderID ` set os
      then Some (case map_of states oid of None \<Rightarrow> '''' | Some st \<Rightarrow> st)
      else map_of (tr_states t) oid)"
  by (induction states os t rule: preload.induct) (auto simp: update_conv')

lemma tracker_wf_preload: "tracker_wf t \<Longrightarrow> tracker_wf (preload states os t)"
proof (induction states os t rule: preload.induct)
  case (2 states ord os t)
  let ?st = "case map_of states (o_OrderID ord) of None \<Rightarrow> '''' | Some st \<Rightarrow> st"
  have "tracker_wf (AddOrder S c ord ?st t)" for S c using 2 by (simp add: tracker_wf_AddOrder)
  then have "tracker_wf (t\<lparr> tr_orders := AList.update (o_OrderID ord) ord (tr_orders t),
      tr_states := AList.update (o_OrderID ord) ?st (tr_states t) \<rparr>)"
    by (simp add: tracker_wf_def AddOrder_def)
  with 2 show ?case by simp
qed simp

context order_store
begin

lemma boot_coherent:
  assumes "invar s" "c_ok c" "c_rows c = None"
  shows "coherent view invar (WithStore S c s NewOrderTracker)"
proof -
  obtain os sts qs where act: "st_GetActiveOrders S c s = Inr (os, sts, qs)"
    and dist: "distinct (map o_OrderID os)"
    and os: "set os = {row_order r | r oid. view s oid = Some r \<and> \<not> is_terminal (row_state r)}"
    and sts: "\<And>oid. map_of sts oid = (case view s oid of None \<Rightarrow> None
            | Some r \<Rightarrow> if is_terminal (row_state r) then None else Some (row_state r))"
    using active_ok [OF assms(2,3,1)] by blast
  let ?t = "preload sts os (NewOrderTracker\<lparr> tr_store := Some s \<rparr>)"
  have t: "WithStore S c s NewOrderTracker = ?t" by (simp add: WithStore_def act)
  have wf: "tracker_wf ?t"
    by (rule tracker_wf_preload) (simp add: tracker_wf_def NewOrderTracker_def)
  have held: "\<exists>r. view s oid = Some r \<and> row_order r = ord \<and> \<not> is_terminal (row_state r)"
    if "ord \<in> set os" "o_OrderID ord = oid" for ord oid
    using that os view_id [OF assms(1)] by (auto simp: row_order_def)
  have in_os: "row_order r \<in> set os \<and> o_OrderID (row_order r) = oid"
    if "view s oid = Some r" "\<not> is_terminal (row_state r)" for r oid
    using that os view_id [OF assms(1)] by (auto simp: row_order_def)
  have "\<exists>r. view s oid = Some r \<and> row_order r = ord \<and> map_of (tr_states ?t) oid = Some (row_state r)"
    if "map_of (tr_orders ?t) oid = Some ord" for oid ord
  proof -
    have "find (\<lambda>o'. o_OrderID o' = oid) os = Some ord"
      using that by (simp add: preload_orders [OF dist] NewOrderTracker_def split: option.splits)
    then have ord: "ord \<in> set os" "o_OrderID ord = oid" by (auto simp: find_Some_iff)
    with held [OF ord] show ?thesis by (auto simp: preload_states sts image_iff)
  qed
  moreover have "oid \<in> dom (map_of (tr_orders ?t))"
    if "view s oid = Some r" "\<not> is_terminal (row_state r)" for oid r
    using in_os [OF that] by (auto simp: preload_orders [OF dist] dom_def find_None_iff split: option.splits)
  moreover have "tr_store ?t = Some s" by simp
  ultimately show ?thesis
    unfolding t coherent_def using wf assms(1) by blast
qed

end

context order_store
begin

lemma add_coherent:
  assumes "coherent view invar t" "c_ok c"
    and same: "\<And>s r. tr_store t = Some s \<Longrightarrow> view s (o_OrderID ord) = Some r \<Longrightarrow> row_order r = ord"
  shows "coherent view invar (AddOrder S c ord st t)"
proof -
  from assms(1) obtain s where s: "tr_store t = Some s" "invar s" "tracker_wf t"
    and held: "\<And>oid o'. map_of (tr_orders t) oid = Some o' \<Longrightarrow>
      \<exists>r. view s oid = Some r \<and> row_order r = o' \<and> map_of (tr_states t) oid = Some (row_state r)"
    and act: "\<And>oid r. view s oid = Some r \<Longrightarrow> \<not> is_terminal (row_state r) \<Longrightarrow> oid \<in> dom (map_of (tr_orders t))"
    unfolding coherent_def by blast
  obtain s' where s': "st_SaveOrder S c ord st s = (None, s')" "invar s'"
    and view': "view s' = (view s)(o_OrderID ord \<mapsto>
        (case view s (o_OrderID ord) of None \<Rightarrow> new_row ord st (c_now c)
         | Some r \<Rightarrow> r\<lparr> row_state := st, row_updated_at := c_now c \<rparr>))"
    using save_ok [OF assms(2) s(2)] by blast
  let ?t = "AddOrder S c ord st t"
  have "tr_store ?t = Some s'" by (simp add: tracker_simps s s')
  moreover have "\<exists>r. view s' oid = Some r \<and> row_order r = o' \<and> map_of (tr_states ?t) oid = Some (row_state r)"
    if "map_of (tr_orders ?t) oid = Some o'" for oid o'
    using that held [of oid o'] same [OF s(1)] unfolding view' tracker_simps
    by (cases "oid = o_OrderID ord") (auto split: option.splits)
  moreover have "oid \<in> dom (map_of (tr_orders ?t))"
    if "view s' oid = Some r" "\<not> is_terminal (row_state r)" for oid r
    using that act [of oid r] unfolding view' tracker_simps by (auto split: if_splits)
  ultimately show ?thesis
    unfolding coherent_def using s'(2) tracker_wf_AddOrder [OF s(3)] by blast
qed

lemma update_coherent_aux:
  assumes "coherent view invar t" "c_ok c" and s: "tr_store t = Some s"
    and known: "oid \<in> dom (map_of (tr_orders t)) \<or> view s oid = None"
    and t': "tr_orders t' = tr_orders t" "map_of (tr_states t') = (map_of (tr_states t))(oid \<mapsto> st)"
      "tr_store t' = map_option (\<lambda>s. snd (st_UpdateOrderState S c oid st q s)) (tr_store t)" "tracker_wf t'"
  shows "coherent view invar t'"
proof -
  from assms(1) s have inv: "invar s"
    and held: "\<And>oid o'. map_of (tr_orders t) oid = Some o' \<Longrightarrow>
      \<exists>r. view s oid = Some r \<and> row_order r = o' \<and> map_of (tr_states t) oid = Some (row_state r)"
    and act: "\<And>oid r. view s oid = Some r \<Longrightarrow> \<not> is_terminal (row_state r) \<Longrightarrow> oid \<in> dom (map_of (tr_orders t))"
    unfolding coherent_def by auto
  obtain s' where s': "st_UpdateOrderState S c oid st q s = (None, s')" "invar s'"
    and view': "view s' = (view s)(oid := map_option (\<lambda>r. r\<lparr> row_state := st, row_filled_qty := q,
                                               row_updated_at := c_now c \<rparr>) (view s oid))"
    using update_ok [OF assms(2) inv] by blast
  have "tr_store t' = Some s'" by (simp add: t' s s')
  moreover have "\<exists>r. view s' oid' = Some r \<and> row_order r = o' \<and> map_of (tr_states t') oid' = Some (row_state r)"
    if "map_of (tr_orders t') oid' = Some o'" for oid' o'
    using that held [of oid' o'] unfolding view' t' by (cases "oid' = oid") auto
  moreover have "oid' \<in> dom (map_of (tr_orders t'))"
    if "view s' oid' = Some r" "\<not> is_terminal (row_state r)" for oid' r
    using that act [of oid' r] known unfolding view' t' by (cases "oid' = oid") auto
  ultimately show ?thesis
    unfolding coherent_def using s'(2) t'(4) by blast
qed

lemma upd_coherent:
  assumes coh: "coherent view invar t" and ok: "c_ok c2" and s: "tr_store t = Some s"
    and known: "oid \<in> dom (map_of (tr_orders t)) \<or> view s oid = None"
  shows "coherent view invar (snd (UpdateOrderState S c1 c2 oid st t))"
proof (cases "map_of (tr_states t) oid = Some st")
  case True
  then show ?thesis using coh by (simp add: UpdateOrderState_def)
next
  case False
  have "tracker_wf t" using coh by (simp add: coherent_def)
  then show ?thesis
    using update_coherent_aux [OF coh ok s known, of "snd (UpdateOrderState S c1 c2 oid st t)" st
        "filled_qty_for S c1 oid st t"] False
    by (simp add: UpdateOrderState_maps tracker_wf_UpdateOrderState)
       (simp add: UpdateOrderState_def Let_def)
qed

lemma qty_coherent:
  assumes coh: "coherent view invar t" and ok: "c_ok c" and s: "tr_store t = Some s"
    and known: "oid \<in> dom (map_of (tr_orders t)) \<or> view s oid = None"
  shows "coherent view invar (snd (UpdateOrderStateAndQty S c oid st q t))"
proof -
  have "tracker_wf t" using coh by (simp add: coherent_def)
  then show ?thesis
    using update_coherent_aux [OF coh ok s known, of _ st q]
    by (simp add: UpdateOrderStateAndQty_maps tracker_wf_UpdateOrderStateAndQty)
qed

lemma reach_coherent: "tracker_reach S view invar t \<Longrightarrow> coherent view invar t"
proof (induction rule: tracker_reach.induct)
  case (boot s c)
  then show ?case by (rule boot_coherent)
next
  case (add t c ord st)
  then show ?case by (auto intro!: add_coherent)
next
  case (upd t c2 oid c1 st)
  then obtain s where "tr_store t = Some s" unfolding coherent_def by blast
  with upd show ?case by (auto intro!: upd_coherent)
next
  case (qty t c oid st q)
  then obtain s where "tr_store t = Some s" unfolding coherent_def by blast
  with qty show ?case by (auto intro!: qty_coherent)
qed

lemma coherent_active_iff:
  assumes "coherent view invar t" "tr_store t = Some s"
  shows "ord \<in> set (GetAllActiveOrders t) \<longleftrightarrow>
    (\<exists>r. view s (o_OrderID ord) = Some r \<and> row_order r = ord \<and> \<not> is_terminal (row_state r))"
proof -
  have "tracker_wf t" using assms by (simp add: coherent_def)
  then show ?thesis
    using assms unfolding coherent_def GetAllActiveOrders_iff [OF \<open>tracker_wf t\<close>] GetOrder_def
      tracker_GetOrderState_def by (auto simp: dom_def) fastforce+
qed

lemma coherent_state:
  assumes "coherent view invar t" "tr_store t = Some s" "ord \<in> set (GetAllActiveOrders t)"
  shows "tracker_GetOrderState (o_OrderID ord) t = map_option row_state (view s (o_OrderID ord))"
proof -
  have "tracker_wf t" using assms by (simp add: coherent_def)
  with assms(3) have "map_of (tr_orders t) (o_OrderID ord) = Some ord"
    by (simp add: GetAllActiveOrders_iff GetOrder_def)
  with assms(1,2) show ?thesis unfolding coherent_def tracker_GetOrderState_def by fastforce
qed

text \<open>A restarted process preloads exactly the active orders of the one before.\<close>

lemma recovery:
  assumes "tracker_reach S view invar t" "tr_store t = Some s" "c_ok c" "c_rows c = None"
  shows "set (GetAllActiveOrders (WithStore S c s NewOrderTracker)) = set (GetAllActiveOrders t)"
    and "ord \<in> set (GetAllActiveOrders t) \<Longrightarrow>
      tracker_GetOrderState (o_OrderID ord) (WithStore S c s NewOrderTracker) =
      tracker_GetOrderState (o_OrderID ord) t"
proof -
  let ?t = "WithStore S c s NewOrderTracker"
  have coh: "coherent view invar t" using assms(1) by (rule reach_coherent)
  then have "invar s" using assms(2) by (auto simp: coherent_def)
  then have coh': "coherent view invar ?t" using assms(3,4) by (intro boot_coherent)
  have st': "tr_store ?t = Some s"
    by (auto simp: WithStore_def Let_def split: sum.splits prod.splits)
  show same: "set (GetAllActiveOrders ?t) = set (GetAllActiveOrders t)"
    using coherent_active_iff [OF coh assms(2)] coherent_active_iff [OF coh' st'] by blast
  show "tracker_GetOrderState (o_OrderID ord) ?t = tracker_GetOrderState (o_OrderID ord) t"
    if "ord \<in> set (GetAllActiveOrders t)"
    using coherent_state [OF coh assms(2) that] coherent_state [OF coh' st'] that same by simp
qed

end

section \<open>Properties\<close>


definition demo_ok :: call where
  "demo_ok = \<lparr> c_now = 5, c_done = False, c_ok = True, c_err = '''', c_rows = None, c_send = (\<lambda>_. Sent) \<rparr>"

definition demo_tracked :: Order where
  "demo_tracked = \<lparr> o_OrderID = ''o1'', o_Instrument = ''BTC-USD'', o_Side = SideBuy,
     o_Quantity = Fin 8, o_Price = Fin 100, o_Type = TypeLimit \<rparr>"


end
