(* ===== verification/Limiter.thy ===== *)
theory Limiter
  imports Golib
begin

text \<open>
  \<open>internal/gateway/tracker.go\<close>, the token bucket rate limiter, in float64 arithmetic
  (without fused multiply-add).
\<close>

section \<open>State and operations\<close>

record TokenBucketLimiter =
  tb_capacity :: float64
  tb_tokens :: float64
  tb_refillRate :: float64
  tb_lastRefill :: time

definition NewTokenBucketLimiter :: "time \<Rightarrow> float64 \<Rightarrow> TokenBucketLimiter" where
  "NewTokenBucketLimiter now rps =
     \<lparr> tb_capacity = rps, tb_tokens = rps, tb_refillRate = rps, tb_lastRefill = now \<rparr>"

text \<open>The refill at the head of the loop of \<open>Wait\<close>.\<close>

definition tb_refill :: "time \<Rightarrow> TokenBucketLimiter \<Rightarrow> TokenBucketLimiter" where
  "tb_refill now tb =
     (let elapsed = dur_seconds (time_sub now (tb_lastRefill tb));
          tokens = float_add (tb_tokens tb) (float_mul elapsed (tb_refillRate tb))
      in tb\<lparr> tb_lastRefill := now,
             tb_tokens := (if float_gt tokens (tb_capacity tb) then tb_capacity tb else tokens) \<rparr>)"

text \<open>The pause before the next round: \<open>Duration(needed / refillRate * 1e9)\<close>.\<close>

definition tb_waitTime :: "(float64 \<Rightarrow> int) \<Rightarrow> TokenBucketLimiter \<Rightarrow> duration" where
  "tb_waitTime oor tb =
     int64_of_float oor
       (float_mul (float_div (float_sub (Fin 1) (tb_tokens tb)) (tb_refillRate tb)) (Fin 1000000000))"

text \<open>\<open>Wait\<close>: each element of the list is one round of the loop, the clock reading it starts
  with and whether \<open>ctx.Done()\<close> wins the \<open>select\<close> at its end. \<open>None\<close>: the call has not
  returned within these rounds.\<close>

fun limiter_Wait ::
    "(time \<times> bool) list \<Rightarrow> TokenBucketLimiter \<Rightarrow> (goerror option \<times> TokenBucketLimiter) option" where
  "limiter_Wait [] tb = None"
| "limiter_Wait ((now, done) # rounds) tb =
     (let tb' = tb_refill now tb in
      if float_ge (tb_tokens tb') (Fin 1)
      then Some (None, tb'\<lparr> tb_tokens := float_sub (tb_tokens tb') (Fin 1) \<rparr>)
      else if done then Some (Some ''context canceled'', tb')
      else limiter_Wait rounds tb')"

section \<open>Elapsed time in seconds\<close>

lemma time_sub_nonneg: "u \<le> t \<Longrightarrow> 0 \<le> time_sub t u"
  by (simp add: time_sub_def)

lemma float_of_int_mono: "i \<le> j \<Longrightarrow> float_le (float_of_int i) (float_of_int j)"
  by (simp add: float_of_int_def fround_mono)

lemma float_of_int_0 [simp]: "float_of_int 0 = Fin 0"
  by (simp add: float_of_int_def)

text \<open>The sub-second part of a duration, and the whole number of seconds of a 64-bit
  duration, are exactly representable.\<close>

lemma sdiv_smod_nonneg:
  assumes "0 \<le> (d::int)"
  shows "d sdiv 1000000000 = d div 1000000000" "d smod 1000000000 = d mod 1000000000"
  using assms by (simp_all add: signed_divide_int_def signed_modulo_int_def minus_div_mult_eq_mod sgn_if)

lemma dur_seconds_bounds:
  assumes "0 \<le> d" "d < 2 ^ 63"
  obtains a where "dur_seconds d = Fin a" "of_int (d div Second) \<le> a" "a \<le> of_int (d div Second) + 1"
proof -
  let ?s = "d div Second" and ?n = "d mod Second"
  have s0: "0 \<le> ?s" using assms by simp
  have s1: "?s \<le> 2 ^ 34" using zdiv_mono1 [of d "2 ^ 63" Second] assms by simp
  note s = s0 s1
  have n: "0 \<le> ?n" "?n < Second" by simp_all
  have fs: "float_of_int ?s = Fin (of_int ?s)" using s by (intro float_of_int_small) simp
  have fn: "float_of_int ?n = Fin (of_int ?n)" using n by (intro float_of_int_small) simp
  have q: "0 \<le> of_int ?n / (1000000000::rat)" "of_int ?n / (1000000000::rat) \<le> 1"
    using n by (simp_all add: divide_le_eq)
  obtain b where b: "fround (of_int ?n / 1000000000) = Fin b" "0 \<le> b" "b \<le> 1"
    using fround_between [OF _ _ q] by auto
  have f1: "fround (of_int ?s) = Fin (of_int ?s)" using s by (intro fround_of_int) simp
  have f2: "fround (of_int ?s + 1) = Fin (of_int ?s + 1)"
    using fround_of_int [of "?s + 1"] s by simp
  obtain a where a: "fround (of_int ?s + b) = Fin a" "of_int ?s \<le> a" "a \<le> of_int ?s + 1"
    using fround_between [OF f1 f2, of "of_int ?s + b"] b by auto
  have "dur_seconds d = Fin a"
    using a b fs fn by (simp add: dur_seconds_def sdiv_smod_nonneg [OF assms(1)])
  with a show ?thesis by (intro that)
qed

section \<open>The bucket invariant\<close>

text \<open>Between calls the tokens are a finite number between 0 and the capacity, and the refill
  rate equals the capacity, as \<open>NewTokenBucketLimiter\<close> sets it.\<close>

definition tb_inv :: "TokenBucketLimiter \<Rightarrow> bool" where
  "tb_inv tb = (case (tb_capacity tb, tb_tokens tb, tb_refillRate tb) of
     (Fin c, Fin t, Fin r) \<Rightarrow> r = c \<and> 0 \<le> t \<and> t \<le> c \<and> fround t = Fin t \<and> fround c = Fin c
   | _ \<Rightarrow> False)"

lemma tb_inv_New: "0 \<le> r \<Longrightarrow> fround r = Fin r \<Longrightarrow> tb_inv (NewTokenBucketLimiter now (Fin r))"
  by (simp add: tb_inv_def NewTokenBucketLimiter_def)

lemma tb_invE:
  assumes "tb_inv tb"
  obtains c t where "tb_capacity tb = Fin c" "tb_tokens tb = Fin t" "tb_refillRate tb = Fin c"
    "0 \<le> t" "t \<le> c" "fround t = Fin t" "fround c = Fin c"
  using assms by (auto simp: tb_inv_def split: float64.splits)

text \<open>A refill keeps the invariant and never takes tokens away; the new content is at least
  the old one, and at least \<open>min(capacity, capacity * whole seconds)\<close>.\<close>

lemma tb_refill_tokens:
  assumes "tb_inv tb" "tb_lastRefill tb \<le> now"
  obtains c t t' where "tb_capacity tb = Fin c" "tb_tokens tb = Fin t"
    "tb_tokens (tb_refill now tb) = Fin t'" "t \<le> t'" "t' \<le> c" "fround t' = Fin t'" "0 \<le> t"
    "Second \<le> now - tb_lastRefill tb \<longrightarrow> t' = c" "fround c = Fin c"
proof -
  obtain c t where tb: "tb_capacity tb = Fin c" "tb_tokens tb = Fin t" "tb_refillRate tb = Fin c"
    "0 \<le> t" "t \<le> c" "fround t = Fin t" "fround c = Fin c" using assms(1) by (rule tb_invE)
  let ?d = "time_sub now (tb_lastRefill tb)"
  have d: "0 \<le> ?d" "?d < 2 ^ 63" using assms(2) by (simp_all add: time_sub_def)
  obtain a where a: "dur_seconds ?d = Fin a" "of_int (?d div Second) \<le> a"
    using d by (rule dur_seconds_bounds)
  have "0 \<le> ?d div Second" using d by simp
  then have a0: "0 \<le> a" using a(2) by (meson of_int_0_le_iff order_trans)
  let ?m = "float_mul (Fin a) (Fin c)"
  have m: "float_le (Fin 0) ?m" using a0 tb by (intro float_mul_nonneg) auto
  let ?x = "float_add (Fin t) ?m"
  have x: "float_le (Fin t) ?x" using m tb by (intro float_add_increasing) auto
  have eq: "tb_tokens (tb_refill now tb) = (if float_gt ?x (Fin c) then Fin c else ?x)"
    by (simp add: tb_refill_def Let_def a tb)
  obtain t' where t': "tb_tokens (tb_refill now tb) = Fin t'" "t \<le> t'" "t' \<le> c" "fround t' = Fin t'"
  proof (cases "float_gt ?x (Fin c)")
    case True
    then show ?thesis using that [of c] tb eq by simp
  next
    case False
    with x obtain y where y: "?x = Fin y" "t \<le> y" "y \<le> c" by (cases ?x) auto
    have "float_ok ?x" using tb by (intro float_ok_ops) auto
    with False y eq show ?thesis using that [of y] by simp
  qed
  moreover have "t' = c" if "Second \<le> now - tb_lastRefill tb"
  proof -
    have "1 \<le> ?d div Second" using that by (simp add: time_sub_def)
    then have "1 \<le> a" using a(2) by (metis of_int_1_le_iff order_trans)
    then have "c \<le> a * c" using tb by (simp add: mult_le_cancel_right1)
    then have "float_le (Fin c) ?m" using fround_mono [of c "a * c"] tb by simp
    moreover have "float_le ?m ?x" using float_add_increasing' [of t "a * c"] tb by simp
    ultimately have "float_le (Fin c) ?x" by (rule float_le_trans)
    then show ?thesis using eq t' by (cases ?x) (auto split: if_splits)
  qed
  ultimately show ?thesis using that tb by blast
qed

lemma tb_refill_sel [simp]:
  "tb_capacity (tb_refill now tb) = tb_capacity tb"
  "tb_refillRate (tb_refill now tb) = tb_refillRate tb"
  "tb_lastRefill (tb_refill now tb) = now"
  by (simp_all add: tb_refill_def Let_def)

lemma tb_refill_inv:
  assumes "tb_inv tb" "tb_lastRefill tb \<le> now"
  shows "tb_inv (tb_refill now tb)"
  using assms
  by (elim tb_invE, rule_tac tb_refill_tokens [OF assms]) (auto simp: tb_inv_def)

text \<open>Taking a token is exact: a float that is at least 1 loses no precision on
  the way down.\<close>

lemma fround_rat_sub_1:
  assumes "fround t = Fin t" "1 \<le> t"
  shows "\<exists>u. fround (t - 1) = Fin u \<and> 0 \<le> u \<and> u \<le> t"
  using fround_between [OF fround_0 assms(1), of "t - 1"] assms by auto

definition tb_take :: "TokenBucketLimiter \<Rightarrow> TokenBucketLimiter" where
  "tb_take tb = tb\<lparr> tb_tokens := float_sub (tb_tokens tb) (Fin 1) \<rparr>"

lemma tb_take_inv:
  assumes "tb_inv tb" "float_ge (tb_tokens tb) (Fin 1)"
  shows "tb_inv (tb_take tb)"
proof -
  obtain c t where tb: "tb_capacity tb = Fin c" "tb_tokens tb = Fin t" "tb_refillRate tb = Fin c"
    "0 \<le> t" "t \<le> c" "fround t = Fin t" "fround c = Fin c" using assms(1) by (rule tb_invE)
  with assms(2) have "1 \<le> t" by simp
  then obtain u where u: "fround (t - 1) = Fin u" "0 \<le> u" "u \<le> t"
    using fround_rat_sub_1 [OF tb(6)] by blast
  moreover have "fround u = Fin u" using float_ok_fround [of "t - 1"] u by simp
  ultimately show ?thesis using tb by (simp add: tb_inv_def tb_take_def float_sub_def)
qed

lemma limiter_Wait_Cons:
  "limiter_Wait ((now, done) # rounds) tb =
     (if float_ge (tb_tokens (tb_refill now tb)) (Fin 1) then Some (None, tb_take (tb_refill now tb))
      else if done then Some (Some ''context canceled'', tb_refill now tb)
      else limiter_Wait rounds (tb_refill now tb))"
  by (simp add: tb_take_def Let_def)

declare limiter_Wait.simps(2) [simp del]

text \<open>Go's monotonic clock: the readings of the rounds do not go back.\<close>

primrec clock_from :: "time \<Rightarrow> (time \<times> bool) list \<Rightarrow> bool" where
  "clock_from t [] = True"
| "clock_from t (r # rs) = (t \<le> fst r \<and> clock_from (fst r) rs)"

lemma limiter_Wait_inv:
  assumes "limiter_Wait rounds tb = Some (e, tb')" "tb_inv tb" "clock_from (tb_lastRefill tb) rounds"
  shows "tb_inv tb' \<and> tb_lastRefill tb \<le> tb_lastRefill tb'"
  using assms
proof (induction rounds arbitrary: tb)
  case (Cons r rs)
  obtain now don where r: "r = (now, don)" by (cases r)
  note inv = tb_refill_inv [of tb now]
  from Cons.prems r inv show ?case
    using Cons.IH [of "tb_refill now tb"] tb_take_inv [of "tb_refill now tb"]
    by (auto simp: limiter_Wait_Cons tb_take_def split: if_splits)
qed simp

section \<open>No starvation at one request per second and above\<close>

text \<open>In every nanosecond the bucket gains at least \<open>2 ^ -30\<close> tokens, whatever the rounding
  of the intermediate results.\<close>

lemma dur_seconds_ge:
  assumes "0 \<le> d" "d < Second"
  obtains a where "dur_seconds d = Fin a" "of_int d / 2 ^ 30 \<le> a"
proof -
  have "0 \<le> (of_int d / 1000000000 :: rat)" "of_int d / 1000000000 \<le> (1 :: rat)"
    using assms by (simp_all add: divide_le_eq)
  then obtain b where b: "fround (of_int d / 1000000000) = Fin b"
    using fround_between [OF fround_0 fround_1] by blast
  have "(of_int d / 2 ^ 30 :: rat) \<le> of_int d / 1000000000"
    using assms by (simp add: divide_le_eq)
  from fround_mono [OF this] b have "of_int d / 2 ^ 30 \<le> b"
    using fround_dyadic [of d 30] assms by simp
  moreover have "dur_seconds d = Fin b"
    using b assms float_ok_fround [of "of_int d / 1000000000"]
    by (simp add: dur_seconds_def sdiv_smod_nonneg float_of_int_small)
  ultimately show ?thesis by (intro that)
qed

lemma tb_refill_progress:
  assumes inv: "tb_inv tb" and now: "tb_lastRefill tb \<le> now"
    and cap: "float_le (Fin 1) (tb_capacity tb)"
    and k: "float_le (Fin (of_int k / 2 ^ 30)) (tb_tokens tb)" "0 \<le> k" "k \<le> 2 ^ 30"
  shows "float_le (Fin (of_int (min (2 ^ 30) (k + (now - tb_lastRefill tb))) / 2 ^ 30))
           (tb_tokens (tb_refill now tb))" (is "float_le (Fin (of_int ?k / _)) _")
proof -
  let ?d = "now - tb_lastRefill tb"
  obtain c t t' where t: "tb_capacity tb = Fin c" "tb_tokens tb = Fin t"
    "tb_tokens (tb_refill now tb) = Fin t'" "t \<le> t'" "t' \<le> c" "fround t' = Fin t'" "0 \<le> t"
    "Second \<le> ?d \<longrightarrow> t' = c" "fround c = Fin c" using inv now by (rule tb_refill_tokens)
  have c1: "1 \<le> c" using cap t by simp
  have k1: "(of_int ?k :: rat) / 2 ^ 30 \<le> 1"
  proof -
    have "?k \<le> 2 ^ 30" by simp
    then have "(of_int ?k :: rat) \<le> of_int (2 ^ 30)" by (subst of_int_le_iff)
    then show ?thesis by simp
  qed
  show ?thesis
  proof (cases "Second \<le> ?d")
    case True
    then show ?thesis using t k1 c1 by simp
  next
    case False
    have d: "0 \<le> ?d" "?d < Second" "time_sub now (tb_lastRefill tb) = ?d"
      using False now by (simp_all add: time_sub_def)
    obtain a where a: "dur_seconds ?d = Fin a" "of_int ?d / 2 ^ 30 \<le> a"
      using dur_seconds_ge [OF d(1,2)] .
    have rate: "tb_refillRate tb = Fin c" using inv t by (auto elim: tb_invE)
    have "0 \<le> a" using a(2) d(1) by (meson divide_nonneg_nonneg of_int_0_le_iff order_trans zero_le_numeral zero_le_power)
    then have "of_int ?d / 2 ^ 30 \<le> a * c"
      using a(2) c1 mult_left_mono [of 1 c a] by simp
    then have m: "float_le (Fin (of_int ?d / 2 ^ 30)) (fround (a * c))"
      using fround_mono [of "of_int ?d / 2 ^ 30" "a * c"] fround_dyadic [of ?d 30] d by simp
    have kk: "of_int (k + ?d) / 2 ^ 30 = (of_int k / 2 ^ 30 + of_int ?d / 2 ^ 30 :: rat)"
      by (simp add: add_divide_distrib)
    have "float_le (Fin (of_int (k + ?d) / 2 ^ 30)) (float_add (Fin t) (fround (a * c)))"
    proof (cases "fround (a * c)")
      case (Fin m)
      then have "of_int (k + ?d) / 2 ^ 30 \<le> t + m" using m k(1) t(2) kk by simp
      moreover have "fround (of_int (k + ?d) / 2 ^ 30) = Fin (of_int (k + ?d) / 2 ^ 30)"
        using k d by (intro fround_dyadic) simp_all
      ultimately show ?thesis using fround_mono [of "of_int (k + ?d) / 2 ^ 30" "t + m"] Fin by simp
    qed (use m in simp_all)
    then have "float_le (Fin (of_int ?k / 2 ^ 30)) (float_add (Fin t) (fround (a * c)))"
      by (rule float_le_trans [rotated]) (simp add: divide_right_mono)
    moreover have "tb_tokens (tb_refill now tb) =
        (if float_gt (float_add (Fin t) (fround (a * c))) (Fin c) then Fin c
         else float_add (Fin t) (fround (a * c)))"
      using a d rate t(1,2) by (simp add: tb_refill_def Let_def)
    ultimately show ?thesis using k1 c1 by (simp split: if_splits)
  qed
qed

text \<open>So \<open>Wait\<close> has returned as soon as \<open>2 ^ 30\<close> nanoseconds (1.07 s) have passed since the
  last refill, however the rounds are timed.\<close>

lemma limiter_Wait_returns_from:
  assumes "tb_inv tb" "float_le (Fin 1) (tb_capacity tb)" "clock_from (tb_lastRefill tb) rounds"
    "float_le (Fin (of_int k / 2 ^ 30)) (tb_tokens tb)" "0 \<le> k" "k \<le> 2 ^ 30"
    "\<exists>r\<in>set rounds. 2 ^ 30 \<le> k + (fst r - tb_lastRefill tb)"
  shows "\<exists>e tb'. limiter_Wait rounds tb = Some (e, tb')"
  using assms
proof (induction rounds arbitrary: tb k)
  case (Cons r rs)
  obtain now don where r: "r = (now, don)" by (cases r)
  let ?tb = "tb_refill now tb" and ?k = "min (2 ^ 30) (k + (now - tb_lastRefill tb))"
  have mono: "tb_lastRefill tb \<le> now" and rs: "clock_from now rs" using Cons.prems(3) r by simp_all
  have p: "float_le (Fin (of_int ?k / 2 ^ 30)) (tb_tokens ?tb)"
    using Cons.prems mono by (intro tb_refill_progress)
  show ?case
  proof (cases "float_ge (tb_tokens ?tb) (Fin 1) \<or> don")
    case True
    then show ?thesis by (auto simp: r limiter_Wait_Cons)
  next
    case False
    have lt: "k + (now - tb_lastRefill tb) < 2 ^ 30"
    proof (rule ccontr)
      assume "\<not> ?thesis"
      then have "?k = 2 ^ 30" by linarith
      with p False show False by simp
    qed
    with Cons.prems(7) r have "\<exists>r\<in>set rs. 2 ^ 30 \<le> ?k + (fst r - tb_lastRefill ?tb)" by auto
    moreover have "0 \<le> ?k" using mono Cons.prems(5) by simp
    ultimately have "\<exists>e tb'. limiter_Wait rs ?tb = Some (e, tb')"
      using Cons.prems(1,2) p rs mono by (intro Cons.IH [of ?tb ?k]) (simp_all add: tb_refill_inv)
    with False show ?thesis by (simp add: r limiter_Wait_Cons)
  qed
qed simp

lemma limiter_Wait_returns:
  assumes "tb_inv tb" "float_le (Fin 1) (tb_capacity tb)" "clock_from (tb_lastRefill tb) rounds"
    "r \<in> set rounds" "tb_lastRefill tb + 2 ^ 30 \<le> fst r"
  shows "\<exists>e tb'. limiter_Wait rounds tb = Some (e, tb')"
proof (rule limiter_Wait_returns_from [where k = 0])
  show "\<exists>r\<in>set rounds. 2 ^ 30 \<le> 0 + (fst r - tb_lastRefill tb)" using assms(4,5) by force
  show "float_le (Fin (of_int 0 / 2 ^ 30)) (tb_tokens tb)" using assms(1) by (auto elim: tb_invE)
qed (use assms in simp_all)

lemma limiter_Wait_error:
  "limiter_Wait rounds tb = Some (Some e, tb') \<Longrightarrow> \<exists>r\<in>set rounds. snd r"
  by (induction rounds arbitrary: tb) (auto simp: limiter_Wait_Cons split: if_splits)

section \<open>Starvation below one request per second\<close>

text \<open>The bucket's capacity is the rate. Below 1 it never holds a whole token.\<close>

lemma limiter_Wait_starves:
  assumes "tb_inv tb" "float_lt (tb_capacity tb) (Fin 1)" "clock_from (tb_lastRefill tb) rounds"
  shows "limiter_Wait rounds tb \<noteq> Some (None, tb')"
  using assms
proof (induction rounds arbitrary: tb)
  case (Cons r rs)
  obtain now don where r: "r = (now, don)" by (cases r)
  have inv: "tb_inv (tb_refill now tb)" using Cons.prems r by (intro tb_refill_inv) simp_all
  then have "\<not> float_ge (tb_tokens (tb_refill now tb)) (Fin 1)"
    using Cons.prems(2) by (auto elim!: tb_invE)
  then show ?case using Cons.IH [OF inv] Cons.prems by (auto simp: r limiter_Wait_Cons)
qed simp

section \<open>Bursts\<close>

text \<open>A run of \<open>n\<close> calls to \<open>Wait\<close>, each with its own rounds: the bucket afterwards, if each
  call returned with a token.\<close>

fun grants :: "(time \<times> bool) list list \<Rightarrow> TokenBucketLimiter \<Rightarrow> TokenBucketLimiter option" where
  "grants [] tb = Some tb"
| "grants (rounds # calls) tb =
     (case limiter_Wait rounds tb of Some (None, tb') \<Rightarrow> grants calls tb' | _ \<Rightarrow> None)"

text \<open>As long as the bucket holds \<open>n\<close> tokens, \<open>n\<close> calls are served in their first round.\<close>

lemma burst_served:
  assumes "tb_inv tb" "float_le (Fin (of_nat (length nows))) (tb_tokens tb)" "length nows \<le> 2 ^ 53"
    "clock_from (tb_lastRefill tb) (map (\<lambda>t. (t, False)) nows)"
  shows "\<exists>tb'. grants (map (\<lambda>t. [(t, False)]) nows) tb = Some tb'"
  using assms
proof (induction nows arbitrary: tb)
  case (Cons now nows)
  let ?n = "length nows" and ?tb = "tb_refill now tb"
  have now: "tb_lastRefill tb \<le> now" using Cons.prems(4) by simp
  obtain c t t' where t: "tb_capacity tb = Fin c" "tb_tokens tb = Fin t"
    "tb_tokens ?tb = Fin t'" "t \<le> t'" "t' \<le> c" "fround t' = Fin t'" "0 \<le> t"
    "Second \<le> now - tb_lastRefill tb \<longrightarrow> t' = c" "fround c = Fin c"
    using Cons.prems(1) now by (rule tb_refill_tokens)
  have n: "of_nat ?n + 1 \<le> t'" using Cons.prems(2) t(2,4) by simp
  have ge: "float_ge (tb_tokens ?tb) (Fin 1)" using n t(3) by simp
  have inv: "tb_inv (tb_take ?tb)" using Cons.prems(1) now ge by (intro tb_take_inv tb_refill_inv)
  have "fround (of_nat ?n) = Fin (of_nat ?n)"
    using fround_of_int [of "int ?n"] Cons.prems(3) by simp
  then have tok: "float_le (Fin (of_nat ?n)) (tb_tokens (tb_take ?tb))"
    using fround_mono [of "of_nat ?n" "t' - 1"] n t(3) by (simp add: tb_take_def float_sub_def)
  have "\<exists>tb'. grants (map (\<lambda>t. [(t, False)]) nows) (tb_take ?tb) = Some tb'"
    using Cons.prems tok inv by (intro Cons.IH) (simp_all add: tb_take_def)
  with ge show ?case by (simp add: limiter_Wait_Cons)
qed simp

section \<open>The rate is respected\<close>

lemma fround_upper:
  assumes "0 \<le> x" "fround x = Fin y"
  shows "y \<le> x + x / 2 ^ 53 + 1 / 2 ^ 53"
proof -
  have "y - x \<le> x / 2 ^ 53 + 1 / 2 ^ 1075"
    using fround_error [OF assms(2)] assms(1) by (simp only: abs_le_iff abs_of_nonneg)
  also have "1 / 2 ^ 1075 \<le> (1 / 2 ^ 53 :: rat)" by (rule divide_left_mono) simp_all
  finally show ?thesis by linarith
qed

lemma fround_upper_unit:
  assumes "0 \<le> x" "x \<le> 1" "fround x = Fin y"
  shows "y \<le> x + 2 / 2 ^ 53"
  using fround_upper [OF assms(1,3)] assms(2) by (simp add: field_simps)

text \<open>The error of one round, for a bucket of capacity \<open>c\<close>.\<close>

abbreviation round_slack :: "rat \<Rightarrow> rat" where
  "round_slack c \<equiv> (c + 1) / 2 ^ 49"

lemma tb_refill_upper:
  assumes "tb_inv tb" "tb_lastRefill tb \<le> now" "tb_capacity tb = Fin c" "tb_tokens tb = Fin t"
    "tb_tokens (tb_refill now tb) = Fin t'"
  shows "t' \<le> t + c * of_int (now - tb_lastRefill tb) / 1000000000 + round_slack c"
proof -
  let ?d = "now - tb_lastRefill tb"
  have c: "0 \<le> t" "t \<le> c" "tb_refillRate tb = Fin c" "t' \<le> c"
    using assms tb_refill_inv [OF assms(1,2)] by (auto elim!: tb_invE)
  show ?thesis
  proof (cases "Second \<le> ?d")
    case True
    then have "(of_int Second :: rat) \<le> of_int ?d" by (subst of_int_le_iff)
    then have "c * 1000000000 \<le> c * of_int ?d" using c by (intro mult_left_mono) simp_all
    then show ?thesis using c by (simp add: field_simps)
  next
    case False
    let ?s = "of_int ?d / 1000000000 :: rat"
    have d: "0 \<le> ?d" "?d < Second" "time_sub now (tb_lastRefill tb) = ?d"
      using False assms(2) by (simp_all add: time_sub_def)
    have s: "0 \<le> ?s" "?s \<le> 1" using d by (simp_all add: divide_le_eq)
    obtain a where a: "fround ?s = Fin a" "0 \<le> a" "a \<le> 1"
      using fround_between [OF fround_0 fround_1 s] by blast
    have ds: "dur_seconds ?d = Fin a"
      using a d float_ok_fround [of ?s] by (simp add: dur_seconds_def sdiv_smod_nonneg float_of_int_small)
    have a1: "a \<le> ?s + 2 / 2 ^ 53" using s a(1) by (intro fround_upper_unit)
    have ac: "0 \<le> a * c" "a * c \<le> c" using a c by (simp_all add: mult_left_le_one_le)
    obtain m where m: "fround (a * c) = Fin m" "0 \<le> m" "m \<le> c"
      using fround_between [OF fround_0 _ ac] assms(1,3) by (auto elim!: tb_invE)
    have m1: "m \<le> a * c + c / 2 ^ 53 + 1 / 2 ^ 53" using fround_upper [OF ac(1) m(1)] ac by simp
    have eq: "tb_tokens (tb_refill now tb) =
        (if float_gt (fround (t + m)) (Fin c) then Fin c else fround (t + m))"
      using d ds c m assms(3,4) by (simp add: tb_refill_def Let_def)
    have "t' \<le> t + m + (t + m) / 2 ^ 53 + 1 / 2 ^ 53"
    proof (cases "c \<le> t + m")
      case True
      moreover have "0 \<le> (t + m) / 2 ^ 53 + 1 / 2 ^ 53" using c(1) m(2) by simp
      ultimately show ?thesis using c(4) by linarith
    next
      case False
      then have le: "t + m \<le> c" "0 \<le> t + m" using c m by simp_all
      obtain y where y: "fround (t + m) = Fin y" "y \<le> c"
        using fround_between [OF fround_0 _ le(2,1)] assms(1,3) by (auto elim!: tb_invE)
      then show ?thesis using fround_upper [OF le(2) y(1)] eq assms(5) by (simp split: if_splits)
    qed
    moreover have "a * c \<le> ?s * c + 2 * c / 2 ^ 53"
      using mult_right_mono [OF a1, of c] c by (simp add: distrib_right)
    ultimately show ?thesis using m1 c m by (simp add: field_simps)
  qed
qed

lemma limiter_Wait_upper:
  assumes "limiter_Wait rounds tb = Some (None, tb')" "tb_inv tb" "clock_from (tb_lastRefill tb) rounds"
    "tb_capacity tb = Fin c" "tb_tokens tb = Fin t"
  shows "\<exists>t'. tb_tokens tb' = Fin t' \<and> tb_capacity tb' = Fin c \<and>
    t' + 1 \<le> t + c * of_int (tb_lastRefill tb' - tb_lastRefill tb) / 1000000000
               + 2 * of_nat (length rounds) * round_slack c"
  using assms
proof (induction rounds arbitrary: tb t)
  case (Cons r rs)
  obtain now don where r: "r = (now, don)" by (cases r)
  let ?tb = "tb_refill now tb"
  have now: "tb_lastRefill tb \<le> now" and rs: "clock_from now rs" using Cons.prems(3) r by simp_all
  have inv: "tb_inv ?tb" using Cons.prems(2) now by (rule tb_refill_inv)
  obtain u where u: "tb_tokens ?tb = Fin u" "0 \<le> u" "u \<le> c" "fround u = Fin u"
    using inv Cons.prems(4) by (auto elim!: tb_invE)
  have up: "u \<le> t + c * of_int (now - tb_lastRefill tb) / 1000000000 + round_slack c"
    using tb_refill_upper [OF Cons.prems(2) now Cons.prems(4,5) u(1)] .
  have len: "0 \<le> of_nat (length rs) * round_slack c" using u by simp
  show ?case
  proof (cases "1 \<le> u")
    case True
    obtain v where v: "fround (u - 1) = Fin v" using fround_rat_sub_1 [OF u(4) True] by blast
    have "v \<le> u - 1 + round_slack c"
      using fround_upper [OF _ v] True u by (simp add: field_simps)
    with True Cons.prems(1,4) u(1) v up len show ?thesis
      by (auto simp: r limiter_Wait_Cons tb_take_def float_sub_def algebra_simps
          add_divide_distrib diff_divide_distrib)
  next
    case False
    then have "limiter_Wait rs ?tb = Some (None, tb')"
      using Cons.prems(1) u(1) by (simp add: r limiter_Wait_Cons split: if_splits)
    then have "\<exists>t'. tb_tokens tb' = Fin t' \<and> tb_capacity tb' = Fin c \<and>
      t' + 1 \<le> u + c * of_int (tb_lastRefill tb' - tb_lastRefill ?tb) / 1000000000
               + 2 * of_nat (length rs) * round_slack c"
      using inv rs u(1) Cons.prems(4) by (intro Cons.IH) simp_all
    then show ?thesis using up u
      by (auto simp: algebra_simps add_divide_distrib diff_divide_distrib)
  qed
qed simp

lemma clock_from_append:
  "clock_from t (xs @ ys) \<longleftrightarrow> clock_from t xs \<and> clock_from (if xs = [] then t else fst (last xs)) ys"
  by (induction xs arbitrary: t) auto

lemma clock_from_mono: "clock_from t xs \<Longrightarrow> u \<le> t \<Longrightarrow> clock_from u xs"
  by (cases xs) auto

lemma clock_from_last: "clock_from t xs \<Longrightarrow> t \<le> (if xs = [] then t else fst (last xs))"
  by (induction xs arbitrary: t) (auto split: if_splits, fastforce)

lemma limiter_Wait_lastRefill:
  assumes "limiter_Wait rounds tb = Some (e, tb')" "clock_from (tb_lastRefill tb) rounds"
  shows "tb_lastRefill tb' \<le> fst (last rounds) \<and> rounds \<noteq> []"
  using assms
proof (induction rounds arbitrary: tb)
  case (Cons r rs)
  then have "clock_from (fst r) rs" by simp
  from clock_from_last [OF this] Cons show ?case
    by (cases r) (auto simp: limiter_Wait_Cons tb_take_def split: if_splits)
qed simp

lemma grants_upper:
  assumes "grants calls tb = Some tb'" "tb_inv tb" "clock_from (tb_lastRefill tb) (concat calls)"
    "tb_capacity tb = Fin c" "tb_tokens tb = Fin t"
  shows "of_nat (length calls) \<le> t + c * of_int (tb_lastRefill tb' - tb_lastRefill tb) / 1000000000
           + 2 * of_nat (length (concat calls)) * round_slack c"
  using assms
proof (induction calls arbitrary: tb t)
  case Nil
  then show ?case by (auto elim: tb_invE)
next
  case (Cons rounds calls)
  obtain tb1 where w: "limiter_Wait rounds tb = Some (None, tb1)" and g: "grants calls tb1 = Some tb'"
    using Cons.prems(1) by (auto split: option.splits prod.splits)
  have cr: "clock_from (tb_lastRefill tb) rounds" using Cons.prems(3) by (simp add: clock_from_append)
  have inv: "tb_inv tb1" using limiter_Wait_inv [OF w Cons.prems(2) cr] by simp
  obtain t1 where t1: "tb_tokens tb1 = Fin t1" "tb_capacity tb1 = Fin c"
    "t1 + 1 \<le> t + c * of_int (tb_lastRefill tb1 - tb_lastRefill tb) / 1000000000
               + 2 * of_nat (length rounds) * round_slack c"
    using limiter_Wait_upper [OF w Cons.prems(2) cr Cons.prems(4,5)] by blast
  have "clock_from (tb_lastRefill tb1) (concat calls)"
    using Cons.prems(3) limiter_Wait_lastRefill [OF w cr]
    by (auto simp: clock_from_append intro: clock_from_mono)
  from Cons.IH [OF g inv this t1(2,1)] t1(3) show ?case
    by (simp add: algebra_simps add_divide_distrib diff_divide_distrib)
qed

section \<open>Properties\<close>

text \<open>C15. The rate limit holds in float64 arithmetic: from a fresh limiter of \<open>r\<close> requests per
  second, the number of calls granted up to any instant is at most the burst \<open>r\<close> plus \<open>r\<close> times
  the elapsed seconds, plus a rounding slack of \<open>(r + 1) * 2 ^ -48\<close> per round of the loop.\<close>

theorem limiter_rate_bound:
  assumes "0 \<le> r" "fround r = Fin r" "clock_from t0 (concat calls)"
    and "grants calls (NewTokenBucketLimiter t0 (Fin r)) = Some tb"
  shows "of_nat (length calls) \<le> r + r * of_int (tb_lastRefill tb - t0) / 1000000000
    + (r + 1) * of_nat (length (concat calls)) / 2 ^ 48"
proof -
  have "tb_inv (NewTokenBucketLimiter t0 (Fin r))" using assms(1,2) by (rule tb_inv_New)
  from grants_upper [OF assms(4) this, of r r] assms(3) show ?thesis
    by (simp add: NewTokenBucketLimiter_def)
qed

theorem limiter_rate_bound_witness:
  "\<exists>tb. grants [[(0, False)], [(0, False)]] (NewTokenBucketLimiter 0 (Fin 4)) = Some tb \<and>
    (2::rat) \<le> 4 + 4 * of_int (tb_lastRefill tb - 0) / 1000000000 + (4 + 1) * 2 / 2 ^ 48"
proof -
  obtain tb where g: "grants [[(0, False)], [(0, False)]] (NewTokenBucketLimiter 0 (Fin 4)) = Some tb"
    by (simp add: limiter_Wait_Cons NewTokenBucketLimiter_def tb_refill_def tb_take_def Let_def time_sub_def
        dur_seconds_def float_sub_def float_simps)
  from limiter_rate_bound [of 4 0 "[[(0, False)], [(0, False)]]" tb] g show ?thesis
    by (auto simp: float_simps)
qed



text \<open>A limiter configured below one request per second never grants a request: its capacity is
  its rate, so the bucket never holds a whole token.\<close>

theorem limiter_starves_below_one:
  assumes "0 \<le> r" "r < 1" "fround r = Fin r" "clock_from t0 rounds"
  shows "limiter_Wait rounds (NewTokenBucketLimiter t0 (Fin r)) \<noteq> Some (None, tb')"
  using limiter_Wait_starves [OF tb_inv_New [OF assms(1,3)], of t0 rounds tb'] assms
  by (simp add: NewTokenBucketLimiter_def)

theorem limiter_starves_below_one_witness:
  "limiter_Wait [(0, False), (3600 * Second, False)] (NewTokenBucketLimiter 0 (Fin (1 / 2))) \<noteq>
     Some (None, NewTokenBucketLimiter 0 (Fin (1 / 2)))"
  by (rule limiter_starves_below_one) (use fround_dyadic [of 1 1] in simp_all)

text \<open>Bursts: a fresh limiter of \<open>n\<close> requests per second serves \<open>n\<close> calls in their first round,
  whenever they are made.\<close>

theorem limiter_serves_burst:
  assumes "length nows \<le> 2 ^ 53" "clock_from t0 (map (\<lambda>t. (t, False)) nows)"
  shows "\<exists>tb. grants (map (\<lambda>t. [(t, False)]) nows)
    (NewTokenBucketLimiter t0 (Fin (of_nat (length nows)))) = Some tb"
proof -
  have "fround (of_nat (length nows)) = Fin (of_nat (length nows))"
    using fround_of_int [of "int (length nows)"] assms(1) by simp
  then have "tb_inv (NewTokenBucketLimiter t0 (Fin (of_nat (length nows))))" by (intro tb_inv_New) simp_all
  from burst_served [OF this _ assms(1)] assms(2) show ?thesis
    by (simp add: NewTokenBucketLimiter_def)
qed

theorem limiter_serves_burst_witness:
  "\<exists>tb. grants [[(5, False)], [(6, False)], [(6, False)]] (NewTokenBucketLimiter 5 (Fin 3)) = Some tb"
  using limiter_serves_burst [of "[5, 6, 6]" 5] by simp

end
