(* ===== verification/Risk.thy ===== *)
theory Risk
  imports Exchange
begin

text \<open>
  \<open>internal/gateway/risk.go\<close>: the risk policy and its check, the operator kill switch
  \<open>Halt\<close>, and the validation of order ids.
\<close>

section \<open>The risk policy\<close>

record InstrumentLimits =
  lim_MaxQty :: float64
  lim_MaxNotional :: float64
  lim_MinQty :: float64

text \<open>A Go map is an association list with distinct keys; the order of the list stands for
  the unspecified order in which \<open>range\<close> visits it.\<close>

record RiskPolicy =
  rp_DefaultMaxQty :: float64
  rp_DefaultMaxNotional :: float64
  rp_Instruments :: "(string \<times> InstrumentLimits) list"

text \<open>The normalisation loop of \<open>LoadRiskPolicy\<close>.\<close>

fun normalize_keys ::
    "(string \<Rightarrow> string) \<Rightarrow> (string \<times> InstrumentLimits) list \<Rightarrow>
     (string \<times> InstrumentLimits) list \<Rightarrow> (string \<times> InstrumentLimits) list" where
  "normalize_keys uni [] acc = acc"
| "normalize_keys uni ((k, v) # kvs) acc =
     normalize_keys uni kvs (AList.update (ToUpper uni k) v acc)"

text \<open>\<open>readFile\<close> is the file system, \<open>unmarshal\<close> the YAML package.\<close>

definition LoadRiskPolicy ::
    "(string \<Rightarrow> string) \<Rightarrow> (string \<Rightarrow> goerror + string) \<Rightarrow> (string \<Rightarrow> goerror + RiskPolicy) \<Rightarrow>
     string \<Rightarrow> goerror + RiskPolicy option" where
  "LoadRiskPolicy uni readFile unmarshal path =
     (if path = '''' then Inr None
      else case readFile path of
        Inl e \<Rightarrow> Inl (''risk config '' @ path @ '': '' @ e)
      | Inr bytes \<Rightarrow>
          (case unmarshal bytes of
             Inl e \<Rightarrow> Inl (''risk config '' @ path @ '': '' @ e)
           | Inr p \<Rightarrow>
               Inr (Some (p\<lparr> rp_Instruments := normalize_keys uni (rp_Instruments p) [] \<rparr>))))"

definition max_qty_only :: "float64 \<Rightarrow> InstrumentLimits" where
  "max_qty_only m = \<lparr> lim_MaxQty = m, lim_MaxNotional = Fin 0, lim_MinQty = Fin 0 \<rparr>"

definition NewLegacyRiskPolicy :: "float64 \<Rightarrow> float64 \<Rightarrow> RiskPolicy" where
  "NewLegacyRiskPolicy maxBTC maxETH =
     \<lparr> rp_DefaultMaxQty = Fin 0, rp_DefaultMaxNotional = Fin 0,
       rp_Instruments =
         [(''BTC-USD'', max_qty_only maxBTC), (''BTCUSDT'', max_qty_only maxBTC),
          (''ETH-USD'', max_qty_only maxETH), (''ETHUSDT'', max_qty_only maxETH)] \<rparr>"

text \<open>The limits \<open>CheckIntent\<close> applies: those of the instrument, or the defaults.\<close>

definition policy_limits :: "(string \<Rightarrow> string) \<Rightarrow> RiskPolicy \<Rightarrow> Order \<Rightarrow> InstrumentLimits" where
  "policy_limits uni p intent =
     (case map_of (rp_Instruments p) (ToUpper uni (o_Instrument intent)) of
        Some l \<Rightarrow> l
      | None \<Rightarrow> \<lparr> lim_MaxQty = rp_DefaultMaxQty p, lim_MaxNotional = rp_DefaultMaxNotional p,
                  lim_MinQty = Fin 0 \<rparr>)"

definition check_limits :: "InstrumentLimits \<Rightarrow> Order \<Rightarrow> bool \<times> string" where
  "check_limits l intent =
     (if float_gt (lim_MinQty l) (Fin 0) \<and> float_lt (o_Quantity intent) (lim_MinQty l)
      then (False, ''qty_below_minimum'')
      else if float_gt (lim_MaxQty l) (Fin 0) \<and> float_gt (o_Quantity intent) (lim_MaxQty l)
      then (False, ''qty_limit_exceeded'')
      else if float_gt (lim_MaxNotional l) (Fin 0) \<and> float_gt (o_Price intent) (Fin 0) \<and>
              float_gt (float_mul (o_Quantity intent) (o_Price intent)) (lim_MaxNotional l)
      then (False, ''notional_limit_exceeded'')
      else (True, ''''))"

definition CheckIntent :: "(string \<Rightarrow> string) \<Rightarrow> RiskPolicy option \<Rightarrow> Order \<Rightarrow> bool \<times> string" where
  "CheckIntent uni p intent =
     (case p of None \<Rightarrow> (True, '''') | Some q \<Rightarrow> check_limits (policy_limits uni q intent) intent)"

section \<open>The kill switch\<close>

record Halt =
  h_active :: bool
  h_reason :: string

definition NewHalt :: Halt where
  "NewHalt = \<lparr> h_active = False, h_reason = '''' \<rparr>"

definition Halt_Set :: "string \<Rightarrow> Halt \<Rightarrow> Halt" where
  "Halt_Set reason h =
     h\<lparr> h_active := True, h_reason := (if reason = '''' then ''operator_halt'' else reason) \<rparr>"

definition Halt_Clear :: "Halt \<Rightarrow> Halt" where
  "Halt_Clear h = h\<lparr> h_active := False, h_reason := '''' \<rparr>"

definition IsHalted :: "Halt \<Rightarrow> bool" where
  "IsHalted h = h_active h"

definition Halt_Reason :: "Halt \<Rightarrow> string" where
  "Halt_Reason h = h_reason h"

section \<open>Order id validation\<close>

abbreviation ReasonOrderIDEmpty :: string where "ReasonOrderIDEmpty \<equiv> ''orderid_empty''"
abbreviation ReasonOrderIDTooLong :: string where "ReasonOrderIDTooLong \<equiv> ''orderid_too_long''"
abbreviation ReasonOrderIDInvalidChar :: string where
  "ReasonOrderIDInvalidChar \<equiv> ''orderid_invalid_char''"
abbreviation ReasonOrderIDDuplicate :: string where "ReasonOrderIDDuplicate \<equiv> ''orderid_duplicate''"

abbreviation MaxOrderIDLen :: nat where "MaxOrderIDLen \<equiv> 64"

text \<open>The \<open>switch\<close> on one rune. The source ranges over runes, the model over bytes: an ASCII
  byte is a rune of its own, and a byte above 127 always belongs to a rune above 127, which
  takes the default branch.\<close>

definition valid_id_char :: "char \<Rightarrow> bool" where
  "valid_id_char c =
     (let r = (of_char c :: nat) in
      of_char CHR ''A'' \<le> r \<and> r \<le> of_char CHR ''Z'' \<or>
      of_char CHR ''a'' \<le> r \<and> r \<le> of_char CHR ''z'' \<or>
      of_char CHR ''0'' \<le> r \<and> r \<le> of_char CHR ''9'' \<or>
      c = CHR ''_'' \<or> c = CHR ''-'')"

fun validate_chars :: "string \<Rightarrow> goerror option" where
  "validate_chars [] = None"
| "validate_chars (c # cs) =
     (if valid_id_char c then validate_chars cs else Some ReasonOrderIDInvalidChar)"

definition ValidateOrderID :: "string \<Rightarrow> goerror option" where
  "ValidateOrderID oid =
     (if oid = '''' then Some ReasonOrderIDEmpty
      else if MaxOrderIDLen < length oid then Some ReasonOrderIDTooLong
      else validate_chars oid)"

section \<open>Lemmas on the policy\<close>

lemma map_of_normalize_keys_other:
  assumes "\<forall>k\<in>fst ` set kvs. ToUpper uni k \<noteq> u"
  shows "map_of (normalize_keys uni kvs acc) u = map_of acc u"
  using assms by (induction kvs arbitrary: acc) (auto simp: map_of_update_other)

lemma map_of_normalize_keys:
  assumes "distinct (map (ToUpper uni \<circ> fst) kvs)" "(k, v) \<in> set kvs"
  shows "map_of (normalize_keys uni kvs acc) (ToUpper uni k) = Some v"
  using assms
proof (induction kvs arbitrary: acc)
  case (Cons kv kvs)
  obtain k' v' where kv: "kv = (k', v')" by (cases kv)
  show ?case
  proof (cases "(k, v) \<in> set kvs")
    case True
    with Cons show ?thesis by (simp add: kv)
  next
    case False
    with Cons.prems kv have eq: "k' = k" "v' = v" by auto
    have "\<forall>j\<in>fst ` set kvs. ToUpper uni j \<noteq> ToUpper uni k"
      using Cons.prems(1) kv eq by (auto simp: image_iff)
    then show ?thesis using map_of_normalize_keys_other by (simp add: kv eq)
  qed
qed simp

lemma check_limits_reasons:
  "check_limits l intent \<in>
     {(True, ''''), (False, ''qty_below_minimum''), (False, ''qty_limit_exceeded''),
      (False, ''notional_limit_exceeded'')}"
  by (simp add: check_limits_def)

lemma check_limits_allowed:
  "fst (check_limits l intent) \<longleftrightarrow>
     \<not> (float_gt (lim_MinQty l) (Fin 0) \<and> float_lt (o_Quantity intent) (lim_MinQty l)) \<and>
     \<not> (float_gt (lim_MaxQty l) (Fin 0) \<and> float_gt (o_Quantity intent) (lim_MaxQty l)) \<and>
     \<not> (float_gt (lim_MaxNotional l) (Fin 0) \<and> float_gt (o_Price intent) (Fin 0) \<and>
        float_gt (float_mul (o_Quantity intent) (o_Price intent)) (lim_MaxNotional l))"
  by (simp add: check_limits_def)

section \<open>Lemmas on the kill switch\<close>

definition halt_inv :: "Halt \<Rightarrow> bool" where
  "halt_inv h = (h_active h \<longleftrightarrow> h_reason h \<noteq> '''')"

lemma halt_inv_ops: "halt_inv NewHalt" "halt_inv (Halt_Set r h)" "halt_inv (Halt_Clear h)"
  by (simp_all add: halt_inv_def NewHalt_def Halt_Set_def Halt_Clear_def)

section \<open>Lemmas on order ids\<close>

lemma validate_chars_None: "validate_chars s = None \<longleftrightarrow> list_all valid_id_char s"
  by (induction s) auto

lemma validate_chars_Some: "validate_chars s = Some e \<Longrightarrow> e = ReasonOrderIDInvalidChar"
  by (induction s) (auto split: if_splits)

section \<open>Properties\<close>

text \<open>The exact notional of an accepted order, up to one rounding.\<close>

lemma notional_slack:
  assumes "float_le (fround x) (Fin m)" "0 \<le> x"
  shows "x \<le> m + x / 2 ^ 53 + 1 / 2 ^ 1075"
proof -
  have "float_le (Fin 0) (fround x)" using fround_mono [OF assms(2)] by simp
  then obtain y where y: "fround x = Fin y" "y \<le> m" using assms(1) by (cases "fround x") auto
  have "\<bar>y - x\<bar> \<le> \<bar>x\<bar> / 2 ^ 53 + 1 / 2 ^ 1075" using y(1) by (rule fround_error)
  then have "x - y \<le> x / 2 ^ 53 + 1 / 2 ^ 1075" using assms(2) by (simp only: abs_le_iff abs_of_nonneg) simp
  with y(2) show ?thesis by linarith
qed


definition demo_policy :: RiskPolicy where
  "demo_policy = \<lparr> rp_DefaultMaxQty = Fin 0, rp_DefaultMaxNotional = Fin 0,
     rp_Instruments = [(''BTC-USD'', \<lparr> lim_MaxQty = Fin 10, lim_MaxNotional = Fin 1000, lim_MinQty = Fin 1 \<rparr>)] \<rparr>"

definition demo_intent :: Order where
  "demo_intent = \<lparr> o_OrderID = ''o1'', o_Instrument = ''btc-usd'', o_Side = SideBuy,
     o_Quantity = Fin 8, o_Price = Fin 100, o_Type = TypeLimit \<rparr>"

lemma demo_upper: "ToUpper uni ''btc-usd'' = ''BTC-USD''"
  unfolding ToUpper_def by code_simp

lemma demo_limits: "policy_limits uni demo_policy demo_intent =
    \<lparr> lim_MaxQty = Fin 10, lim_MaxNotional = Fin 1000, lim_MinQty = Fin 1 \<rparr>"
  by (simp add: policy_limits_def demo_policy_def demo_intent_def demo_upper)


text \<open>Limits are found whatever the case: after loading, the limits written in the file for an
  instrument apply to every intent whose instrument has the same upper-case form (keys of the file
  that differ only in case aside).\<close>

theorem policy_case_insensitive:
  assumes "LoadRiskPolicy uni readFile unmarshal path = Inr (Some p)" "path \<noteq> ''''"
    and "readFile path = Inr bytes" "unmarshal bytes = Inr raw"
    and "distinct (map (ToUpper uni \<circ> fst) (rp_Instruments raw))" "(k, l) \<in> set (rp_Instruments raw)"
    and "ToUpper uni (o_Instrument intent) = ToUpper uni k"
  shows "policy_limits uni p intent = l"
  using assms map_of_normalize_keys [OF assms(5,6), of "[]"]
  by (auto simp: LoadRiskPolicy_def policy_limits_def)

theorem policy_case_insensitive_witness:
  "policy_limits (\<lambda>s. s) (demo_policy\<lparr> rp_Instruments := normalize_keys (\<lambda>s. s) (rp_Instruments demo_policy) [] \<rparr>)
     demo_intent = \<lparr> lim_MaxQty = Fin 10, lim_MaxNotional = Fin 1000, lim_MinQty = Fin 1 \<rparr>"
  by (rule policy_case_insensitive [where readFile = "\<lambda>_. Inr ''''" and unmarshal = "\<lambda>_. Inr demo_policy"
        and path = "''risk.yaml''" and bytes = "''''" and raw = demo_policy and k = "''BTC-USD''"])
     (simp_all add: LoadRiskPolicy_def demo_policy_def demo_intent_def demo_upper, code_simp)

text \<open>Zero defaults admit unknown instruments: an intent for an instrument the policy does not
  list is accepted whatever its quantity and price when both defaults are zero.\<close>

theorem unknown_instrument_unlimited:
  assumes "map_of (rp_Instruments p) (ToUpper uni (o_Instrument intent)) = None"
    and "rp_DefaultMaxQty p = Fin 0" "rp_DefaultMaxNotional p = Fin 0"
  shows "CheckIntent uni (Some p) intent = (True, '''')"
  using assms by (simp add: CheckIntent_def policy_limits_def check_limits_def)

theorem unknown_instrument_unlimited_witness:
  "CheckIntent (\<lambda>s. s) (Some (demo_policy\<lparr> rp_Instruments := [] \<rparr>)) (demo_intent\<lparr> o_Quantity := Fin 1000000 \<rparr>) = (True, '''')"
  by (rule unknown_instrument_unlimited) (simp_all add: demo_policy_def)

lemma char_range: "n \<le> 256 \<Longrightarrow> c \<in> set (map char_of [m..<n]) \<longleftrightarrow> m \<le> (of_char c :: nat) \<and> (of_char c :: nat) < n"
proof -
  assume n: "n \<le> 256"
  have "c \<in> set (map char_of [m..<n]) \<longleftrightarrow> (\<exists>k. m \<le> k \<and> k < n \<and> c = char_of k)" by auto
  also have "\<dots> \<longleftrightarrow> m \<le> (of_char c :: nat) \<and> (of_char c :: nat) < n"
  proof
    assume "\<exists>k. m \<le> k \<and> k < n \<and> c = char_of k"
    then obtain k where "m \<le> k" "k < n" "c = char_of k" by blast
    with n show "m \<le> (of_char c :: nat) \<and> (of_char c :: nat) < n" by (simp add: of_char_of)
  qed (metis char_of_char)
  finally show ?thesis .
qed

lemma alphabet_chars:
  "''ABCDEFGHIJKLMNOPQRSTUVWXYZ'' = map char_of [65::nat..<91]"
  "''abcdefghijklmnopqrstuvwxyz'' = map char_of [97::nat..<123]"
  "''0123456789_-'' = map char_of [48::nat..<58] @ ''_-''"
  by code_simp+

text \<open>C38. Order ids are validated against the documented alphabet and length: an id passes exactly
  if it has between 1 and 64 characters, all of them ASCII letters, digits, underscores or dashes;
  the three failure reasons are mutually exclusive and checked in this order.\<close>

theorem ValidateOrderID_spec:
  fixes oid :: string
  shows
  "ValidateOrderID oid =
     (if oid = [] then Some ReasonOrderIDEmpty
      else if 64 < length oid then Some ReasonOrderIDTooLong
      else if set oid \<subseteq> set (''ABCDEFGHIJKLMNOPQRSTUVWXYZ'' @ ''abcdefghijklmnopqrstuvwxyz'' @ ''0123456789_-'')
      then None else Some ReasonOrderIDInvalidChar)"
proof -
  have "valid_id_char c \<longleftrightarrow> c \<in> set (''ABCDEFGHIJKLMNOPQRSTUVWXYZ'' @ ''abcdefghijklmnopqrstuvwxyz'' @ ''0123456789_-'')" for c
  proof -
    have r: "c \<in> set (map char_of [65::nat..<91]) \<longleftrightarrow> 65 \<le> (of_char c :: nat) \<and> (of_char c :: nat) < 91"
      "c \<in> set (map char_of [97::nat..<123]) \<longleftrightarrow> 97 \<le> (of_char c :: nat) \<and> (of_char c :: nat) < 123"
      "c \<in> set (map char_of [48::nat..<58]) \<longleftrightarrow> 48 \<le> (of_char c :: nat) \<and> (of_char c :: nat) < 58"
      by (rule char_range, simp)+
    show ?thesis
      by (simp only: alphabet_chars set_append Un_iff r) (auto simp: valid_id_char_def Let_def)
  qed
  then have valid: "\<And>c. valid_id_char c \<longleftrightarrow> c \<in> A" if "A = set (''ABCDEFGHIJKLMNOPQRSTUVWXYZ'' @
      ''abcdefghijklmnopqrstuvwxyz'' @ ''0123456789_-'')" for A
    unfolding that .
  define A where "A = set (''ABCDEFGHIJKLMNOPQRSTUVWXYZ'' @ ''abcdefghijklmnopqrstuvwxyz'' @ ''0123456789_-'')"
  have "list_all valid_id_char oid \<longleftrightarrow> set oid \<subseteq> A"
    using valid [OF A_def] by (auto simp: list_all_iff)
  then show ?thesis
    unfolding A_def [symmetric]
    using validate_chars_None [of oid] validate_chars_Some [of oid]
    by (cases "validate_chars oid") (auto simp: ValidateOrderID_def)
qed

end
