(* ===== verification/Simulator.thy ===== *)
theory Simulator
  imports Exchange
begin

text \<open>
  \<open>internal/exchange/simulator.go\<close>: the in-memory connector. Its state is the fill
  counter, the last state recorded per order and the list of subscribed channels; sends to
  a subscriber are non-blocking and logged in \<open>sim_sent\<close>.
\<close>

section \<open>State\<close>

record SimulatorConfig =
  cfg_FillPrice :: float64
  cfg_TransactionCost :: float64
  cfg_TransactionCostBps :: float64
  cfg_Latency :: duration
  cfg_AlsoEmitOnWS :: bool

record SimulatorConnector =
  sim_cfg :: SimulatorConfig
  sim_counter :: int
  sim_known :: "(string \<times> OrderState) list"
  sim_fillSubs :: "nat list"
  sim_sent :: "(nat \<times> ExecutionFill) list"

text \<open>\<open>Now\<close> is the clock of the call; a zero \<open>FillPrice\<close> is replaced by 1.\<close>

definition NewSimulatorConnector :: "SimulatorConfig \<Rightarrow> SimulatorConnector" where
  "NewSimulatorConnector cfg =
     \<lparr> sim_cfg = (if cfg_FillPrice cfg = Fin 0 then cfg\<lparr>cfg_FillPrice := Fin 1\<rparr> else cfg),
       sim_counter = 0, sim_known = [], sim_fillSubs = [], sim_sent = [] \<rparr>"

section \<open>Operations\<close>

text \<open>The subscriber loop of \<open>SubmitOrder\<close>: each send succeeds, is dropped because the
  channel is full, or ends the loop because the context is done.\<close>

fun sim_emit :: "(nat \<Rightarrow> send) \<Rightarrow> nat \<Rightarrow> nat list \<Rightarrow> ExecutionFill \<Rightarrow> (nat \<times> ExecutionFill) list" where
  "sim_emit choice i [] fill = []"
| "sim_emit choice i (ch # chs) fill =
     (case choice i of
        Sent \<Rightarrow> (ch, fill) # sim_emit choice (Suc i) chs fill
      | CtxDone \<Rightarrow> []
      | Full \<Rightarrow> sim_emit choice (Suc i) chs fill)"

definition sim_price :: "SimulatorConfig \<Rightarrow> Order \<Rightarrow> float64" where
  "sim_price cfg ord = (if o_Price ord = Fin 0 then cfg_FillPrice cfg else o_Price ord)"

definition sim_txcost :: "SimulatorConfig \<Rightarrow> float64 \<Rightarrow> float64 \<Rightarrow> float64" where
  "sim_txcost cfg price qty =
     (if float_gt (cfg_TransactionCostBps cfg) (Fin 0)
      then float_mul (float_mul price qty) (float_div (cfg_TransactionCostBps cfg) (Fin 10000))
      else cfg_TransactionCost cfg)"

definition sim_execution_id :: "string \<Rightarrow> int \<Rightarrow> string" where
  "sim_execution_id oid n = oid @ ''-sim-rest-'' @ itoa n"

definition sim_fill :: "SimulatorConfig \<Rightarrow> time \<Rightarrow> int \<Rightarrow> Order \<Rightarrow> ExecutionFill" where
  "sim_fill cfg now n ord =
     (let price = sim_price cfg ord in
      \<lparr> f_OrderID = o_OrderID ord, f_ExecutionID = sim_execution_id (o_OrderID ord) n,
        f_Instrument = o_Instrument ord, f_Side = o_Side ord, f_OrderStatus = StateFilled,
        f_Quantity = o_Quantity ord, f_FillPrice = price,
        f_TransactionCost = sim_txcost cfg price (o_Quantity ord), f_Timestamp = now \<rparr>)"

definition sim_SubmitOrder ::
    "call \<Rightarrow> Order \<Rightarrow> SimulatorConnector \<Rightarrow> (goerror + ExecutionFill) \<times> SimulatorConnector" where
  "sim_SubmitOrder c ord s =
     (if cfg_Latency (sim_cfg s) > 0 \<and> c_done c then (Inl ''context canceled'', s)
      else
        let n = wrap64 (sim_counter s + 1);
            fill = sim_fill (sim_cfg s) (c_now c) n ord;
            s' = s\<lparr> sim_counter := n,
                    sim_known := AList.update (o_OrderID ord) StateFilled (sim_known s) \<rparr>
        in if cfg_AlsoEmitOnWS (sim_cfg s)
           then (Inr fill, s'\<lparr> sim_sent := sim_sent s @ sim_emit (c_send c) 0 (sim_fillSubs s) fill \<rparr>)
           else (Inr fill, s'))"

definition sim_CancelOrder ::
    "call \<Rightarrow> string \<Rightarrow> string \<Rightarrow> SimulatorConnector \<Rightarrow> goerror option \<times> SimulatorConnector" where
  "sim_CancelOrder c oid inst s =
     (None, s\<lparr> sim_known := AList.update oid StateCanceled (sim_known s) \<rparr>)"

definition sim_GetOrderState ::
    "call \<Rightarrow> string \<Rightarrow> string \<Rightarrow> SimulatorConnector \<Rightarrow> (goerror + OrderStatusResult) \<times> SimulatorConnector" where
  "sim_GetOrderState c oid inst s =
     (case map_of (sim_known s) oid of
        None \<Rightarrow> (Inr \<lparr> r_State = StatePending, r_ExecutedQty = Fin 0, r_FillPrice = Fin 0,
                       r_TransactTime = c_now c \<rparr>, s)
      | Some st \<Rightarrow> (Inr \<lparr> r_State = st, r_ExecutedQty = Fin 0,
                       r_FillPrice = cfg_FillPrice (sim_cfg s), r_TransactTime = c_now c \<rparr>, s))"

text \<open>Subscription, and the watcher goroutine that removes the first occurrence of the
  channel once the context is cancelled.\<close>

definition sim_StartUserStream :: "nat \<Rightarrow> SimulatorConnector \<Rightarrow> SimulatorConnector" where
  "sim_StartUserStream ch s = s\<lparr> sim_fillSubs := sim_fillSubs s @ [ch] \<rparr>"

definition sim_Unsubscribe :: "nat \<Rightarrow> SimulatorConnector \<Rightarrow> SimulatorConnector" where
  "sim_Unsubscribe ch s = s\<lparr> sim_fillSubs := remove1 ch (sim_fillSubs s) \<rparr>"

definition simulator :: "SimulatorConnector ExchangeConnector" where
  "simulator = \<lparr> SubmitOrder = sim_SubmitOrder, CancelOrder = sim_CancelOrder,
                 GetOrderState = sim_GetOrderState \<rparr>"

section \<open>Correctness\<close>

lemma sim_fill_fields [simp]:
  "f_OrderID (sim_fill cfg now n ord) = o_OrderID ord"
  "f_ExecutionID (sim_fill cfg now n ord) = sim_execution_id (o_OrderID ord) n"
  "f_Side (sim_fill cfg now n ord) = o_Side ord"
  "f_Instrument (sim_fill cfg now n ord) = o_Instrument ord"
  "f_OrderStatus (sim_fill cfg now n ord) = StateFilled"
  "f_Quantity (sim_fill cfg now n ord) = o_Quantity ord"
  "f_FillPrice (sim_fill cfg now n ord) = sim_price cfg ord"
  by (simp_all add: sim_fill_def Let_def)

lemma sim_SubmitOrder_Inr:
  "sim_SubmitOrder c ord s = (Inr fill, s') \<Longrightarrow>
     fill = sim_fill (sim_cfg s) (c_now c) (wrap64 (sim_counter s + 1)) ord \<and>
     sim_counter s' = wrap64 (sim_counter s + 1) \<and>
     sim_known s' = AList.update (o_OrderID ord) StateFilled (sim_known s) \<and>
     sim_cfg s' = sim_cfg s"
  by (auto simp: sim_SubmitOrder_def Let_def split: if_splits)

interpretation sim: echoing_connector simulator
  by unfold_locales (auto simp: simulator_def dest: sim_SubmitOrder_Inr)

section \<open>Properties\<close>

text \<open>A sequence of submissions to the simulator and the fills it returned.\<close>

fun sim_session :: "(call \<times> Order) list \<Rightarrow> SimulatorConnector \<Rightarrow> ExecutionFill list \<times> SimulatorConnector" where
  "sim_session [] s = ([], s)"
| "sim_session ((c, ord) # rest) s =
     (case sim_SubmitOrder c ord s of
        (Inl e, s') \<Rightarrow> sim_session rest s'
      | (Inr fill, s') \<Rightarrow> (case sim_session rest s' of (fills, s'') \<Rightarrow> (fill # fills, s'')))"

lemma sim_execution_id_eq:
  assumes "0 \<le> m" "0 \<le> n"
  shows "sim_execution_id a m = sim_execution_id b n \<longleftrightarrow> a = b \<and> m = n"
proof -
  have "sim_execution_id oid k = (oid @ ''-sim-rest'') @ CHR ''-'' # nat_digits (nat k)" if "0 \<le> k" for oid k
    using that by (simp add: sim_execution_id_def itoa_def)
  with assms show ?thesis by (simp only: dash_digits_unique append_same_eq) auto
qed

lemma sim_session_ids:
  assumes "0 \<le> sim_counter s" "sim_counter s + int (length calls) < 2 ^ 63"
  shows "distinct (map f_ExecutionID (fst (sim_session calls s))) \<and>
    (\<forall>f\<in>set (fst (sim_session calls s)). \<exists>n>sim_counter s. f_ExecutionID f = sim_execution_id (f_OrderID f) n)"
  using assms
proof (induction calls arbitrary: s)
  case (Cons cl rest)
  obtain c ord where cl: "cl = (c, ord)" by (cases cl)
  show ?case
  proof (cases "fst (sim_SubmitOrder c ord s)")
    case (Inl e)
    then have "snd (sim_SubmitOrder c ord s) = s" by (auto simp: sim_SubmitOrder_def Let_def split: if_splits)
    with Inl Cons.IH [of s] Cons.prems show ?thesis by (simp add: cl case_prod_beta)
  next
    case (Inr fill)
    define s' where "s' = snd (sim_SubmitOrder c ord s)"
    have sub: "sim_SubmitOrder c ord s = (Inr fill, s')" using Inr by (simp add: s'_def prod_eq_iff)
    have w: "wrap64 (sim_counter s + 1) = sim_counter s + 1" using Cons.prems by (intro wrap64_id) simp_all
    have s': "sim_counter s' = sim_counter s + 1"
      and f: "f_ExecutionID fill = sim_execution_id (f_OrderID fill) (sim_counter s + 1)"
      using sim_SubmitOrder_Inr [OF sub] w by simp_all
    have ih: "distinct (map f_ExecutionID (fst (sim_session rest s')))"
      "\<forall>f\<in>set (fst (sim_session rest s')). \<exists>n>sim_counter s'. f_ExecutionID f = sim_execution_id (f_OrderID f) n"
      using Cons.IH [of s'] Cons.prems s' by simp_all
    have "f_ExecutionID fill \<noteq> f_ExecutionID g" if g: "g \<in> set (fst (sim_session rest s'))" for g
    proof -
      obtain n where n: "n > sim_counter s'" "f_ExecutionID g = sim_execution_id (f_OrderID g) n" using ih(2) g by blast
      have "0 \<le> sim_counter s + 1" "0 \<le> n" "sim_counter s + 1 \<noteq> n" using n(1) s' Cons.prems(1) by simp_all
      then show ?thesis unfolding f n(2) using sim_execution_id_eq by metis
    qed
    then have "f_ExecutionID fill \<notin> f_ExecutionID ` set (fst (sim_session rest s'))" by auto
    moreover have "\<exists>n>sim_counter s. f_ExecutionID g = sim_execution_id (f_OrderID g) n"
      if "g \<in> set (fst (sim_session rest s'))" for g
      using ih(2) that s' by force
    moreover have "\<exists>n>sim_counter s. f_ExecutionID fill = sim_execution_id (f_OrderID fill) n"
      using f by (intro exI [of _ "sim_counter s + 1"]) simp
    ultimately show ?thesis using ih(1) by (simp add: cl sub case_prod_beta)
  qed
qed simp

text \<open>Execution ids of the simulator are unique: the fills of fewer than \<open>2 ^ 63\<close> submissions
  to a new simulator carry pairwise distinct execution ids, for any order ids (dashes and digits
  included).\<close>

theorem sim_execution_ids_unique:
  assumes "int (length calls) < 2 ^ 63"
  shows "distinct (map f_ExecutionID (fst (sim_session calls (NewSimulatorConnector cfg))))"
  using sim_session_ids [of "NewSimulatorConnector cfg" calls] assms by (simp add: NewSimulatorConnector_def)

theorem sim_execution_ids_unique_witness:
  "distinct (map f_ExecutionID (fst (sim_session
     [(\<lparr> c_now = 1, c_done = False, c_ok = True, c_err = '''', c_rows = None, c_send = (\<lambda>_. Sent) \<rparr>,
       \<lparr> o_OrderID = ''o1'', o_Instrument = ''BTC-USD'', o_Side = SideBuy, o_Quantity = Fin 8, o_Price = Fin 100,
         o_Type = TypeLimit \<rparr>),
      (\<lparr> c_now = 2, c_done = False, c_ok = True, c_err = '''', c_rows = None, c_send = (\<lambda>_. Sent) \<rparr>,
       \<lparr> o_OrderID = ''o1'', o_Instrument = ''BTC-USD'', o_Side = SideBuy, o_Quantity = Fin 8, o_Price = Fin 100,
         o_Type = TypeLimit \<rparr>)]
     (NewSimulatorConnector \<lparr> cfg_FillPrice = Fin 0, cfg_TransactionCost = Fin 1, cfg_TransactionCostBps = Fin 0,
        cfg_Latency = 0, cfg_AlsoEmitOnWS = False \<rparr>))))"
  by (rule sim_execution_ids_unique) simp

end
