(* ===== verification/Algo.thy ===== *)
theory Algo
  imports Simulator "HOL-Library.Sublist"
begin

text \<open>
  \<open>internal/algo/algo.go\<close>: TWAP and VWAP slicing of a parent order over an exchange
  connector. The executor keeps no state of its own; the connector's state is threaded
  through the slices. \<open>Execute\<close> also returns the volume profile of the configuration, which
  \<open>executeVWAP\<close> normalises in place.
\<close>

section \<open>Data\<close>

type_synonym Algorithm = string

abbreviation AlgoTWAP :: Algorithm where "AlgoTWAP \<equiv> ''TWAP''"
abbreviation AlgoVWAP :: Algorithm where "AlgoVWAP \<equiv> ''VWAP''"

record AlgoConfig =
  ac_Algorithm :: Algorithm
  ac_Duration :: duration
  ac_Slices :: int
  ac_VWAPWeights :: "float64 list option"

record AlgoResult =
  ar_ParentOrderID :: string
  ar_Fills :: "ExecutionFill list"
  ar_TotalQty :: float64
  ar_AvgPrice :: float64
  ar_TotalCost :: float64
  ar_SlicesExec :: int
  ar_SlicesFailed :: int
  ar_Duration :: duration

text \<open>The surroundings of one execution: the clock at its start and end, whether
  \<open>ctx.Done()\<close> wins the pause (of the given length) before slice \<open>i\<close>, the context's error,
  and the environment of the \<open>i\<close>-th slice's submission.\<close>

record algo_env =
  ae_start :: time
  ae_end :: time
  ae_pause :: "nat \<Rightarrow> duration \<Rightarrow> bool"
  ae_ctxErr :: goerror
  ae_call :: "nat \<Rightarrow> call"

section \<open>Slicing\<close>

definition slice_id :: "string \<Rightarrow> nat \<Rightarrow> string" where
  "slice_id parent i = parent @ ''-slice-'' @ itoa (int i + 1)"

definition child_order :: "Order \<Rightarrow> nat \<Rightarrow> float64 \<Rightarrow> Order" where
  "child_order parent i qty =
     \<lparr> o_OrderID = slice_id (o_OrderID parent) i, o_Instrument = o_Instrument parent,
       o_Side = o_Side parent, o_Quantity = qty, o_Price = o_Price parent, o_Type = o_Type parent \<rparr>"

definition add_fill :: "ExecutionFill \<Rightarrow> AlgoResult \<Rightarrow> AlgoResult" where
  "add_fill fill r = r\<lparr> ar_Fills := ar_Fills r @ [fill],
     ar_TotalQty := float_add (ar_TotalQty r) (f_Quantity fill),
     ar_TotalCost := float_add (ar_TotalCost r) (f_TransactionCost fill),
     ar_SlicesExec := ar_SlicesExec r + 1 \<rparr>"

text \<open>The loop over the slices; the boolean says whether the context ended it.\<close>

fun slices_loop :: "'x ExchangeConnector \<Rightarrow> algo_env \<Rightarrow> Order \<Rightarrow> duration \<Rightarrow> (nat \<Rightarrow> float64) \<Rightarrow>
    nat list \<Rightarrow> AlgoResult \<Rightarrow> 'x \<Rightarrow> bool \<times> AlgoResult \<times> 'x" where
  "slices_loop C env parent interval qtyFn [] r x = (False, r, x)"
| "slices_loop C env parent interval qtyFn (i # is) r x =
     (if 0 < i \<and> ae_pause env i interval then (True, r, x)
      else if float_le (qtyFn i) (Fin 0) then slices_loop C env parent interval qtyFn is r x
      else (case SubmitOrder C (ae_call env i) (child_order parent i (qtyFn i)) x of
              (Inl e, x') \<Rightarrow> slices_loop C env parent interval qtyFn is
                               (r\<lparr> ar_SlicesFailed := ar_SlicesFailed r + 1 \<rparr>) x'
            | (Inr fill, x') \<Rightarrow> slices_loop C env parent interval qtyFn is (add_fill fill r) x'))"

definition total_notional :: "ExecutionFill list \<Rightarrow> float64" where
  "total_notional fills =
     foldl (\<lambda>acc f. float_add acc (float_mul (f_FillPrice f) (f_Quantity f))) (Fin 0) fills"

definition new_result :: "string \<Rightarrow> AlgoResult" where
  "new_result pid = \<lparr> ar_ParentOrderID = pid, ar_Fills = [], ar_TotalQty = Fin 0, ar_AvgPrice = Fin 0,
     ar_TotalCost = Fin 0, ar_SlicesExec = 0, ar_SlicesFailed = 0, ar_Duration = 0 \<rparr>"

definition executeSlices :: "'x ExchangeConnector \<Rightarrow> algo_env \<Rightarrow> Order \<Rightarrow> int \<Rightarrow> duration \<Rightarrow>
    (nat \<Rightarrow> float64) \<Rightarrow> 'x \<Rightarrow> AlgoResult \<times> goerror option \<times> 'x" where
  "executeSlices C env parent slices interval qtyFn x =
     (case slices_loop C env parent interval qtyFn [0..<nat slices] (new_result (o_OrderID parent)) x of
        (cancelled, r, x') \<Rightarrow>
          let r' = r\<lparr> ar_Duration := time_sub (ae_end env) (ae_start env) \<rparr>
          in if cancelled then (r', Some (ae_ctxErr env), x')
             else if float_gt (ar_TotalQty r') (Fin 0)
             then (r'\<lparr> ar_AvgPrice := float_div (total_notional (ar_Fills r')) (ar_TotalQty r') \<rparr>, None, x')
             else (r', None, x'))"

section \<open>The two algorithms\<close>

definition slice_interval :: "AlgoConfig \<Rightarrow> duration" where
  "slice_interval cfg = ac_Duration cfg sdiv ac_Slices cfg"

definition executeTWAP :: "'x ExchangeConnector \<Rightarrow> algo_env \<Rightarrow> Order \<Rightarrow> AlgoConfig \<Rightarrow> 'x \<Rightarrow>
    AlgoResult \<times> goerror option \<times> 'x" where
  "executeTWAP C env parent cfg x =
     (let sliceQty = float_div (o_Quantity parent) (float_of_int (ac_Slices cfg))
      in executeSlices C env parent (ac_Slices cfg) (slice_interval cfg) (\<lambda>i. sliceQty) x)"

definition defaultVWAPProfile :: "nat \<Rightarrow> float64 list" where
  "defaultVWAPProfile n =
     (let mid = float_div (float_of_int (int n - 1)) (Fin 2) in
      map (\<lambda>i. float_add (Fin (1/2)) (float_mul (Fin (1/2))
                 (float_div (float_abs (float_sub (float_of_int (int i)) mid)) mid))) [0..<n])"

definition normalise :: "float64 list \<Rightarrow> float64 list" where
  "normalise ws = (let total = foldl float_add (Fin 0) ws in map (\<lambda>w. float_div w total) ws)"

text \<open>The profile is normalised in place: if it is the caller's slice, the caller sees the
  normalised weights afterwards.\<close>

definition uses_own_profile :: "AlgoConfig \<Rightarrow> bool" where
  "uses_own_profile cfg = (case ac_VWAPWeights cfg of
     None \<Rightarrow> False | Some ws \<Rightarrow> int (length ws) = ac_Slices cfg)"

definition vwap_weights :: "AlgoConfig \<Rightarrow> float64 list" where
  "vwap_weights cfg = normalise
     (if uses_own_profile cfg then the (ac_VWAPWeights cfg) else defaultVWAPProfile (nat (ac_Slices cfg)))"

definition executeVWAP :: "'x ExchangeConnector \<Rightarrow> algo_env \<Rightarrow> Order \<Rightarrow> AlgoConfig \<Rightarrow> 'x \<Rightarrow>
    AlgoResult \<times> goerror option \<times> 'x" where
  "executeVWAP C env parent cfg x =
     executeSlices C env parent (ac_Slices cfg) (slice_interval cfg)
       (\<lambda>i. float_mul (o_Quantity parent) (vwap_weights cfg ! i)) x"

definition default_config :: "AlgoConfig \<Rightarrow> AlgoConfig" where
  "default_config cfg = cfg\<lparr> ac_Slices := (if ac_Slices cfg < 1 then 5 else ac_Slices cfg),
     ac_Duration := (if ac_Duration cfg = 0 then 5 * Minute else ac_Duration cfg) \<rparr>"

text \<open>\<open>Execute\<close> returns a nil result with the error for an unknown algorithm. The last
  component is the configuration's volume profile afterwards.\<close>

definition Execute :: "'x ExchangeConnector \<Rightarrow> algo_env \<Rightarrow> Order \<Rightarrow> AlgoConfig \<Rightarrow> 'x \<Rightarrow>
    (AlgoResult option \<times> goerror option \<times> 'x) \<times> float64 list option" where
  "Execute C env order cfg0 x =
     (let cfg = default_config cfg0 in
      if ac_Algorithm cfg = AlgoTWAP
      then (case executeTWAP C env order cfg x of (r, e, x') \<Rightarrow>
              ((Some r, e, x'), ac_VWAPWeights cfg0))
      else if ac_Algorithm cfg = AlgoVWAP
      then (case executeVWAP C env order cfg x of (r, e, x') \<Rightarrow>
              ((Some r, e, x'),
               if uses_own_profile cfg then Some (vwap_weights cfg) else ac_VWAPWeights cfg0))
      else ((None, Some (''unknown algorithm: '' @ ac_Algorithm cfg), x), ac_VWAPWeights cfg0))"

section \<open>The slices\<close>

lemma slice_id_inj [simp]: "slice_id p i = slice_id p j \<longleftrightarrow> i = j"
  by (simp add: slice_id_def itoa_def nat_digits_inj) linarith

lemma slice_id_neq_parent [simp]: "slice_id p i \<noteq> p"
  by (simp add: slice_id_def)

lemma child_order_sel [simp]:
  "o_OrderID (child_order p i q) = slice_id (o_OrderID p) i"
  "o_Side (child_order p i q) = o_Side p" "o_Instrument (child_order p i q) = o_Instrument p"
  "o_Quantity (child_order p i q) = q" "o_Price (child_order p i q) = o_Price p"
  "o_Type (child_order p i q) = o_Type p"
  by (simp_all add: child_order_def)

lemma add_fill_sel [simp]:
  "ar_Fills (add_fill f r) = ar_Fills r @ [f]" "ar_SlicesExec (add_fill f r) = ar_SlicesExec r + 1"
  "ar_SlicesFailed (add_fill f r) = ar_SlicesFailed r"
  "ar_ParentOrderID (add_fill f r) = ar_ParentOrderID r"
  "ar_TotalQty (add_fill f r) = float_add (ar_TotalQty r) (f_Quantity f)"
  "ar_TotalCost (add_fill f r) = float_add (ar_TotalCost r) (f_TransactionCost f)"
  by (simp_all add: add_fill_def)

lemma new_result_sel [simp]:
  "ar_Fills (new_result p) = []" "ar_SlicesExec (new_result p) = 0" "ar_SlicesFailed (new_result p) = 0"
  "ar_ParentOrderID (new_result p) = p" "ar_TotalQty (new_result p) = Fin 0"
  "ar_TotalCost (new_result p) = Fin 0"
  by (simp_all add: new_result_def)

text \<open>Counters and totals agree with the fills.\<close>

definition result_inv :: "AlgoResult \<Rightarrow> bool" where
  "result_inv r = (ar_SlicesExec r = int (length (ar_Fills r)) \<and> 0 \<le> ar_SlicesFailed r \<and>
     ar_TotalQty r = foldl (\<lambda>a f. float_add a (f_Quantity f)) (Fin 0) (ar_Fills r) \<and>
     ar_TotalCost r = foldl (\<lambda>a f. float_add a (f_TransactionCost f)) (Fin 0) (ar_Fills r))"

lemma result_inv_steps [simp]:
  "result_inv (new_result p)" "result_inv r \<Longrightarrow> result_inv (add_fill f r)"
  "result_inv r \<Longrightarrow> result_inv (r\<lparr> ar_SlicesFailed := ar_SlicesFailed r + 1 \<rparr>)"
  by (auto simp: result_inv_def)

lemma slices_loop_inv:
  assumes "slices_loop C env p iv q is r x = (b, r', x')" "result_inv r"
  shows "result_inv r' \<and> ar_ParentOrderID r' = ar_ParentOrderID r \<and>
    ar_SlicesExec r' + ar_SlicesFailed r' \<le> ar_SlicesExec r + ar_SlicesFailed r + int (length is)"
  using assms
  by (induction C env p iv q "is" r x rule: slices_loop.induct)
     (fastforce split: if_splits prod.splits sum.splits)+

lemma slices_loop_complete:
  assumes "slices_loop C env p iv q is r x = (False, r', x')" "\<forall>i\<in>set is. \<not> float_le (q i) (Fin 0)"
  shows "ar_SlicesExec r' + ar_SlicesFailed r' = ar_SlicesExec r + ar_SlicesFailed r + int (length is)"
  using assms
  by (induction C env p iv q "is" r x rule: slices_loop.induct)
     (fastforce split: if_splits prod.splits sum.splits)+

context echoing_connector
begin

text \<open>The fills are, in order, those of some of the slices.\<close>

lemma slices_loop_fills:
  assumes "slices_loop C env p iv q is r x = (b, r', x')"
  shows "\<exists>js. subseq js is \<and>
    map f_OrderID (ar_Fills r') = map f_OrderID (ar_Fills r) @ map (slice_id (o_OrderID p)) js"
  using assms
proof (induction "is" arbitrary: r x)
  case (Cons i "is")
  have skip: "\<exists>js. subseq js (i # is) \<and> map f_OrderID (ar_Fills r') =
      map f_OrderID (ar_Fills r'') @ map (slice_id (o_OrderID p)) js"
    if "slices_loop C env p iv q is r'' x'' = (b, r', x')" for r'' x''
    using Cons.IH [OF that] by (meson list_emb_Cons)
  show ?case
  proof (cases "(0 < i \<and> ae_pause env i iv) \<or> float_le (q i) (Fin 0)")
    case True
    then show ?thesis using Cons.prems skip by (auto split: if_splits)
  next
    case False
    obtain res x1 where sub: "SubmitOrder C (ae_call env i) (child_order p i (q i)) x = (res, x1)"
      by fastforce
    show ?thesis
    proof (cases res)
      case (Inl e)
      then show ?thesis using Cons.prems False sub skip by fastforce
    next
      case (Inr fill)
      then have "slices_loop C env p iv q is (add_fill fill r) x1 = (b, r', x')"
        using Cons.prems False sub by (simp split: if_splits)
      then obtain js where "subseq js is" "map f_OrderID (ar_Fills r') =
          map f_OrderID (ar_Fills r) @ f_OrderID fill # map (slice_id (o_OrderID p)) js"
        using Cons.IH by fastforce
      moreover have "f_OrderID fill = slice_id (o_OrderID p) i"
        using submit_echo_id sub Inr by fastforce
      ultimately show ?thesis by (intro exI [of _ "i # js"]) simp
    qed
  qed
qed auto

lemma executeSlices_fills:
  assumes "executeSlices C env p n iv q x = (r, e, x')"
  shows "\<exists>js. subseq js [0..<nat n] \<and> map f_OrderID (ar_Fills r) = map (slice_id (o_OrderID p)) js"
proof -
  obtain b r1 where "slices_loop C env p iv q [0..<nat n] (new_result (o_OrderID p)) x = (b, r1, x')"
    "ar_Fills r = ar_Fills r1"
    using assms by (auto simp: executeSlices_def Let_def split: prod.splits if_splits)
  then show ?thesis using slices_loop_fills by fastforce
qed

lemma executeSlices_distinct_ids:
  assumes "executeSlices C env p n iv q x = (r, e, x')"
  shows "distinct (map f_OrderID (ar_Fills r)) \<and> o_OrderID p \<notin> f_OrderID ` set (ar_Fills r)"
proof -
  obtain js where js: "subseq js [0..<nat n]"
    and ids: "map f_OrderID (ar_Fills r) = map (slice_id (o_OrderID p)) js"
    using executeSlices_fills [OF assms] by blast
  have "distinct js" using js by (metis distinct_upt subseq_conv_nths distinct_nthsI)
  then have "distinct (map (slice_id (o_OrderID p)) js)" by (simp add: distinct_map inj_on_def)
  moreover have "f_OrderID ` set (ar_Fills r) = slice_id (o_OrderID p) ` set js"
    using ids by (metis list.set_map)
  ultimately show ?thesis using ids by (auto simp: slice_id_def)
qed

end

text \<open>On the simulator an undisturbed execution fills every slice.\<close>

definition sim_quiet :: "algo_env \<Rightarrow> SimulatorConnector \<Rightarrow> bool" where
  "sim_quiet env s = (cfg_Latency (sim_cfg s) \<le> 0 \<and> (\<forall>i d. \<not> ae_pause env i d))"

lemma sim_SubmitOrder_quiet:
  assumes "cfg_Latency (sim_cfg s) \<le> 0"
  shows "\<exists>fill s'. sim_SubmitOrder c ord s = (Inr fill, s') \<and> f_OrderID fill = o_OrderID ord \<and>
    f_Quantity fill = o_Quantity ord \<and> sim_cfg s' = sim_cfg s"
  using assms by (auto simp: sim_SubmitOrder_def Let_def)

lemma slices_loop_simulator:
  assumes "sim_quiet env s" "\<forall>i\<in>set is. \<not> float_le (q i) (Fin 0)"
  shows "\<exists>r' s'. slices_loop simulator env p iv q is r s = (False, r', s') \<and>
    map (\<lambda>f. (f_OrderID f, f_Quantity f)) (ar_Fills r') =
      map (\<lambda>f. (f_OrderID f, f_Quantity f)) (ar_Fills r) @ map (\<lambda>i. (slice_id (o_OrderID p) i, q i)) is"
  using assms
proof (induction "is" arbitrary: r s)
  case (Cons i "is")
  obtain fill s1 where sub: "sim_SubmitOrder (ae_call env i) (child_order p i (q i)) s = (Inr fill, s1)"
    "f_OrderID fill = slice_id (o_OrderID p) i" "f_Quantity fill = q i" "sim_cfg s1 = sim_cfg s"
    using sim_SubmitOrder_quiet [of s "ae_call env i" "child_order p i (q i)"] Cons.prems(1)
    by (auto simp: sim_quiet_def)
  have quiet: "sim_quiet env s1" using Cons.prems(1) sub(4) by (simp add: sim_quiet_def)
  from Cons.IH [OF quiet, of "add_fill fill r"] Cons.prems sub(1-3) show ?case
    by (auto simp: sim_quiet_def simulator_def)
qed simp

section \<open>Quantities\<close>

lemma twap_slice_error:
  assumes "fround q = Fin q" "0 \<le> q" "1 \<le> n" "n \<le> 2 ^ 53"
  shows "\<exists>s. float_div (Fin q) (float_of_int n) = Fin s \<and> 0 \<le> s \<and> s \<le> q \<and>
    \<bar>of_int n * s - q\<bar> \<le> q / 2 ^ 53 + of_int n / 2 ^ 1075"
proof -
  let ?x = "q / of_int n"
  have n: "1 \<le> (of_int n :: rat)" using assms(3) by simp
  have x: "0 \<le> ?x" "?x \<le> q" using assms(2) n by (simp_all add: divide_le_eq mult_le_cancel_left1)
  obtain s where s: "fround ?x = Fin s" "0 \<le> s" "s \<le> q"
    using fround_between [OF fround_0 assms(1) x] by blast
  have "of_int n * \<bar>s - ?x\<bar> \<le> of_int n * (?x / 2 ^ 53 + 1 / 2 ^ 1075)"
    using fround_error [OF s(1)] x n by (intro mult_left_mono) (simp_all only: abs_of_nonneg)
  also have "of_int n * (?x / 2 ^ 53 + 1 / 2 ^ 1075) = q / 2 ^ 53 + of_int n / 2 ^ 1075"
    using n by (simp add: distrib_left)
  also have "of_int n * \<bar>s - ?x\<bar> = \<bar>of_int n * s - q\<bar>"
    using n by (simp add: abs_mult_pos' right_diff_distrib)
  finally show ?thesis using s n assms(3,4) by (auto simp: float_of_int_def fround_of_int)
qed

text \<open>Sums of non-negative floats dominate their summands.\<close>

definition nonneg_ok :: "float64 \<Rightarrow> bool" where
  "nonneg_ok x = (float_le (Fin 0) x \<and> float_ok x)"

lemma float_add_ge_left:
  assumes "nonneg_ok x" "nonneg_ok y"
  shows "float_le x (float_add x y)"
proof (cases x)
  case (Fin a)
  then show ?thesis using assms float_add_increasing [of a y] by (simp add: nonneg_ok_def)
qed (use assms in \<open>cases y; auto simp: nonneg_ok_def\<close>)+

lemma float_add_comm: "float_add x y = float_add y x"
  by (cases x; cases y) (auto simp: add.commute)

lemma nonneg_ok_add: "nonneg_ok x \<Longrightarrow> nonneg_ok y \<Longrightarrow> nonneg_ok (float_add x y)"
  by (simp add: nonneg_ok_def float_add_nonneg)

lemma foldl_float_add_ge:
  assumes "nonneg_ok a" "\<forall>w\<in>set ws. nonneg_ok w"
  shows "float_le a (foldl float_add a ws) \<and> (\<forall>w\<in>set ws. float_le w (foldl float_add a ws))"
  using assms
proof (induction ws arbitrary: a)
  case Nil
  then show ?case by (cases a) (auto simp: nonneg_ok_def)
next
  case (Cons w ws)
  have "float_le a (float_add a w)" "float_le w (float_add a w)"
    using Cons.prems float_add_ge_left [of a w] float_add_ge_left [of w a] float_add_comm [of a w]
    by simp_all
  moreover have "nonneg_ok (float_add a w)" using Cons.prems by (simp add: nonneg_ok_add)
  ultimately show ?case using Cons.IH [of "float_add a w"] Cons.prems float_le_trans by fastforce
qed

text \<open>A normalised weight lies in the unit interval, so no slice exceeds the parent order.\<close>

lemma normalise_unit:
  assumes "\<forall>w\<in>set ws. \<exists>a. w = Fin a \<and> 0 < a \<and> fround a = Fin a" "i < length ws"
  shows "\<exists>b. normalise ws ! i = Fin b \<and> 0 \<le> b \<and> b \<le> 1"
proof -
  obtain a where a: "ws ! i = Fin a" "0 < a" "fround a = Fin a" using assms by (metis nth_mem)
  have "\<forall>w\<in>set ws. nonneg_ok w" using assms(1) by (fastforce simp: nonneg_ok_def)
  moreover have "nonneg_ok (Fin 0)" by (simp add: nonneg_ok_def)
  moreover have "Fin a \<in> set ws" using assms(2) a(1) by (metis nth_mem)
  ultimately have "float_le (Fin a) (foldl float_add (Fin 0) ws)"
    using foldl_float_add_ge [of "Fin 0" ws] by blast
  then consider T where "foldl float_add (Fin 0) ws = Fin T" "a \<le> T" | "foldl float_add (Fin 0) ws = PosInf"
    by (cases "foldl float_add (Fin 0) ws") auto
  then show ?thesis
  proof cases
    case 1
    then have "0 \<le> a / T" "a / T \<le> 1" using a by (simp_all add: divide_le_eq)
    from fround_between [OF fround_0 fround_1 this] 1 a assms(2) show ?thesis
      by (auto simp: normalise_def Let_def)
  qed (use a assms(2) in \<open>auto simp: normalise_def Let_def\<close>)
qed

lemma float_mul_unit:
  assumes "0 \<le> b" "b \<le> 1" "0 \<le> q" "fround q = Fin q"
  shows "\<exists>s. float_mul (Fin q) (Fin b) = Fin s \<and> 0 \<le> s \<and> s \<le> q"
  using fround_between [OF fround_0 assms(4), of "q * b"] assms by (auto simp: mult_left_le)

lemma defaultVWAPProfile_range:
  assumes "2 \<le> n" "n \<le> 2 ^ 53" "i < n"
  shows "\<exists>a. defaultVWAPProfile n ! i = Fin a \<and> 1 / 2 \<le> a \<and> a \<le> 1 \<and> fround a = Fin a"
proof -
  define m :: rat where "m = of_int (int n - 1) / 2"
  define d :: rat where "d = of_int (2 * int i - (int n - 1)) / 2"
  have half: "fround (1 / 2) = Fin (1 / 2)" using fround_dyadic [of 1 1] by simp
  have "float_of_int (int n - 1) = Fin (of_int (int n - 1))"
    unfolding float_of_int_def using assms by (intro fround_of_int) simp
  then have m: "0 < m" "float_div (float_of_int (int n - 1)) (Fin 2) = Fin m"
    using assms fround_dyadic [of "int n - 1" 1] by (simp_all add: m_def)
  have "float_of_int (int i) = Fin (of_int (int i))"
    unfolding float_of_int_def using assms by (intro fround_of_int) simp
  moreover have "of_int (int i) - m = d" by (simp add: m_def d_def field_simps)
  moreover have "fround d = Fin d"
    unfolding d_def using fround_dyadic [of "2 * int i - (int n - 1)" 1] assms by simp
  ultimately have d: "float_sub (float_of_int (int i)) (Fin m) = Fin d" by (simp add: float_sub_def)
  have le: "0 \<le> \<bar>d\<bar> / m" "\<bar>d\<bar> / m \<le> 1"
    using m(1) assms by (simp_all add: divide_le_eq abs_le_iff m_def d_def)
  obtain c where c: "fround (\<bar>d\<bar> / m) = Fin c" "0 \<le> c" "c \<le> 1"
    using fround_between [OF fround_0 fround_1 le] by blast
  obtain e where e: "fround (1 / 2 * c) = Fin e" "0 \<le> e" "e \<le> 1 / 2"
    using fround_between [OF fround_0 half, of "1 / 2 * c"] c by auto
  obtain a where a: "fround (1 / 2 + e) = Fin a" "1 / 2 \<le> a" "a \<le> 1"
    using fround_between [OF half fround_1, of "1 / 2 + e"] e by auto
  have "defaultVWAPProfile n ! i = Fin a"
    using assms(3) m d a(1) c(1) e(1) by (simp add: defaultVWAPProfile_def Let_def)
  with a show ?thesis using float_ok_fround [of "1 / 2 + e"] by auto
qed

section \<open>Properties of an execution\<close>

lemma default_config_sel [simp]:
  "ac_Algorithm (default_config cfg) = ac_Algorithm cfg"
  "ac_VWAPWeights (default_config cfg) = ac_VWAPWeights cfg"
  "1 \<le> ac_Slices (default_config cfg)"
  by (simp_all add: default_config_def)

lemma executeSlices_inv:
  assumes "executeSlices C env p n iv q x = (r, e, x')"
  shows "result_inv r \<and> ar_ParentOrderID r = o_OrderID p \<and>
    ar_SlicesExec r + ar_SlicesFailed r \<le> int (nat n) \<and>
    (e = None \<longrightarrow> (\<forall>i<nat n. \<not> float_le (q i) (Fin 0)) \<longrightarrow>
       ar_SlicesExec r + ar_SlicesFailed r = int (nat n))"
proof -
  obtain b r1 where l: "slices_loop C env p iv q [0..<nat n] (new_result (o_OrderID p)) x = (b, r1, x')"
    "ar_Fills r = ar_Fills r1" "ar_SlicesExec r = ar_SlicesExec r1" "ar_SlicesFailed r = ar_SlicesFailed r1"
    "ar_ParentOrderID r = ar_ParentOrderID r1" "ar_TotalQty r = ar_TotalQty r1" "ar_TotalCost r = ar_TotalCost r1"
    "e = None \<longleftrightarrow> \<not> b"
    using assms by (auto simp: executeSlices_def Let_def split: prod.splits if_splits)
  have "result_inv r = result_inv r1" by (simp add: result_inv_def l)
  with l slices_loop_inv [OF l(1)] slices_loop_complete [of C env p iv q "[0..<nat n]" "new_result (o_OrderID p)" x r1 x']
  show ?thesis by auto
qed

lemma Execute_cases:
  assumes "Execute C env ord cfg x = ((Some r, e, x'), ws)"
  obtains iv q where "executeSlices C env ord (ac_Slices (default_config cfg)) iv q x = (r, e, x')"
  using assms
  by (auto simp: Execute_def Let_def executeTWAP_def executeVWAP_def split: if_splits prod.splits)

text \<open>C37. The accounting of an algorithmic execution is consistent for every connector and
  every environment: the executed-slice counter is the number of fills, the totals are the
  float64 sums over the fills in order, and executed and failed slices never exceed the
  number of slices.\<close>

theorem Execute_accounting:
  assumes "Execute C env ord cfg x = ((Some r, e, x'), ws)"
  shows "ar_ParentOrderID r = o_OrderID ord \<and>
    ar_SlicesExec r = int (length (ar_Fills r)) \<and>
    ar_TotalQty r = foldl (\<lambda>a f. float_add a (f_Quantity f)) (Fin 0) (ar_Fills r) \<and>
    ar_TotalCost r = foldl (\<lambda>a f. float_add a (f_TransactionCost f)) (Fin 0) (ar_Fills r) \<and>
    0 \<le> ar_SlicesFailed r \<and>
    ar_SlicesExec r + ar_SlicesFailed r \<le> ac_Slices (default_config cfg)"
proof -
  obtain iv q where ex: "executeSlices C env ord (ac_Slices (default_config cfg)) iv q x = (r, e, x')"
    using assms by (rule Execute_cases)
  have "0 \<le> ac_Slices (default_config cfg)" using default_config_sel(3) [of cfg] by linarith
  with executeSlices_inv [OF ex] show ?thesis by (simp add: result_inv_def)
qed

text \<open>A concrete execution: a parent of 8 in four slices on the simulator.\<close>

definition demo_call :: call where
  "demo_call = \<lparr> c_now = 0, c_done = False, c_ok = True, c_err = '''', c_rows = None,
                 c_send = (\<lambda>_. Sent) \<rparr>"

definition demo_env :: algo_env where
  "demo_env = \<lparr> ae_start = 0, ae_end = 7 * Second, ae_pause = (\<lambda>_ _. False), ae_ctxErr = '''',
                ae_call = (\<lambda>_. demo_call) \<rparr>"

definition demo_order :: Order where
  "demo_order = \<lparr> o_OrderID = ''o1'', o_Instrument = ''BTC-USD'', o_Side = SideBuy,
     o_Quantity = Fin 8, o_Price = Fin 100, o_Type = TypeLimit \<rparr>"

definition demo_sim :: SimulatorConnector where
  "demo_sim = NewSimulatorConnector \<lparr> cfg_FillPrice = Fin 0, cfg_TransactionCost = Fin 1,
     cfg_TransactionCostBps = Fin 0, cfg_Latency = 0, cfg_AlsoEmitOnWS = False \<rparr>"

definition demo_twap :: AlgoConfig where
  "demo_twap = \<lparr> ac_Algorithm = AlgoTWAP, ac_Duration = 8 * Second, ac_Slices = 4,
                 ac_VWAPWeights = None \<rparr>"

lemmas demo_defs = demo_call_def demo_env_def demo_order_def demo_sim_def demo_twap_def
  NewSimulatorConnector_def simulator_def sim_SubmitOrder_def sim_fill_def sim_txcost_def sim_price_def
  sim_execution_id_def Execute_def default_config_def executeTWAP_def executeSlices_def
  slice_interval_def new_result_def add_fill_def child_order_def slice_id_def total_notional_def
  itoa_small wrap64_def float_of_int_def float_simps Let_def

lemma demo_Execute:
  "(case Execute simulator demo_env demo_order demo_twap demo_sim of ((Some r, e, x'), ws) \<Rightarrow>
     e = None \<and>
     map f_OrderID (ar_Fills r) = [''o1-slice-1'', ''o1-slice-2'', ''o1-slice-3'', ''o1-slice-4''] \<and>
     ar_TotalQty r = Fin 8 \<and> ar_AvgPrice r = Fin 100 | _ \<Rightarrow> False)"
  by (simp add: demo_defs upt_rec)

theorem Execute_accounting_witness:
  "\<exists>r e x' ws. Execute simulator demo_env demo_order demo_twap demo_sim = ((Some r, e, x'), ws) \<and>
     ar_SlicesExec r = int (length (ar_Fills r)) \<and> length (ar_Fills r) = 4"
proof -
  obtain r e x' ws where ex: "Execute simulator demo_env demo_order demo_twap demo_sim = ((Some r, e, x'), ws)"
    and len: "length (map f_OrderID (ar_Fills r)) = 4"
    using demo_Execute by (auto split: prod.splits option.splits)
  from Execute_accounting [OF ex] ex len show ?thesis by auto
qed

text \<open>No two fills of one execution carry the same order id, and none carries the
  parent's id: on a connector whose fills echo the submitted order (the simulator does), every
  fill belongs to a different slice.\<close>

theorem Execute_distinct_slices:
  assumes "Execute simulator env ord cfg s = ((Some r, e, s'), ws)"
  shows "distinct (map f_OrderID (ar_Fills r)) \<and> o_OrderID ord \<notin> f_OrderID ` set (ar_Fills r)"
  using assms by (rule Execute_cases) (rule sim.executeSlices_distinct_ids)

theorem Execute_distinct_slices_witness:
  "\<exists>r e x' ws. Execute simulator demo_env demo_order demo_twap demo_sim = ((Some r, e, x'), ws) \<and>
     distinct (map f_OrderID (ar_Fills r)) \<and> length (ar_Fills r) = 4"
proof -
  obtain r e x' ws where ex: "Execute simulator demo_env demo_order demo_twap demo_sim = ((Some r, e, x'), ws)"
    and len: "length (map f_OrderID (ar_Fills r)) = 4"
    using demo_Execute by (auto split: prod.splits option.splits)
  from Execute_distinct_slices [OF ex] ex len show ?thesis by auto
qed

text \<open>C36. TWAP conserves the quantity up to one rounding: on the simulator, with no
  cancellation, \<open>n\<close> slices are executed in order, all of the same size \<open>s\<close>, and \<open>n * s\<close>
  differs from the parent quantity by at most one unit in the last place (and the underflow
  threshold); no slice exceeds the parent.\<close>

theorem twap_conserves_quantity:
  assumes "ac_Algorithm cfg = AlgoTWAP" "ac_Slices (default_config cfg) = n" "n \<le> 2 ^ 53"
    and "sim_quiet env s0" "o_Quantity ord = Fin q" "fround q = Fin q" "0 < q"
    and "float_div (Fin q) (float_of_int n) \<noteq> Fin 0"
  shows "\<exists>r s' s. Execute simulator env ord cfg s0 = ((Some r, None, s'), ac_VWAPWeights cfg) \<and>
    map (\<lambda>f. (f_OrderID f, f_Quantity f)) (ar_Fills r) =
      map (\<lambda>i. (slice_id (o_OrderID ord) i, Fin s)) [0..<nat n] \<and>
    0 < s \<and> s \<le> q \<and> \<bar>of_int n * s - q\<bar> \<le> q / 2 ^ 53 + of_int n / 2 ^ 1075"
proof -
  have n: "1 \<le> n" using default_config_sel(3) [of cfg] assms(2) by simp
  obtain s where s: "float_div (Fin q) (float_of_int n) = Fin s" "0 \<le> s" "s \<le> q"
      "\<bar>of_int n * s - q\<bar> \<le> q / 2 ^ 53 + of_int n / 2 ^ 1075"
    using twap_slice_error [OF assms(6) _ n assms(3)] assms(7) by force
  with assms(8) have pos: "0 < s" by auto
  then obtain r s' where loop: "slices_loop simulator env ord (slice_interval (default_config cfg)) (\<lambda>_. Fin s)
      [0..<nat n] (new_result (o_OrderID ord)) s0 = (False, r, s')"
    "map (\<lambda>f. (f_OrderID f, f_Quantity f)) (ar_Fills r) = map (\<lambda>i. (slice_id (o_OrderID ord) i, Fin s)) [0..<nat n]"
    using slices_loop_simulator [OF assms(4), of "[0..<nat n]" "\<lambda>_. Fin s" ord
      "slice_interval (default_config cfg)" "new_result (o_OrderID ord)"] by auto
  have "\<exists>r'. ar_Fills r' = ar_Fills r \<and>
      Execute simulator env ord cfg s0 = ((Some r', None, s'), ac_VWAPWeights cfg)"
    using assms(1,2,5) s(1) loop(1)
    by (cases "float_gt (ar_TotalQty r) (Fin 0)")
       (auto simp: Execute_def executeTWAP_def executeSlices_def Let_def)
  then obtain r' where r': "ar_Fills r' = ar_Fills r"
      "Execute simulator env ord cfg s0 = ((Some r', None, s'), ac_VWAPWeights cfg)" by blast
  show ?thesis
    by (intro exI [of _ r'] exI [of _ s'] exI [of _ s] conjI) (simp_all only: r' loop(2) pos s)
qed

theorem twap_conserves_quantity_witness:
  "\<exists>r s' s. Execute simulator demo_env demo_order demo_twap demo_sim = ((Some r, None, s'), None) \<and>
    map f_Quantity (ar_Fills r) = [Fin s, Fin s, Fin s, Fin s] \<and> s \<le> 8"
proof -
  have "\<exists>r s' s. Execute simulator demo_env demo_order demo_twap demo_sim =
      ((Some r, None, s'), ac_VWAPWeights demo_twap) \<and>
    map (\<lambda>f. (f_OrderID f, f_Quantity f)) (ar_Fills r) =
      map (\<lambda>i. (slice_id (o_OrderID demo_order) i, Fin s)) [0..<nat 4] \<and>
    0 < s \<and> s \<le> 8 \<and> \<bar>of_int 4 * s - 8\<bar> \<le> 8 / 2 ^ 53 + of_int 4 / 2 ^ 1075"
    by (rule twap_conserves_quantity) (simp_all add: demo_defs sim_quiet_def)
  then obtain r s' s where ex: "Execute simulator demo_env demo_order demo_twap demo_sim =
      ((Some r, None, s'), ac_VWAPWeights demo_twap)" "s \<le> 8"
    and m: "map (\<lambda>f. (f_OrderID f, f_Quantity f)) (ar_Fills r) =
      map (\<lambda>i. (slice_id (o_OrderID demo_order) i, Fin s)) [0..<nat 4]" by blast
  from arg_cong [OF m, of "map snd"] have "map f_Quantity (ar_Fills r) = [Fin s, Fin s, Fin s, Fin s]"
    by (simp add: comp_def upt_rec)
  with ex show ?thesis by (auto simp: demo_twap_def)
qed

text \<open>With the default volume profile and at least two slices, every VWAP slice is a
  finite non-negative quantity that does not exceed the parent quantity.\<close>

theorem vwap_slice_bounded:
  assumes "\<not> uses_own_profile cfg" "2 \<le> ac_Slices cfg" "ac_Slices cfg \<le> 2 ^ 53"
    and "int i < ac_Slices cfg" "fround q = Fin q" "0 \<le> q"
  shows "\<exists>s. float_mul (Fin q) (vwap_weights cfg ! i) = Fin s \<and> 0 \<le> s \<and> s \<le> q"
proof -
  let ?n = "nat (ac_Slices cfg)"
  have n: "2 \<le> ?n" "?n \<le> 2 ^ 53" using assms(2,3) by simp_all
  have len: "length (defaultVWAPProfile ?n) = ?n" by (simp add: defaultVWAPProfile_def Let_def)
  have "\<exists>a. w = Fin a \<and> 0 < a \<and> fround a = Fin a" if w: "w \<in> set (defaultVWAPProfile ?n)" for w
  proof -
    obtain j where "j < ?n" "w = defaultVWAPProfile ?n ! j" using w len by (metis in_set_conv_nth)
    with defaultVWAPProfile_range [OF n] obtain a where "w = Fin a" "1 / 2 \<le> a" "fround a = Fin a" by metis
    then show ?thesis by (intro exI [of _ a]) simp
  qed
  moreover have "i < length (defaultVWAPProfile ?n)" using len assms(4) by simp
  ultimately obtain b where "vwap_weights cfg ! i = Fin b" "0 \<le> b" "b \<le> 1"
    using normalise_unit [of "defaultVWAPProfile ?n" i] assms(1) by (auto simp: vwap_weights_def)
  with float_mul_unit [of b q] assms(5,6) show ?thesis by auto
qed

theorem vwap_slice_bounded_witness:
  "\<exists>s. float_mul (Fin 7) (vwap_weights
      \<lparr> ac_Algorithm = AlgoVWAP, ac_Duration = 0, ac_Slices = 3, ac_VWAPWeights = None \<rparr> ! 1) = Fin s \<and>
    0 \<le> s \<and> s \<le> 7"
  by (rule vwap_slice_bounded) (simp_all add: uses_own_profile_def float_simps)

text \<open>A VWAP order with a single slice and no profile of its own is submitted with the
  quantity NaN: the centre of the default profile is 0, its distance is 0/0, and NaN passes
  the guard \<open>childQty <= 0\<close>.\<close>

theorem vwap_single_slice_nan:
  assumes "ac_Slices cfg = 1" "\<not> uses_own_profile cfg" "o_Quantity ord = Fin q"
  shows "\<exists>r. executeVWAP C env ord cfg x =
      (r, None, snd (SubmitOrder C (ae_call env 0) (child_order ord 0 NaN) x)) \<and>
    ar_Fills r = (case fst (SubmitOrder C (ae_call env 0) (child_order ord 0 NaN) x) of
                    Inl e \<Rightarrow> [] | Inr fill \<Rightarrow> [fill])"
proof -
  have "vwap_weights cfg = [NaN]"
    using assms(1,2) by (simp add: vwap_weights_def defaultVWAPProfile_def normalise_def float_sub_def float_of_int_def)
  then have "(\<lambda>i. float_mul (o_Quantity ord) (vwap_weights cfg ! i)) 0 = NaN"
    using assms(3) by simp
  then show ?thesis
    using assms(1) by (auto simp: executeVWAP_def executeSlices_def Let_def split: prod.splits sum.splits)
qed

theorem vwap_single_slice_nan_witness:
  "\<exists>r. executeVWAP simulator demo_env demo_order
      \<lparr> ac_Algorithm = AlgoVWAP, ac_Duration = 8 * Second, ac_Slices = 1, ac_VWAPWeights = None \<rparr> demo_sim =
      (r, None, snd (sim_SubmitOrder demo_call (child_order demo_order 0 NaN) demo_sim)) \<and>
    map f_Quantity (ar_Fills r) = [NaN]"
  using vwap_single_slice_nan [of "\<lparr> ac_Algorithm = AlgoVWAP, ac_Duration = 8 * Second, ac_Slices = 1,
      ac_VWAPWeights = None \<rparr>" demo_order 8 simulator demo_env demo_sim]
  by (auto simp: uses_own_profile_def demo_defs)

end
