(* ===== verification/Gateway.thy ===== *)
theory Gateway
  imports Ports Tracker Limiter Risk Algo
begin

text \<open>
  \<open>internal/gateway/gateway.go\<close>: the gateway's state, the handling of one execution intent
  from its ingestion to the commit of its offset, the handling of one fill of the user-data
  stream, and the drain. Each handler is a function of the ports' operations, of the
  environment of the calls it makes, and of the gateway's state.
\<close>

section \<open>State\<close>

text \<open>The counters of \<open>internal/telemetry\<close> the handlers touch: the label tuples in the order
  of their increments, and the active-orders gauge.\<close>

record Metrics =
  m_RiskRejections :: "(string \<times> string) list"
  m_OrdersSubmitted :: "(string \<times> OrderSide \<times> OrderType) list"
  m_OrdersFilled :: "(string \<times> OrderSide) list"
  m_ActiveOrders :: int

record ('s, 'x, 'p, 'm) Gateway =
  gw_consumer :: 'm
  gw_producer :: 'p
  gw_connector :: 'x
  gw_tracker :: "'s OrderTracker"
  gw_limiter :: TokenBucketLimiter
  gw_risk :: "RiskPolicy option"
  gw_halt :: Halt
  gw_algoExec :: bool
  gw_algoCfg :: "AlgoConfig option"
  gw_maxDailyOrders :: int
  gw_maxDailyBuys :: int
  gw_maxDailySells :: int
  gw_ready :: bool
  gw_submitTimeout :: duration
  gw_publishRetries :: int
  gw_publishBackoff :: duration
  gw_intake :: "bool option"
  gw_metrics :: Metrics

text \<open>The implementations behind the gateway's interfaces.\<close>

record ('s, 'x, 'p, 'k, 'm) ports =
  pt_store :: "'s OrderStore"
  pt_connector :: "'x ExchangeConnector"
  pt_producer :: "'p FillPublisher"
  pt_consumer :: "('k, 'm) IntentConsumer"

definition zero_metrics :: Metrics where
  "zero_metrics = \<lparr> m_RiskRejections = [], m_OrdersSubmitted = [], m_OrdersFilled = [],
                    m_ActiveOrders = 0 \<rparr>"

definition NewGateway :: "'m \<Rightarrow> 'p \<Rightarrow> 'x \<Rightarrow> 's OrderTracker \<Rightarrow> TokenBucketLimiter \<Rightarrow>
    RiskPolicy option \<Rightarrow> Halt option \<Rightarrow> int \<Rightarrow> ('s, 'x, 'p, 'm) Gateway" where
  "NewGateway consumer producer connector tracker limiter risk halt maxDaily =
     \<lparr> gw_consumer = consumer, gw_producer = producer, gw_connector = connector,
       gw_tracker = tracker, gw_limiter = limiter, gw_risk = risk,
       gw_halt = (case halt of None \<Rightarrow> NewHalt | Some h \<Rightarrow> h),
       gw_algoExec = False, gw_algoCfg = None,
       gw_maxDailyOrders = maxDaily, gw_maxDailyBuys = 0, gw_maxDailySells = 0, gw_ready = False,
       gw_submitTimeout = 0, gw_publishRetries = 3, gw_publishBackoff = 100 * Millisecond,
       gw_intake = None, gw_metrics = zero_metrics \<rparr>"

definition WithSubmitTimeout :: "duration \<Rightarrow> ('s, 'x, 'p, 'm) Gateway \<Rightarrow> ('s, 'x, 'p, 'm) Gateway" where
  "WithSubmitTimeout d gw = gw\<lparr> gw_submitTimeout := d \<rparr>"

definition WithPublishRetry ::
    "int \<Rightarrow> duration \<Rightarrow> ('s, 'x, 'p, 'm) Gateway \<Rightarrow> ('s, 'x, 'p, 'm) Gateway" where
  "WithPublishRetry retries backoff gw =
     gw\<lparr> gw_publishRetries := (if retries < 0 then 0 else retries), gw_publishBackoff := backoff \<rparr>"

definition WithAlgo :: "AlgoConfig \<Rightarrow> ('s, 'x, 'p, 'm) Gateway \<Rightarrow> ('s, 'x, 'p, 'm) Gateway" where
  "WithAlgo cfg gw = gw\<lparr> gw_algoExec := True, gw_algoCfg := Some cfg \<rparr>"

definition WithDailySideLimits ::
    "int \<Rightarrow> int \<Rightarrow> ('s, 'x, 'p, 'm) Gateway \<Rightarrow> ('s, 'x, 'p, 'm) Gateway" where
  "WithDailySideLimits maxBuys maxSells gw =
     gw\<lparr> gw_maxDailyBuys := maxBuys, gw_maxDailySells := maxSells \<rparr>"

section \<open>Publishing with retry\<close>

text \<open>The loop of \<open>publishFillWithRetry\<close> from attempt \<open>k\<close> on, with \<open>n\<close> attempts left of \<open>maxAttempts\<close>.
  \<open>io k\<close> is the environment of attempt \<open>k\<close>; its \<open>c_done\<close> says whether the context is done
  before the attempt (in the \<open>select\<close> if the backoff is positive, in the \<open>ctx.Err()\<close> test
  otherwise). The list is the sequence of pauses begun.\<close>

fun publish_loop :: "'p FillPublisher \<Rightarrow> (nat \<Rightarrow> call) \<Rightarrow> ExecutionFill \<Rightarrow> int \<Rightarrow> nat \<Rightarrow> nat \<Rightarrow>
    duration \<Rightarrow> goerror option \<Rightarrow> 'p \<Rightarrow> goerror option \<times> duration list \<times> 'p" where
  "publish_loop P io fill maxAttempts k 0 backoff lastErr p =
     (Some (''publish failed after '' @ itoa maxAttempts @ '' attempts: '' @
        (case lastErr of None \<Rightarrow> ''%!w(<nil>)'' | Some e \<Rightarrow> e)), [], p)"
| "publish_loop P io fill maxAttempts k (Suc n) backoff lastErr p =
     (let pause = (if 0 < k \<and> 0 < backoff then [backoff] else []) in
      if 0 < k \<and> c_done (io k) then (Some (''publish retry aborted: '' @ c_err (io k)), pause, p)
      else
        let backoff' = (if 0 < k \<and> 0 < backoff then wrap64 (backoff * 2) else backoff) in
        case PublishFill P (io k) fill p of
          (None, p') \<Rightarrow> (None, pause, p')
        | (Some e, p') \<Rightarrow>
            (case publish_loop P io fill maxAttempts (Suc k) n backoff' (Some e) p' of
               (r, pauses, p'') \<Rightarrow> (r, pause @ pauses, p'')))"

definition publishFillWithRetry :: "('s, 'x, 'p, 'k, 'm) ports \<Rightarrow> (nat \<Rightarrow> call) \<Rightarrow> ExecutionFill \<Rightarrow>
    ('s, 'x, 'p, 'm) Gateway \<Rightarrow> goerror option \<times> ('s, 'x, 'p, 'm) Gateway" where
  "publishFillWithRetry pt io fill gw =
     (case publish_loop (pt_producer pt) io fill (gw_publishRetries gw + 1) 0
             (nat (gw_publishRetries gw + 1)) (gw_publishBackoff gw) None (gw_producer gw) of
        (r, pauses, p') \<Rightarrow> (r, gw\<lparr> gw_producer := p' \<rparr>))"

section \<open>Pre-trade risk\<close>

text \<open>The environment of the handling of one intent: one entry per call it makes to the
  store, the connector, the publisher and the consumer, and the rounds of the rate limiter.
  \<open>ie_upd\<close> are the two store calls (read and write) of the \<open>UpdateOrderState\<close> that follows the
  submission, \<open>ie_updFilled\<close> those of the one that books an immediate fill.\<close>

record intent_env =
  ie_count :: call
  ie_countSide :: call
  ie_rounds :: "(time \<times> bool) list"
  ie_add :: call
  ie_submit :: call
  ie_algo :: algo_env
  ie_upd :: "call \<times> call"
  ie_updFilled :: "call \<times> call"
  ie_costs :: call
  ie_pub :: "nat \<Rightarrow> call"
  ie_commit :: call

text \<open>\<open>checkRiskLimits\<close>: the policy, then the daily counts; a store that cannot be read
  rejects. \<open>uni\<close> stands for the Unicode tables of \<open>strings.ToUpper\<close>.\<close>

definition check_side :: "'s OrderStore \<Rightarrow> call \<Rightarrow> 's \<Rightarrow> OrderSide \<Rightarrow> int \<Rightarrow> string \<Rightarrow> bool \<times> string" where
  "check_side S c s side cap reason =
     (case st_GetDailyOrderCountBySide S c side s of
        Inl e \<Rightarrow> (False, ''db_unreachable'')
      | Inr n \<Rightarrow> if cap \<le> n then (False, reason) else (True, ''''))"

definition check_daily :: "'s OrderStore \<Rightarrow> intent_env \<Rightarrow> Order \<Rightarrow> 's \<Rightarrow>
    ('s, 'x, 'p, 'm) Gateway \<Rightarrow> bool \<times> string" where
  "check_daily S env intent s gw =
     (case st_GetDailyOrderCount S (ie_count env) s of
        Inl e \<Rightarrow> (False, ''db_unreachable'')
      | Inr n \<Rightarrow>
          if gw_maxDailyOrders gw \<le> n then (False, ''daily_count_exceeded'')
          else if o_Side intent = SideBuy \<and> 0 < gw_maxDailyBuys gw
          then check_side S (ie_countSide env) s SideBuy (gw_maxDailyBuys gw) ''daily_buy_count_exceeded''
          else if o_Side intent = SideSell \<and> 0 < gw_maxDailySells gw
          then check_side S (ie_countSide env) s SideSell (gw_maxDailySells gw) ''daily_sell_count_exceeded''
          else (True, ''''))"

definition checkRiskLimits :: "('s, 'x, 'p, 'k, 'm) ports \<Rightarrow> (string \<Rightarrow> string) \<Rightarrow> intent_env \<Rightarrow> Order \<Rightarrow>
    ('s, 'x, 'p, 'm) Gateway \<Rightarrow> bool \<times> string" where
  "checkRiskLimits pt uni env intent gw =
     (case CheckIntent uni (gw_risk gw) intent of
        (False, reason) \<Rightarrow> (False, reason)
      | (True, _) \<Rightarrow>
          (case tr_store (gw_tracker gw) of
             None \<Rightarrow> (True, '''')
           | Some s \<Rightarrow> check_daily (pt_store pt) env intent s gw))"

section \<open>Handling one intent\<close>

text \<open>How the handling of an intent ends.\<close>

datatype outcome =
    RejHalted
  | RejInvalid string
  | RejDuplicate
  | RejRisk string
  | Throttled goerror
  | SubmitFailed goerror
  | Accepted
  | FillPublished ExecutionFill
  | PublishFailed ExecutionFill goerror

text \<open>The guards before the limiter, in their order: kill switch, order id, duplicate, risk.\<close>

definition screen :: "('s, 'x, 'p, 'k, 'm) ports \<Rightarrow> (string \<Rightarrow> string) \<Rightarrow> intent_env \<Rightarrow> Order \<Rightarrow>
    ('s, 'x, 'p, 'm) Gateway \<Rightarrow> outcome option" where
  "screen pt uni env intent gw =
     (if IsHalted (gw_halt gw) then Some RejHalted
      else case ValidateOrderID (o_OrderID intent) of
        Some reason \<Rightarrow> Some (RejInvalid reason)
      | None \<Rightarrow>
          if tracker_GetOrderState (o_OrderID intent) (gw_tracker gw) \<noteq> None then Some RejDuplicate
          else (case checkRiskLimits pt uni env intent gw of
                  (False, reason) \<Rightarrow> Some (RejRisk reason)
                | (True, _) \<Rightarrow> None))"

definition count_rejection :: "Order \<Rightarrow> string \<Rightarrow> ('s, 'x, 'p, 'm) Gateway \<Rightarrow> ('s, 'x, 'p, 'm) Gateway" where
  "count_rejection intent reason gw =
     gw\<lparr> gw_metrics := (gw_metrics gw)\<lparr> m_RiskRejections :=
           m_RiskRejections (gw_metrics gw) @ [(o_Instrument intent, reason)] \<rparr> \<rparr>"

definition add_active :: "int \<Rightarrow> ('s, 'x, 'p, 'm) Gateway \<Rightarrow> ('s, 'x, 'p, 'm) Gateway" where
  "add_active d gw =
     gw\<lparr> gw_metrics := (gw_metrics gw)\<lparr> m_ActiveOrders := m_ActiveOrders (gw_metrics gw) + d \<rparr> \<rparr>"

definition track :: "('s OrderTracker \<Rightarrow> 's OrderTracker) \<Rightarrow>
    ('s, 'x, 'p, 'm) Gateway \<Rightarrow> ('s, 'x, 'p, 'm) Gateway" where
  "track f gw = gw\<lparr> gw_tracker := f (gw_tracker gw) \<rparr>"

definition commit_msg :: "('s, 'x, 'p, 'k, 'm) ports \<Rightarrow> call \<Rightarrow> 'k \<Rightarrow>
    ('s, 'x, 'p, 'm) Gateway \<Rightarrow> ('s, 'x, 'p, 'm) Gateway" where
  "commit_msg pt c msg gw = gw\<lparr> gw_consumer := snd (Commit (pt_consumer pt) c msg (gw_consumer gw)) \<rparr>"

text \<open>The body of each rejecting branch: the metric, the record of the order (not for an
  invalid or duplicate id), the commit.\<close>

fun reject :: "('s, 'x, 'p, 'k, 'm) ports \<Rightarrow> intent_env \<Rightarrow> Order \<Rightarrow> 'k \<Rightarrow> outcome \<Rightarrow>
    ('s, 'x, 'p, 'm) Gateway \<Rightarrow> ('s, 'x, 'p, 'm) Gateway" where
  "reject pt env intent msg RejHalted gw =
     commit_msg pt (ie_commit env) msg
       (track (AddOrder (pt_store pt) (ie_add env) intent StateRejected)
         (count_rejection intent ''operator_halt'' gw))"
| "reject pt env intent msg (RejInvalid reason) gw =
     commit_msg pt (ie_commit env) msg (count_rejection intent reason gw)"
| "reject pt env intent msg RejDuplicate gw =
     commit_msg pt (ie_commit env) msg (count_rejection intent ReasonOrderIDDuplicate gw)"
| "reject pt env intent msg (RejRisk reason) gw =
     commit_msg pt (ie_commit env) msg
       (track (AddOrder (pt_store pt) (ie_add env) intent StateRejected)
         (count_rejection intent reason gw))"
| "reject pt env intent msg _ gw = gw"

text \<open>The submission: through the algorithm if one is configured, otherwise directly. The
  algorithm's result is condensed into its last fill with the total quantity and the average
  price; without fills it is the zero fill.\<close>

definition algo_fill :: "AlgoResult \<Rightarrow> ExecutionFill" where
  "algo_fill r = (if ar_Fills r = [] then empty_fill
     else (last (ar_Fills r))\<lparr> f_Quantity := ar_TotalQty r, f_FillPrice := ar_AvgPrice r \<rparr>)"

definition submit_intent :: "('s, 'x, 'p, 'k, 'm) ports \<Rightarrow> intent_env \<Rightarrow> Order \<Rightarrow>
    ('s, 'x, 'p, 'm) Gateway \<Rightarrow> (goerror + ExecutionFill) \<times> ('s, 'x, 'p, 'm) Gateway" where
  "submit_intent pt env intent gw =
     (case (gw_algoExec gw, gw_algoCfg gw) of
        (True, Some cfg) \<Rightarrow>
          (case Execute (pt_connector pt) (ie_algo env) intent cfg (gw_connector gw) of
             ((res, e, x'), ws) \<Rightarrow>
               (case e of
                  Some err \<Rightarrow> Inl err
                | None \<Rightarrow> Inr (case res of None \<Rightarrow> empty_fill | Some r \<Rightarrow> algo_fill r),
                gw\<lparr> gw_connector := x', gw_algoCfg := Some (cfg\<lparr> ac_VWAPWeights := ws \<rparr>) \<rparr>))
      | _ \<Rightarrow>
          (case SubmitOrder (pt_connector pt) (ie_submit env) intent (gw_connector gw) of
             (r, x') \<Rightarrow> (r, gw\<lparr> gw_connector := x' \<rparr>)))"

text \<open>Metrics of a submission and of a fill.\<close>

definition count_submitted :: "Order \<Rightarrow> ('s, 'x, 'p, 'm) Gateway \<Rightarrow> ('s, 'x, 'p, 'm) Gateway" where
  "count_submitted intent gw =
     gw\<lparr> gw_metrics := (gw_metrics gw)\<lparr> m_OrdersSubmitted := m_OrdersSubmitted (gw_metrics gw) @
           [(o_Instrument intent, o_Side intent, o_Type intent)] \<rparr> \<rparr>"

definition count_filled :: "ExecutionFill \<Rightarrow> ('s, 'x, 'p, 'm) Gateway \<Rightarrow> ('s, 'x, 'p, 'm) Gateway" where
  "count_filled fill gw =
     gw\<lparr> gw_metrics := (gw_metrics gw)\<lparr> m_OrdersFilled := m_OrdersFilled (gw_metrics gw) @
           [(f_Instrument fill, f_Side fill)] \<rparr> \<rparr>"

text \<open>\<open>RecordFillCosts\<close> on the tracker's store, if it has one.\<close>

definition record_costs :: "'s OrderStore \<Rightarrow> call \<Rightarrow> string \<Rightarrow> float64 \<Rightarrow> float64 \<Rightarrow>
    's OrderTracker \<Rightarrow> 's OrderTracker" where
  "record_costs S c oid cost slippage t =
     t\<lparr> tr_store := map_option (\<lambda>s. snd (st_RecordFillCosts S c oid cost slippage s)) (tr_store t) \<rparr>"

text \<open>The branch for an immediate fill: book it as FILLED, record its costs, publish it.\<close>

definition book_immediate :: "('s, 'x, 'p, 'k, 'm) ports \<Rightarrow> intent_env \<Rightarrow> Order \<Rightarrow> ExecutionFill \<Rightarrow>
    ('s, 'x, 'p, 'm) Gateway \<Rightarrow> ('s, 'x, 'p, 'm) Gateway" where
  "book_immediate pt env intent fill gw =
     track (record_costs (pt_store pt) (ie_costs env) (f_OrderID fill) (f_TransactionCost fill)
              (float_sub (f_FillPrice fill) (o_Price intent)))
       (track (\<lambda>t. snd (UpdateOrderState (pt_store pt) (fst (ie_updFilled env)) (snd (ie_updFilled env))
                          (f_OrderID fill) StateFilled t))
         (add_active (- 1) (count_filled fill gw)))"

text \<open>What follows the submission: on an error the order is REJECTED and the offset
  committed; otherwise it is SUBMITTED, and the offset is committed unless an immediate fill
  could not be published.\<close>

definition settle :: "('s, 'x, 'p, 'k, 'm) ports \<Rightarrow> intent_env \<Rightarrow> Order \<Rightarrow> 'k \<Rightarrow>
    goerror + ExecutionFill \<Rightarrow> ('s, 'x, 'p, 'm) Gateway \<Rightarrow> outcome \<times> ('s, 'x, 'p, 'm) Gateway" where
  "settle pt env intent msg res gw =
     (let upd = (\<lambda>st. track (\<lambda>t. snd (UpdateOrderState (pt_store pt) (fst (ie_upd env)) (snd (ie_upd env))
                                        (o_OrderID intent) st t)))
      in case res of
           Inl err \<Rightarrow> (SubmitFailed err, commit_msg pt (ie_commit env) msg (add_active (- 1) (upd StateRejected gw)))
         | Inr fill \<Rightarrow>
             let gw1 = count_submitted intent (upd StateSubmitted gw) in
             if float_gt (f_Quantity fill) (Fin 0)
             then (case publishFillWithRetry pt (ie_pub env) fill (book_immediate pt env intent fill gw1) of
                     (Some e, gw2) \<Rightarrow> (PublishFailed fill e, gw2)
                   | (None, gw2) \<Rightarrow> (FillPublished fill, commit_msg pt (ie_commit env) msg gw2))
             else (Accepted, commit_msg pt (ie_commit env) msg gw1))"

text \<open>Registration as PENDING, submission and settlement of an intent that passed the guards
  and the limiter.\<close>

definition register :: "('s, 'x, 'p, 'k, 'm) ports \<Rightarrow> intent_env \<Rightarrow> Order \<Rightarrow>
    ('s, 'x, 'p, 'm) Gateway \<Rightarrow> ('s, 'x, 'p, 'm) Gateway" where
  "register pt env intent gw =
     add_active 1 (track (AddOrder (pt_store pt) (ie_add env) intent StatePending) gw)"

definition process :: "('s, 'x, 'p, 'k, 'm) ports \<Rightarrow> intent_env \<Rightarrow> Order \<Rightarrow> 'k \<Rightarrow>
    ('s, 'x, 'p, 'm) Gateway \<Rightarrow> outcome \<times> ('s, 'x, 'p, 'm) Gateway" where
  "process pt env intent msg gw =
     (case submit_intent pt env intent (register pt env intent gw) of
        (res, gw') \<Rightarrow> settle pt env intent msg res gw')"

text \<open>The handling of one intent; \<open>None\<close> while the limiter has not returned.\<close>

definition handle_intent :: "('s, 'x, 'p, 'k, 'm) ports \<Rightarrow> (string \<Rightarrow> string) \<Rightarrow> intent_env \<Rightarrow> Order \<Rightarrow> 'k \<Rightarrow>
    ('s, 'x, 'p, 'm) Gateway \<Rightarrow> (outcome \<times> ('s, 'x, 'p, 'm) Gateway) option" where
  "handle_intent pt uni env intent msg gw0 =
     (let gw = gw0\<lparr> gw_ready := True \<rparr> in
      case screen pt uni env intent gw of
        Some rej \<Rightarrow> Some (rej, reject pt env intent msg rej gw)
      | None \<Rightarrow>
          (case limiter_Wait (ie_rounds env) (gw_limiter gw) of
             None \<Rightarrow> None
           | Some (Some e, tb) \<Rightarrow> Some (Throttled e, gw\<lparr> gw_limiter := tb \<rparr>)
           | Some (None, tb) \<Rightarrow> Some (process pt env intent msg (gw\<lparr> gw_limiter := tb \<rparr>))))"

text \<open>One iteration of the ingestion worker: it ends when the intake is closed or the fetch
  was cancelled, and otherwise goes on. \<open>is_canceled\<close> is \<open>errors.Is(err, context.Canceled)\<close>.\<close>

datatype iteration = WorkerExit | FetchError goerror | Handled outcome

definition intake_iteration :: "('s, 'x, 'p, 'k, 'm) ports \<Rightarrow> (string \<Rightarrow> string) \<Rightarrow> (goerror \<Rightarrow> bool) \<Rightarrow>
    bool \<Rightarrow> call \<Rightarrow> intent_env \<Rightarrow> ('s, 'x, 'p, 'm) Gateway \<Rightarrow>
    (iteration \<times> ('s, 'x, 'p, 'm) Gateway) option" where
  "intake_iteration pt uni is_canceled intakeDone fetch env gw =
     (if intakeDone then Some (WorkerExit, gw)
      else case FetchIntent (pt_consumer pt) fetch (gw_consumer gw) of
        (Inl e, m') \<Rightarrow> Some (if is_canceled e then WorkerExit else FetchError e, gw\<lparr> gw_consumer := m' \<rparr>)
      | (Inr (intent, msg), m') \<Rightarrow>
          (case handle_intent pt uni env intent msg (gw\<lparr> gw_consumer := m' \<rparr>) of
             None \<Rightarrow> None
           | Some (out, gw') \<Rightarrow> Some (Handled out, gw')))"

section \<open>Handling one fill of the user-data stream\<close>

record fill_env =
  fe_upd :: call
  fe_costs :: call
  fe_pub :: "nat \<Rightarrow> call"

definition fill_target :: "ExecutionFill \<Rightarrow> OrderState" where
  "fill_target fill = (if f_OrderStatus fill = '''' then StateFilled else f_OrderStatus fill)"

definition fill_slippage :: "ExecutionFill \<Rightarrow> 's OrderTracker \<Rightarrow> float64" where
  "fill_slippage fill t = (case GetOrder (f_OrderID fill) t of
     Some intent \<Rightarrow> float_sub (f_FillPrice fill) (o_Price intent) | None \<Rightarrow> f_FillPrice fill)"

definition book_fill :: "'s OrderStore \<Rightarrow> fill_env \<Rightarrow> ExecutionFill \<Rightarrow> 's OrderTracker \<Rightarrow> 's OrderTracker" where
  "book_fill S env fill t =
     (let t1 = snd (UpdateOrderStateAndQty S (fe_upd env) (f_OrderID fill) (fill_target fill)
                      (f_Quantity fill) t)
      in record_costs S (fe_costs env) (f_OrderID fill) (f_TransactionCost fill) (fill_slippage fill t1) t1)"

definition handle_fill :: "('s, 'x, 'p, 'k, 'm) ports \<Rightarrow> fill_env \<Rightarrow> ExecutionFill \<Rightarrow>
    ('s, 'x, 'p, 'm) Gateway \<Rightarrow> goerror option \<times> ('s, 'x, 'p, 'm) Gateway" where
  "handle_fill pt env fill gw =
     (let gw1 = track (book_fill (pt_store pt) env fill) (count_filled fill gw);
          gw2 = (if fill_target fill \<in> {StateFilled, StateCanceled, StateRejected}
                 then add_active (- 1) gw1 else gw1)
      in publishFillWithRetry pt (fe_pub env) fill gw2)"

text \<open>One iteration of the fills worker. A channel closed while the context is live is an
  abnormal exit, which \<open>Start\<close> returns as its error.\<close>

datatype fill_event = FillsCtxDone | FillsClosed bool | FillReceived ExecutionFill

datatype fill_result = FillsStop | FillsAbnormal goerror | FillHandled "goerror option"

definition fills_iteration :: "('s, 'x, 'p, 'k, 'm) ports \<Rightarrow> fill_env \<Rightarrow> fill_event \<Rightarrow>
    ('s, 'x, 'p, 'm) Gateway \<Rightarrow> fill_result \<times> ('s, 'x, 'p, 'm) Gateway" where
  "fills_iteration pt env ev gw =
     (case ev of
        FillsCtxDone \<Rightarrow> (FillsStop, gw)
      | FillsClosed ctxLive \<Rightarrow>
          (if ctxLive then FillsAbnormal ''fills worker exited: user-data stream closed unexpectedly''
           else FillsStop, gw)
      | FillReceived fill \<Rightarrow>
          (case handle_fill pt env fill gw of (e, gw') \<Rightarrow> (FillHandled e, gw')))"

section \<open>Drain\<close>

text \<open>The polling loop of \<open>Drain\<close>: each round reads the tracker, then the clock. The result is
  the number of orders left; \<open>None\<close> if these rounds do not end it.\<close>

fun drain_loop :: "time \<Rightarrow> ('s OrderTracker \<times> time) list \<Rightarrow> nat option" where
  "drain_loop deadline [] = None"
| "drain_loop deadline ((t, now) # rounds) =
     (let active = length (GetAllActiveOrders t) in
      if active = 0 then Some 0
      else if \<not> now < deadline then Some active
      else drain_loop deadline rounds)"

definition Drain :: "duration \<Rightarrow> time \<Rightarrow> ('s OrderTracker \<times> time) list \<Rightarrow> ('s, 'x, 'p, 'm) Gateway \<Rightarrow>
    (nat \<times> ('s, 'x, 'p, 'm) Gateway) option" where
  "Drain timeout now rounds gw =
     (case gw_intake gw of
        None \<Rightarrow> Some (0, gw)
      | Some _ \<Rightarrow> map_option (\<lambda>n. (n, gw\<lparr> gw_intake := Some True \<rparr>)) (drain_loop (now + timeout) rounds))"

section \<open>The retry loop\<close>

lemmas gw_updates [gateway_simps] = count_rejection_def add_active_def track_def commit_msg_def
  count_submitted_def count_filled_def

definition next_backoff :: "nat \<Rightarrow> duration \<Rightarrow> duration" where
  "next_backoff k b = (if 0 < k \<and> 0 < b then wrap64 (b * 2) else b)"

lemma publish_loop_retry:
  assumes "\<not> (0 < k \<and> c_done (io k))" "PublishFill P (io k) fill p = (Some err, p')"
  shows "publish_loop P io fill mx k (Suc n) b e p =
    (case publish_loop P io fill mx (Suc k) n (next_backoff k b) (Some err) p' of
       (r, pauses, q) \<Rightarrow> (r, (if 0 < k \<and> 0 < b then [b] else []) @ pauses, q))"
  using assms by (auto simp: Let_def next_backoff_def)

lemma publish_loop_last:
  assumes "\<not> (0 < k \<and> c_done (io k))" "PublishFill P (io k) fill p = (None, p')"
  shows "publish_loop P io fill mx k (Suc n) b e p = (None, if 0 < k \<and> 0 < b then [b] else [], p')"
  using assms by (simp add: Let_def)

lemma publish_loop_abort:
  assumes "0 < k" "c_done (io k)"
  shows "publish_loop P io fill mx k (Suc n) b e p =
    (Some (''publish retry aborted: '' @ c_err (io k)), if 0 < b then [b] else [], p)"
  using assms by (simp add: Let_def)

declare publish_loop.simps(2) [simp del]

lemmas publish_loop_cases = publish_loop_retry publish_loop_last publish_loop_abort

text \<open>If the outcome of an attempt depends only on its environment, the loop succeeds exactly
  if some attempt does before the context is done.\<close>

lemma publish_loop_iff:
  assumes "\<And>i p. fst (PublishFill P (io i) fill p) = None \<longleftrightarrow> good i"
  shows "fst (publish_loop P io fill mx k n b e p) = None \<longleftrightarrow>
    (\<exists>i. k \<le> i \<and> i < k + n \<and> good i \<and> (\<forall>j. k \<le> j \<and> j \<le> i \<and> 0 < j \<longrightarrow> \<not> c_done (io j)))"
    (is "_ = (\<exists>i. ?Q k n i)")
proof (induction n arbitrary: k b e p)
  case (Suc n)
  obtain r p' where pub: "PublishFill P (io k) fill p = (r, p')" by fastforce
  have r: "r = None \<longleftrightarrow> good k" using assms [of k p] pub by simp
  show ?case
  proof (cases "0 < k \<and> c_done (io k)")
    case True
    then show ?thesis by (fastforce simp: publish_loop_cases)
  next
    case False
    show ?thesis
    proof (cases r)
      case None
      with r False pub show ?thesis by (auto simp: publish_loop_cases intro!: exI [of _ k])
    next
      case (Some err)
      have "fst (publish_loop P io fill mx k (Suc n) b e p) = None \<longleftrightarrow> (\<exists>i. ?Q (Suc k) n i)"
        using publish_loop_retry [of k io P fill p err p' mx n b e] False Some pub
        by (simp only: case_prod_beta fst_conv Suc.IH simp_thms)
      also have "\<dots> = (\<exists>i. ?Q k (Suc n) i)"
      proof (rule ex_cong1)
        fix i
        have "(Suc k \<le> j \<and> j \<le> i \<and> 0 < j \<longrightarrow> \<not> c_done (io j)) =
              (k \<le> j \<and> j \<le> i \<and> 0 < j \<longrightarrow> \<not> c_done (io j))" for j
          using False by (cases "j = k") auto
        then have eq: "(\<forall>j. Suc k \<le> j \<and> j \<le> i \<and> 0 < j \<longrightarrow> \<not> c_done (io j)) =
              (\<forall>j. k \<le> j \<and> j \<le> i \<and> 0 < j \<longrightarrow> \<not> c_done (io j))" by (rule all_cong1)
        have "Suc k \<le> i \<and> i < Suc k + n \<and> good i \<longleftrightarrow> k \<le> i \<and> i < k + Suc n \<and> good i"
          using Some r by (cases "i = k") auto
        with eq show "?Q (Suc k) n i = ?Q k (Suc n) i" by blast
      qed
      finally show ?thesis .
    qed
  qed
qed simp

text \<open>The pauses double from the configured backoff.\<close>

lemma publish_loop_pauses:
  assumes "0 < b" "b * 2 ^ n < 2 ^ 63" "0 < k"
  shows "\<exists>m\<le>n. fst (snd (publish_loop P io fill mx k n b e p)) = map (\<lambda>i. b * 2 ^ i) [0..<m]"
  using assms
proof (induction n arbitrary: k b e p)
  case (Suc n)
  obtain r p' where pub: "PublishFill P (io k) fill p = (r, p')" by fastforce
  have one: "\<exists>m\<le>Suc n. [b] = map (\<lambda>i. b * 2 ^ i) [0..<m]" by (intro exI [of _ 1]) simp
  have "b * 2 \<le> b * 2 * 2 ^ n" using Suc.prems(1) by simp
  also have "\<dots> < 2 ^ 63" using Suc.prems(2) by (simp add: mult.assoc)
  finally have w: "next_backoff k b = b * 2"
    using Suc.prems unfolding next_backoff_def by (simp add: wrap64_id)
  show ?case
  proof (cases "c_done (io k) \<or> r = None")
    case True
    then show ?thesis using one pub Suc.prems
      by (cases "c_done (io k)") (simp_all add: publish_loop_cases)
  next
    case False
    then obtain err where err: "r = Some err" by blast
    obtain m where m: "m \<le> n"
      "fst (snd (publish_loop P io fill mx (Suc k) n (b * 2) (Some err) p')) = map (\<lambda>i. b * 2 * 2 ^ i) [0..<m]"
      using Suc.IH [of "b * 2" "Suc k" "Some err" p'] Suc.prems by (auto simp: mult.assoc)
    have "map (\<lambda>i. b * 2 ^ i) [0..<Suc m] = b # map (\<lambda>i. b * 2 * 2 ^ i) [0..<m]"
      by (simp only: upt_conv_Cons [of 0 "Suc m"] map_Suc_upt [symmetric]) (simp add: comp_def)
    with False err pub w m Suc.prems show ?thesis
      by (intro exI [of _ "Suc m"]) (simp add: publish_loop_retry case_prod_beta)
  qed
qed simp

context fill_publisher
begin

text \<open>Every attempt appends the fill at most once, and a nil result means that the last one did.\<close>

lemma publish_loop_delivered:
  "\<exists>j\<le>n. delivered (snd (snd (publish_loop P io fill mx k n b e p))) = delivered p @ replicate j (entry fill) \<and>
     (fst (publish_loop P io fill mx k n b e p) = None \<longrightarrow> 0 < j)"
proof (induction n arbitrary: k b e p)
  case (Suc n)
  obtain r p' where pub: "PublishFill P (io k) fill p = (r, p')" by fastforce
  show ?case
  proof (cases "0 < k \<and> c_done (io k)")
    case True
    then show ?thesis by (auto simp: publish_loop_cases)
  next
    case False
    show ?thesis
    proof (cases r)
      case None
      then show ?thesis using pub False publish_ok
        by (auto simp: publish_loop_cases intro!: exI [of _ 1])
    next
      case (Some err)
      define b' where "b' = next_backoff k b"
      have "delivered p' = delivered p \<or> delivered p' = delivered p @ [entry fill]"
        using publish_err pub Some by blast
      then obtain i where i: "i \<le> 1" "delivered p' = delivered p @ replicate i (entry fill)"
        by (metis One_nat_def append.right_neutral le_numeral_extra(4) replicate_0 replicate_Suc zero_le)
      obtain j where j: "j \<le> n"
        "delivered (snd (snd (publish_loop P io fill mx (Suc k) n b' (Some err) p'))) = delivered p' @ replicate j (entry fill)"
        "fst (publish_loop P io fill mx (Suc k) n b' (Some err) p') = None \<longrightarrow> 0 < j"
        using Suc.IH by blast
      have "delivered p @ replicate i (entry fill) @ replicate j (entry fill) = delivered p @ replicate (i + j) (entry fill)"
        by (simp add: replicate_add)
      with i j False Some pub show ?thesis
        by (intro exI [of _ "i + j"]) (simp add: publish_loop_retry case_prod_beta b'_def)
    qed
  qed
qed simp

end

section \<open>Frame conditions of the phases\<close>

definition reaches_exchange :: "outcome \<Rightarrow> bool" where
  "reaches_exchange out = (case out of
     SubmitFailed _ \<Rightarrow> True | Accepted \<Rightarrow> True | FillPublished _ \<Rightarrow> True | PublishFailed _ _ \<Rightarrow> True
   | _ \<Rightarrow> False)"

lemma reaches_exchange_simps [simp]:
  "\<not> reaches_exchange RejHalted" "\<not> reaches_exchange (RejInvalid s)" "\<not> reaches_exchange RejDuplicate"
  "\<not> reaches_exchange (RejRisk s)" "\<not> reaches_exchange (Throttled e)" "reaches_exchange (SubmitFailed e)"
  "reaches_exchange Accepted" "reaches_exchange (FillPublished f)" "reaches_exchange (PublishFailed f e)"
  by (simp_all add: reaches_exchange_def)

lemma reject_frame [simp]:
  "gw_connector (reject pt env i msg out gw) = gw_connector gw"
  "gw_producer (reject pt env i msg out gw) = gw_producer gw"
  "gw_limiter (reject pt env i msg out gw) = gw_limiter gw"
  "gw_halt (reject pt env i msg out gw) = gw_halt gw"
  "gw_maxDailyOrders (reject pt env i msg out gw) = gw_maxDailyOrders gw"
  by (cases out; simp add: gateway_simps)+

lemma publishFillWithRetry_frame [simp]:
  "gw_tracker (snd (publishFillWithRetry pt io f gw)) = gw_tracker gw"
  "gw_consumer (snd (publishFillWithRetry pt io f gw)) = gw_consumer gw"
  "gw_connector (snd (publishFillWithRetry pt io f gw)) = gw_connector gw"
  "gw_limiter (snd (publishFillWithRetry pt io f gw)) = gw_limiter gw"
  "gw_halt (snd (publishFillWithRetry pt io f gw)) = gw_halt gw"
  "gw_metrics (snd (publishFillWithRetry pt io f gw)) = gw_metrics gw"
  "gw_maxDailyOrders (snd (publishFillWithRetry pt io f gw)) = gw_maxDailyOrders gw"
  by (simp_all add: publishFillWithRetry_def case_prod_beta)

lemma submit_intent_frame [simp]:
  "gw_tracker (snd (submit_intent pt env i gw)) = gw_tracker gw"
  "gw_consumer (snd (submit_intent pt env i gw)) = gw_consumer gw"
  "gw_producer (snd (submit_intent pt env i gw)) = gw_producer gw"
  "gw_limiter (snd (submit_intent pt env i gw)) = gw_limiter gw"
  "gw_halt (snd (submit_intent pt env i gw)) = gw_halt gw"
  "gw_maxDailyOrders (snd (submit_intent pt env i gw)) = gw_maxDailyOrders gw"
  by (simp_all add: submit_intent_def case_prod_beta split: bool.splits option.splits)

text \<open>The effect of the settlement, by the result of the submission.\<close>

lemma settle_error:
  "settle pt env i msg (Inl err) gw =
     (SubmitFailed err, commit_msg pt (ie_commit env) msg (add_active (- 1)
        (track (\<lambda>t. snd (UpdateOrderState (pt_store pt) (fst (ie_upd env)) (snd (ie_upd env))
                           (o_OrderID i) StateRejected t)) gw)))"
  by (simp add: settle_def Let_def)

lemma settle_cases:
  assumes "settle pt env i msg res gw = (out, gw')"
  obtains (failed) err where "res = Inl err" "out = SubmitFailed err"
  | (accepted) fill where "res = Inr fill" "out = Accepted" "\<not> float_gt (f_Quantity fill) (Fin 0)"
  | (published) fill where "res = Inr fill" "out = FillPublished fill" "float_gt (f_Quantity fill) (Fin 0)"
  | (unpublished) fill e where "res = Inr fill" "out = PublishFailed fill e" "float_gt (f_Quantity fill) (Fin 0)"
  using assms by (auto simp: settle_def Let_def split: sum.splits if_splits prod.splits option.splits)

lemma settle_frame [simp]:
  "gw_connector (snd (settle pt env i msg res gw)) = gw_connector gw"
  "gw_limiter (snd (settle pt env i msg res gw)) = gw_limiter gw"
  "gw_halt (snd (settle pt env i msg res gw)) = gw_halt gw"
  "gw_maxDailyOrders (snd (settle pt env i msg res gw)) = gw_maxDailyOrders gw"
  by (simp_all add: settle_def Let_def book_immediate_def gateway_simps publishFillWithRetry_def
        case_prod_beta split: sum.splits option.splits)

lemma record_costs_sel [simp]:
  "tr_orders (record_costs S c oid x y t) = tr_orders t" "tr_states (record_costs S c oid x y t) = tr_states t"
  by (simp_all add: record_costs_def)

text \<open>The tracker's orders and states after the settlement: the intent's order takes the state
  of its branch, and an immediate fill marks the order it names as FILLED.\<close>

definition settled_states :: "Order \<Rightarrow> outcome \<Rightarrow> (string \<Rightarrow> OrderState option) \<Rightarrow> string \<Rightarrow> OrderState option" where
  "settled_states i out m = (case out of
     SubmitFailed _ \<Rightarrow> m(o_OrderID i \<mapsto> StateRejected)
   | Accepted \<Rightarrow> m(o_OrderID i \<mapsto> StateSubmitted)
   | FillPublished f \<Rightarrow> m(o_OrderID i \<mapsto> StateSubmitted, f_OrderID f \<mapsto> StateFilled)
   | PublishFailed f _ \<Rightarrow> m(o_OrderID i \<mapsto> StateSubmitted, f_OrderID f \<mapsto> StateFilled)
   | _ \<Rightarrow> m)"

lemma settle_tracker:
  assumes "settle pt env i msg res gw = (out, gw')"
  shows "tr_orders (gw_tracker gw') = tr_orders (gw_tracker gw)"
    and "map_of (tr_states (gw_tracker gw')) = settled_states i out (map_of (tr_states (gw_tracker gw)))"
proof -
  note simps = settle_def Let_def book_immediate_def gateway_simps publishFillWithRetry_def
    case_prod_beta tracker_simps settled_states_def
  show "tr_orders (gw_tracker gw') = tr_orders (gw_tracker gw)"
    using assms by (auto simp: simps split: sum.splits option.splits if_splits)
  show "map_of (tr_states (gw_tracker gw')) = settled_states i out (map_of (tr_states (gw_tracker gw)))"
    using assms by (auto simp: simps split: sum.splits option.splits if_splits)
qed

text \<open>The consumer: settled intents are committed, except after a failed publish.\<close>

lemma settle_consumer:
  assumes "settle pt env i msg res gw = (out, gw')"
  shows "gw_consumer gw' = (case out of PublishFailed _ _ \<Rightarrow> gw_consumer gw
     | _ \<Rightarrow> snd (Commit (pt_consumer pt) (ie_commit env) msg (gw_consumer gw)))"
  using assms
  by (auto simp: settle_def Let_def book_immediate_def gateway_simps publishFillWithRetry_def
        case_prod_beta split: sum.splits option.splits if_splits)

text \<open>The publisher is reached by the immediate fill only.\<close>

lemma settle_producer:
  assumes "settle pt env i msg res gw = (out, gw')"
  shows "case out of
      FillPublished f \<Rightarrow> (\<exists>gw1. gw_producer gw1 = gw_producer gw \<and> gw_publishRetries gw1 = gw_publishRetries gw \<and>
         gw_producer gw' = gw_producer (snd (publishFillWithRetry pt (ie_pub env) f gw1)) \<and>
         fst (publishFillWithRetry pt (ie_pub env) f gw1) = None)
    | PublishFailed f e \<Rightarrow> (\<exists>gw1. gw_producer gw1 = gw_producer gw \<and> gw_publishRetries gw1 = gw_publishRetries gw \<and>
         gw_producer gw' = gw_producer (snd (publishFillWithRetry pt (ie_pub env) f gw1)) \<and>
         fst (publishFillWithRetry pt (ie_pub env) f gw1) = Some e)
    | _ \<Rightarrow> gw_producer gw' = gw_producer gw"
  using assms
proof (cases rule: settle_cases)
  case (published fill)
  let ?g = "book_immediate pt env i fill (count_submitted i (track (\<lambda>t. snd (UpdateOrderState (pt_store pt)
      (fst (ie_upd env)) (snd (ie_upd env)) (o_OrderID i) StateSubmitted t)) gw))"
  have "gw_producer ?g = gw_producer gw" "gw_publishRetries ?g = gw_publishRetries gw"
    by (simp_all add: book_immediate_def gateway_simps)
  with published assms show ?thesis
    by (auto simp: settle_def Let_def commit_msg_def split: prod.splits option.splits intro!: exI [of _ ?g])
next
  case (unpublished fill e)
  let ?g = "book_immediate pt env i fill (count_submitted i (track (\<lambda>t. snd (UpdateOrderState (pt_store pt)
      (fst (ie_upd env)) (snd (ie_upd env)) (o_OrderID i) StateSubmitted t)) gw))"
  have "gw_producer ?g = gw_producer gw" "gw_publishRetries ?g = gw_publishRetries gw"
    by (simp_all add: book_immediate_def gateway_simps)
  with unpublished assms show ?thesis
    by (auto simp: settle_def Let_def split: prod.splits option.splits intro!: exI [of _ ?g])
qed (use assms in \<open>auto simp: settle_def Let_def gateway_simps\<close>)

section \<open>The handler as a whole\<close>

lemma register_sel [simp]:
  "gw_consumer (register pt env i gw) = gw_consumer gw" "gw_producer (register pt env i gw) = gw_producer gw"
  "gw_connector (register pt env i gw) = gw_connector gw" "gw_limiter (register pt env i gw) = gw_limiter gw"
  "gw_halt (register pt env i gw) = gw_halt gw" "gw_maxDailyOrders (register pt env i gw) = gw_maxDailyOrders gw"
  "gw_publishRetries (register pt env i gw) = gw_publishRetries gw"
  "gw_tracker (register pt env i gw) = AddOrder (pt_store pt) (ie_add env) i StatePending (gw_tracker gw)"
  by (simp_all add: register_def gateway_simps)

lemma screen_outcome:
  "screen pt uni env i gw = Some out \<Longrightarrow>
     (out = RejHalted \<and> IsHalted (gw_halt gw)) \<or>
     (\<not> IsHalted (gw_halt gw) \<and> (\<exists>r. out = RejInvalid r \<and> ValidateOrderID (o_OrderID i) = Some r)) \<or>
     (out = RejDuplicate \<and> \<not> IsHalted (gw_halt gw) \<and> ValidateOrderID (o_OrderID i) = None \<and>
        o_OrderID i \<in> dom (map_of (tr_states (gw_tracker gw)))) \<or>
     (\<exists>r. out = RejRisk r \<and> \<not> IsHalted (gw_halt gw) \<and> checkRiskLimits pt uni env i gw = (False, r) \<and>
        o_OrderID i \<notin> dom (map_of (tr_states (gw_tracker gw))))"
  by (auto simp: screen_def tracker_GetOrderState_def split: if_splits option.splits prod.splits bool.splits)

lemma screen_pass:
  "screen pt uni env i gw = None \<longleftrightarrow>
     \<not> IsHalted (gw_halt gw) \<and> ValidateOrderID (o_OrderID i) = None \<and>
     o_OrderID i \<notin> dom (map_of (tr_states (gw_tracker gw))) \<and> fst (checkRiskLimits pt uni env i gw)"
  by (auto simp: screen_def tracker_GetOrderState_def split: option.splits prod.splits bool.splits)

lemma screen_ready [simp]:
  "screen pt uni env i (gw\<lparr> gw_ready := b \<rparr>) = screen pt uni env i gw"
proof -
  have "check_daily S env i s (gw\<lparr> gw_ready := b \<rparr>) = check_daily S env i s gw" for S s
    by (cases "st_GetDailyOrderCount S (ie_count env) s") (simp_all add: check_daily_def)
  then have "checkRiskLimits pt uni env i (gw\<lparr> gw_ready := b \<rparr>) = checkRiskLimits pt uni env i gw"
    by (simp add: checkRiskLimits_def split: prod.split bool.split option.split)
  then show ?thesis by (auto simp: screen_def split: option.split)
qed

text \<open>The three ways through the handler.\<close>

lemma handle_intent_cases:
  assumes "handle_intent pt uni env i msg gw = Some (out, gw')"
  obtains (rejected) "screen pt uni env i gw = Some out" "gw' = reject pt env i msg out (gw\<lparr> gw_ready := True \<rparr>)"
  | (throttled) e tb where "screen pt uni env i gw = None"
      "limiter_Wait (ie_rounds env) (gw_limiter gw) = Some (Some e, tb)" "out = Throttled e"
      "gw' = gw\<lparr> gw_ready := True, gw_limiter := tb \<rparr>"
  | (processed) tb res gw1 where "screen pt uni env i gw = None"
      "limiter_Wait (ie_rounds env) (gw_limiter gw) = Some (None, tb)"
      "submit_intent pt env i (register pt env i (gw\<lparr> gw_ready := True, gw_limiter := tb \<rparr>)) = (res, gw1)"
      "settle pt env i msg res gw1 = (out, gw')" "reaches_exchange out"
proof (cases "screen pt uni env i gw")
  case (Some rej)
  with assms show ?thesis by (intro rejected) (auto simp: handle_intent_def Let_def)
next
  case None
  obtain e tb where w: "limiter_Wait (ie_rounds env) (gw_limiter gw) = Some (e, tb)"
    using assms None by (auto simp: handle_intent_def Let_def split: option.splits)
  show ?thesis
  proof (cases e)
    case (Some err)
    with assms None w show ?thesis by (intro throttled) (auto simp: handle_intent_def Let_def)
  next
    case none: None
    let ?g = "gw\<lparr> gw_ready := True, gw_limiter := tb \<rparr>"
    obtain res gw1 where sub: "submit_intent pt env i (register pt env i ?g) = (res, gw1)" by fastforce
    have st: "settle pt env i msg res gw1 = (out, gw')"
      using assms None w none sub by (simp add: handle_intent_def Let_def process_def)
    then have "reaches_exchange out" by (cases rule: settle_cases) auto
    with None w none sub st show ?thesis by (intro processed) simp_all
  qed
qed

lemma submit_intent_Pair:
  assumes "submit_intent pt env i gw = (res, gw')"
  shows "gw_tracker gw' = gw_tracker gw" "gw_consumer gw' = gw_consumer gw"
    "gw_producer gw' = gw_producer gw" "gw_limiter gw' = gw_limiter gw" "gw_halt gw' = gw_halt gw"
    "gw_maxDailyOrders gw' = gw_maxDailyOrders gw"
  using submit_intent_frame [of pt env i gw] assms by simp_all

lemma settle_Pair:
  assumes "settle pt env i msg res gw = (out, gw')"
  shows "gw_connector gw' = gw_connector gw" "gw_limiter gw' = gw_limiter gw" "gw_halt gw' = gw_halt gw"
    "gw_maxDailyOrders gw' = gw_maxDailyOrders gw"
  using settle_frame [of pt env i msg res gw] assms by simp_all

text \<open>A rejected or throttled intent reaches neither the exchange nor the broker.\<close>

lemma handle_intent_not_reached:
  assumes "handle_intent pt uni env i msg gw = Some (out, gw')" "\<not> reaches_exchange out"
  shows "gw_connector gw' = gw_connector gw \<and> gw_producer gw' = gw_producer gw"
  using assms by (cases rule: handle_intent_cases) auto

text \<open>A submitted one passed every guard and was given a token.\<close>

lemma handle_intent_reached:
  assumes "handle_intent pt uni env i msg gw = Some (out, gw')" "reaches_exchange out"
  shows "\<not> IsHalted (gw_halt gw) \<and> ValidateOrderID (o_OrderID i) = None \<and>
    o_OrderID i \<notin> dom (map_of (tr_states (gw_tracker gw))) \<and> fst (checkRiskLimits pt uni env i gw) \<and>
    limiter_Wait (ie_rounds env) (gw_limiter gw) = Some (None, gw_limiter gw')"
  using assms
proof (cases rule: handle_intent_cases)
  case rejected
  then show ?thesis using assms(2) screen_outcome [of pt uni env i gw out] by auto
next
  case (processed tb res gw1)
  then show ?thesis
    using submit_intent_Pair(4) [OF processed(3)] settle_Pair(2) [OF processed(4)] by (simp add: screen_pass)
qed (use assms in auto)

definition recorded_states :: "Order \<Rightarrow> outcome \<Rightarrow> (string \<Rightarrow> OrderState option) \<Rightarrow> string \<Rightarrow> OrderState option" where
  "recorded_states i out m = (case out of
     RejHalted \<Rightarrow> m(o_OrderID i \<mapsto> StateRejected)
   | RejRisk _ \<Rightarrow> m(o_OrderID i \<mapsto> StateRejected)
   | _ \<Rightarrow> if reaches_exchange out then settled_states i out (m(o_OrderID i \<mapsto> StatePending)) else m)"

text \<open>The tracker's view of the orders after the handler, for every outcome.\<close>

lemma handle_intent_states:
  assumes "handle_intent pt uni env i msg gw = Some (out, gw')"
  shows "map_of (tr_states (gw_tracker gw')) = recorded_states i out (map_of (tr_states (gw_tracker gw)))"
  using assms
proof (cases rule: handle_intent_cases)
  case rejected
  then show ?thesis using screen_outcome [OF rejected(1)]
    by (auto simp: recorded_states_def gateway_simps tracker_simps)
next
  case (processed tb res gw1)
  have "map_of (tr_states (gw_tracker gw1)) = (map_of (tr_states (gw_tracker gw)))(o_OrderID i \<mapsto> StatePending)"
    using submit_intent_Pair(1) [OF processed(3)] by (simp add: tracker_simps)
  with processed(5) settle_tracker(2) [OF processed(4)] show ?thesis
    by (cases out) (simp_all add: recorded_states_def)
qed (auto simp: recorded_states_def)

lemma handle_intent_consumer:
  assumes "handle_intent pt uni env i msg gw = Some (out, gw')"
  shows "gw_consumer gw' = (case out of
      Throttled _ \<Rightarrow> gw_consumer gw | PublishFailed _ _ \<Rightarrow> gw_consumer gw
    | _ \<Rightarrow> snd (Commit (pt_consumer pt) (ie_commit env) msg (gw_consumer gw)))"
  using assms
proof (cases rule: handle_intent_cases)
  case rejected
  then show ?thesis using screen_outcome [OF rejected(1)] by (auto simp: gateway_simps)
next
  case (processed tb res gw1)
  have "gw_consumer gw1 = gw_consumer gw" using submit_intent_Pair(2) [OF processed(3)] by simp
  with settle_consumer [OF processed(4)] processed(5) show ?thesis by (cases out) simp_all
qed auto



end
