(* ===== verification/GatewayRun.thy ===== *)
theory GatewayRun
  imports Gateway
begin

text \<open>
  Properties of the two handlers as whole calls, and the lemmas about them that the runs of
  \<open>Interleave\<close> and \<open>Supervise\<close> share: what the handlers do to the tracker's ids, to the rows that the
  daily count sees, to the broker's log and to the committed messages.
\<close>

section \<open>The handler of a fill\<close>

lemma handle_fill_tracker:
  "tr_orders (gw_tracker (snd (handle_fill pt env f gw))) = tr_orders (gw_tracker gw)"
  "map_of (tr_states (gw_tracker (snd (handle_fill pt env f gw)))) =
     (map_of (tr_states (gw_tracker gw)))(f_OrderID f \<mapsto> fill_target f)"
  by (simp_all add: handle_fill_def Let_def book_fill_def gateway_simps tracker_simps)

lemma handle_fill_frame [simp]:
  "gw_consumer (snd (handle_fill pt env f gw)) = gw_consumer gw"
  "gw_connector (snd (handle_fill pt env f gw)) = gw_connector gw"
  "gw_limiter (snd (handle_fill pt env f gw)) = gw_limiter gw"
  "gw_halt (snd (handle_fill pt env f gw)) = gw_halt gw"
  "gw_maxDailyOrders (snd (handle_fill pt env f gw)) = gw_maxDailyOrders gw"
  by (simp_all add: handle_fill_def Let_def gateway_simps)

section \<open>The ids the tracker knows\<close>

abbreviation known :: "('s, 'x, 'p, 'm) Gateway \<Rightarrow> string set" where
  "known gw \<equiv> dom (map_of (tr_states (gw_tracker gw)))"

lemma handle_intent_known:
  assumes "handle_intent pt uni env i msg gw = Some (out, gw')"
  shows "known gw \<subseteq> known gw'" and "reaches_exchange out \<Longrightarrow> o_OrderID i \<in> known gw'"
  using handle_intent_states [OF assms]
  by (auto simp: recorded_states_def settled_states_def split: outcome.splits if_splits)

section \<open>The rows of a day\<close>

text \<open>What the daily count sees of a table: the ids and creation times of its rows. Only
  \<open>SaveOrder\<close> changes it.\<close>

definition row_keys :: "table \<Rightarrow> (string \<times> time) list" where
  "row_keys rows = map (\<lambda>r. (row_order_id r, row_created_at r)) rows"

definition tracker_keys :: "table OrderTracker \<Rightarrow> (string \<times> time) list option" where
  "tracker_keys t = map_option row_keys (tr_store t)"

lemma row_keys_sql_update:
  assumes "\<And>r. row_order_id (f r) = row_order_id r" "\<And>r. row_created_at (f r) = row_created_at r"
  shows "row_keys (sql_update oid f rows) = row_keys rows"
  using assms by (simp add: row_keys_def sql_update_def)

lemma fst_row_keys: "fst ` set (row_keys rows) = row_order_id ` set rows"
  by (force simp: row_keys_def)

lemma row_keys_sql_upsert:
  "row_keys (sql_upsert row rows) = (if row_order_id row \<in> fst ` set (row_keys rows) then row_keys rows
     else row_keys rows @ [(row_order_id row, row_created_at row)])"
proof (cases "row_order_id row \<in> row_order_id ` set rows")
  case True
  then show ?thesis by (simp add: sql_upsert_def row_keys_sql_update fst_row_keys)
next
  case False
  then show ?thesis by (simp add: sql_upsert_def fst_row_keys) (simp add: row_keys_def)
qed

lemma tracker_keys_update [simp]:
  "tracker_keys (snd (UpdateOrderState (sqlite_store sod) c1 c2 oid st t)) = tracker_keys t"
  "tracker_keys (snd (UpdateOrderStateAndQty (sqlite_store sod) c oid st q t)) = tracker_keys t"
  "tracker_keys (record_costs (sqlite_store sod) c oid x y t) = tracker_keys t"
proof -
  have upd: "row_keys (snd (store_UpdateOrderState c oid st q rows)) = row_keys rows" for c q rows
    by (simp add: store_UpdateOrderState_def row_keys_sql_update)
  have cost: "row_keys (snd (RecordFillCosts c oid x y rows)) = row_keys rows" for rows
    by (simp add: RecordFillCosts_def row_keys_sql_update)
  show "tracker_keys (snd (UpdateOrderState (sqlite_store sod) c1 c2 oid st t)) = tracker_keys t"
    by (simp add: tracker_keys_def UpdateOrderState_def Let_def sqlite_store_def upd option.map_comp comp_def)
  show "tracker_keys (snd (UpdateOrderStateAndQty (sqlite_store sod) c oid st q t)) = tracker_keys t"
    by (simp add: tracker_keys_def UpdateOrderStateAndQty_def sqlite_store_def upd option.map_comp comp_def)
  show "tracker_keys (record_costs (sqlite_store sod) c oid x y t) = tracker_keys t"
    by (simp add: tracker_keys_def record_costs_def sqlite_store_def cost option.map_comp comp_def)
qed

text \<open>A day: the clock readings lie in the day that starts at \<open>d\<close>, and inserts succeed.\<close>

definition same_day :: "(time \<Rightarrow> time) \<Rightarrow> time \<Rightarrow> intent_env \<Rightarrow> bool" where
  "same_day sod d env = (c_ok (ie_add env) \<and> d \<le> c_now (ie_add env) \<and> sod (c_now (ie_count env)) = d)"

definition day_count :: "time \<Rightarrow> (string \<times> time) list \<Rightarrow> nat" where
  "day_count d ks = length (filter (\<lambda>(oid, t). d \<le> t) ks)"

lemma day_count_snoc [simp]:
  "day_count d (ks @ [(oid, t)]) = day_count d ks + (if d \<le> t then 1 else 0)"
  by (simp add: day_count_def)

lemma check_passes_count:
  assumes "fst (checkRiskLimits pt uni env i gw)" "pt_store pt = sqlite_store sod"
    "tracker_keys (gw_tracker gw) = Some ks" "sod (c_now (ie_count env)) = d"
  shows "int (day_count d ks) < gw_maxDailyOrders gw"
proof -
  obtain rows where rows: "tr_store (gw_tracker gw) = Some rows" "ks = row_keys rows"
    using assms(3) by (auto simp: tracker_keys_def)
  have "day_count d ks = length (filter (\<lambda>r. d \<le> row_created_at r) rows)"
    unfolding rows(2) row_keys_def by (induction rows) (auto simp: day_count_def)
  with assms rows show ?thesis
    by (auto simp: checkRiskLimits_def check_daily_def sqlite_store_def GetDailyOrderCount_def
        split: prod.splits bool.splits if_splits)
qed

section \<open>Publishing and committing\<close>

context fill_publisher
begin

lemma publishFillWithRetry_delivered:
  assumes "publishFillWithRetry pt io f gw = (r, gw')" "pt_producer pt = P"
  shows "\<exists>j\<le>nat (gw_publishRetries gw + 1). delivered (gw_producer gw') = delivered (gw_producer gw) @ replicate j (entry f) \<and>
    (r = None \<longrightarrow> 0 < j)"
  using publish_loop_delivered [of "nat (gw_publishRetries gw + 1)" io f "gw_publishRetries gw + 1" 0
      "gw_publishBackoff gw" None "gw_producer gw"] assms
  by (auto simp: publishFillWithRetry_def case_prod_beta)

text \<open>The broker's log after one intent: it grows by copies of the immediate fill only, by at
  least one if the handler reports it published.\<close>

lemma handle_intent_delivered:
  assumes "handle_intent pt uni env i msg gw = Some (out, gw')" "pt_producer pt = P"
  shows "case out of
      FillPublished f \<Rightarrow> \<exists>j>0. delivered (gw_producer gw') = delivered (gw_producer gw) @ replicate j (entry f)
    | PublishFailed f e \<Rightarrow> \<exists>j. delivered (gw_producer gw') = delivered (gw_producer gw) @ replicate j (entry f)
    | _ \<Rightarrow> delivered (gw_producer gw') = delivered (gw_producer gw)"
  using assms(1)
proof (cases rule: handle_intent_cases)
  case (processed tb res gw1)
  have p: "gw_producer gw1 = gw_producer gw" using submit_intent_Pair(3) [OF processed(3)] by simp
  have log: "\<exists>j. delivered (gw_producer gw') = delivered (gw_producer gw) @ replicate j (entry f) \<and> (r = None \<longrightarrow> 0 < j)"
    if "gw_producer g = gw_producer gw1" "gw_producer gw' = gw_producer (snd (publishFillWithRetry pt (ie_pub env) f g))"
      "fst (publishFillWithRetry pt (ie_pub env) f g) = r" for g f r
    using publishFillWithRetry_delivered [of pt "ie_pub env" f g r "snd (publishFillWithRetry pt (ie_pub env) f g)"]
      that p assms(2) by (metis prod.collapse)
  show ?thesis
  proof (cases out)
    case (FillPublished f)
    with settle_producer [OF processed(4)] log [of _ f None] show ?thesis by fastforce
  next
    case (PublishFailed f e)
    with settle_producer [OF processed(4)] log [of _ f "Some e"] show ?thesis by fastforce
  qed (use settle_producer [OF processed(4)] processed(5) p in simp_all)
next
  case rejected
  then show ?thesis using screen_outcome [OF rejected(1)] by (auto simp: gateway_simps)
qed auto

end

definition is_settled :: "outcome \<Rightarrow> bool" where
  "is_settled out = (case out of Throttled _ \<Rightarrow> False | PublishFailed _ _ \<Rightarrow> False | _ \<Rightarrow> True)"

context intent_consumer
begin

text \<open>Only messages whose intents were settled are committed: not those that were throttled,
  nor those whose immediate fill could not be published.\<close>

lemma commit_adds: "set (committed (snd (Commit M c msg m))) \<subseteq> insert msg (set (committed m))"
  using commit_ok [of c msg m] commit_err [of c msg m]
  by (cases "Commit M c msg m"; cases "fst (Commit M c msg m)") auto

end

section \<open>A concrete gateway\<close>

text \<open>The simulator, the SQLite store, the in-memory publisher and consumer; a bucket of four
  tokens, no policy, one hundred orders a day.\<close>

definition demo_ports :: "(table, SimulatorConnector, ExecutionFill list, int, fakeConsumer) ports" where
  "demo_ports = \<lparr> pt_store = sqlite_store (\<lambda>_. 0), pt_connector = simulator,
     pt_producer = fake_publisher, pt_consumer = fake_consumer \<rparr>"

definition demo_gateway :: "(table, SimulatorConnector, ExecutionFill list, fakeConsumer) Gateway" where
  "demo_gateway = NewGateway \<lparr> fc_intents = [demo_order], fc_idx = 0, fc_committed = [] \<rparr> []
     demo_sim (NewOrderTracker\<lparr> tr_store := Some [] \<rparr>) (NewTokenBucketLimiter 0 (Fin 4)) None None 100"

definition demo_ienv :: intent_env where
  "demo_ienv = \<lparr> ie_count = demo_call, ie_countSide = demo_call, ie_rounds = [(0, False)],
     ie_add = demo_call, ie_submit = demo_call, ie_algo = demo_env, ie_upd = (demo_call, demo_call),
     ie_updFilled = (demo_call, demo_call), ie_costs = demo_call, ie_pub = (\<lambda>_. demo_call),
     ie_commit = demo_call \<rparr>"

definition demo_fill :: ExecutionFill where
  "demo_fill = sim_fill (sim_cfg demo_sim) 0 1 demo_order"

lemma demo_ports_sel [simp]:
  "pt_store demo_ports = sqlite_store (\<lambda>_. 0)" "pt_connector demo_ports = simulator"
  "pt_producer demo_ports = fake_publisher" "pt_consumer demo_ports = fake_consumer"
  by (simp_all add: demo_ports_def)

lemma demo_gateway_sel [simp]:
  "gw_tracker demo_gateway = NewOrderTracker\<lparr> tr_store := Some [] \<rparr>" "gw_connector demo_gateway = demo_sim"
  "gw_producer demo_gateway = []" "gw_halt demo_gateway = NewHalt" "gw_risk demo_gateway = None"
  "gw_limiter demo_gateway = NewTokenBucketLimiter 0 (Fin 4)" "gw_maxDailyOrders demo_gateway = 100"
  "gw_maxDailyBuys demo_gateway = 0" "gw_maxDailySells demo_gateway = 0" "gw_algoExec demo_gateway = False"
  "gw_publishRetries demo_gateway = 3" "fc_committed (gw_consumer demo_gateway) = []"
  by (simp_all add: demo_gateway_def NewGateway_def)

lemma demo_ienv_sel [simp]:
  "ie_count demo_ienv = demo_call" "ie_rounds demo_ienv = [(0, False)]" "ie_add demo_ienv = demo_call"
  "ie_submit demo_ienv = demo_call" "ie_pub demo_ienv = (\<lambda>_. demo_call)" "ie_commit demo_ienv = demo_call"
  by (simp_all add: demo_ienv_def)

lemma demo_valid: "ValidateOrderID (o_OrderID demo_order) = None"
  by code_simp


lemma demo_wait:
  "limiter_Wait [(0, False)] (NewTokenBucketLimiter 0 (Fin 4)) =
     Some (None, \<lparr> tb_capacity = Fin 4, tb_tokens = Fin 3, tb_refillRate = Fin 4, tb_lastRefill = 0 \<rparr>)"
  by (simp add: limiter_Wait_Cons NewTokenBucketLimiter_def tb_refill_def tb_take_def Let_def time_sub_def
      dur_seconds_def float_sub_def float_simps)

lemma demo_submit:
  "gw_connector gw = demo_sim \<Longrightarrow> gw_algoExec gw = False \<Longrightarrow>
   fst (submit_intent demo_ports demo_ienv demo_order gw) = Inr demo_fill"
  by (simp add: submit_intent_def simulator_def sim_SubmitOrder_def demo_sim_def NewSimulatorConnector_def
      demo_fill_def Let_def wrap64_def demo_call_def)

lemma fake_publish_nil:
  "fst (publishFillWithRetry demo_ports (\<lambda>_. demo_call) f gw) = None" if "0 \<le> gw_publishRetries gw"
proof -
  have "\<exists>i. 0 \<le> i \<and> i < 0 + nat (gw_publishRetries gw + 1) \<and> True \<and> (\<forall>j. 0 \<le> j \<and> j \<le> i \<and> 0 < j \<longrightarrow> \<not> c_done demo_call)"
    using that by (intro exI [of _ 0]) simp
  then show ?thesis
    using publish_loop_iff [of fake_publisher "\<lambda>_. demo_call" f "\<lambda>_. True"]
    by (simp add: publishFillWithRetry_def case_prod_beta fake_publisher_def fake_PublishFill_def)
qed

lemma demo_settle:
  assumes "0 \<le> gw_publishRetries gw" and q: "float_gt (f_Quantity fill) (Fin 0)"
  shows "fst (settle demo_ports demo_ienv i msg (Inr fill) gw) = FillPublished fill"
proof -
  have r: "gw_publishRetries (book_immediate pt env i f (count_submitted j (track h gw))) = gw_publishRetries gw"
    for pt :: "(table, SimulatorConnector, ExecutionFill list, int, fakeConsumer) ports" and env i f j h
    by (simp add: book_immediate_def gateway_simps)
  show ?thesis
    using q fake_publish_nil assms r
    by (simp add: settle_def Let_def case_prod_beta split: option.split)
qed

text \<open>The gateway with a limiter that has given its token and the order registered, with the
  consumer \<open>m\<close> and the algorithm configuration \<open>cfg\<close>.\<close>

definition demo_registered ::
    "fakeConsumer \<Rightarrow> AlgoConfig option \<Rightarrow> (table, SimulatorConnector, ExecutionFill list, fakeConsumer) Gateway" where
  "demo_registered m cfg = register demo_ports demo_ienv demo_order
     (demo_gateway\<lparr> gw_consumer := m, gw_algoExec := (cfg \<noteq> None), gw_algoCfg := cfg, gw_ready := True,
        gw_limiter := \<lparr> tb_capacity = Fin 4, tb_tokens = Fin 3, tb_refillRate = Fin 4, tb_lastRefill = 0 \<rparr> \<rparr>)"

lemma demo_handled_from:
  assumes "fst (submit_intent demo_ports demo_ienv demo_order (demo_registered m cfg)) = Inr fill"
    "float_gt (f_Quantity fill) (Fin 0)"
  shows "\<exists>gw'. handle_intent demo_ports uni demo_ienv demo_order 1
      (demo_gateway\<lparr> gw_consumer := m, gw_algoExec := (cfg \<noteq> None), gw_algoCfg := cfg \<rparr>) = Some (FillPublished fill, gw')"
proof -
  let ?g = "demo_gateway\<lparr> gw_consumer := m, gw_algoExec := (cfg \<noteq> None), gw_algoCfg := cfg \<rparr>"
  have sc: "screen demo_ports uni demo_ienv demo_order ?g = None"
    unfolding screen_pass using demo_valid
    by (simp add: IsHalted_def NewHalt_def NewOrderTracker_def checkRiskLimits_def CheckIntent_def check_daily_def
        sqlite_store_def GetDailyOrderCount_def demo_call_def)
  have "gw_publishRetries (snd (submit_intent demo_ports demo_ienv demo_order (demo_registered m cfg))) = 3"
    by (simp add: submit_intent_def case_prod_beta demo_registered_def register_def gateway_simps
        split: bool.splits option.splits)
  then have "fst (settle demo_ports demo_ienv demo_order 1
      (fst (submit_intent demo_ports demo_ienv demo_order (demo_registered m cfg)))
      (snd (submit_intent demo_ports demo_ienv demo_order (demo_registered m cfg)))) = FillPublished fill"
    unfolding assms(1) using assms(2) by (intro demo_settle) simp_all
  then show ?thesis
    using sc demo_wait
    by (auto simp: handle_intent_def Let_def process_def case_prod_beta prod_eq_iff demo_registered_def)
qed

lemma demo_handled_fetched:
  "\<exists>gw'. handle_intent demo_ports uni demo_ienv demo_order 1 (demo_gateway\<lparr> gw_consumer := m \<rparr>) =
     Some (FillPublished demo_fill, gw')"
proof -
  have "fst (submit_intent demo_ports demo_ienv demo_order (demo_registered m None)) = Inr demo_fill"
    by (intro demo_submit) (simp_all add: demo_registered_def, simp_all add: register_def gateway_simps)
  moreover have "float_gt (f_Quantity demo_fill) (Fin 0)" by (simp add: demo_fill_def demo_order_def)
  moreover have "demo_gateway\<lparr> gw_consumer := m, gw_algoExec := False, gw_algoCfg := None \<rparr> = demo_gateway\<lparr> gw_consumer := m \<rparr>"
    by (simp add: demo_gateway_def NewGateway_def)
  ultimately show ?thesis using demo_handled_from [of m None demo_fill uni] by simp
qed

lemma demo_handled:
  "\<exists>gw'. handle_intent demo_ports uni demo_ienv demo_order 1 demo_gateway = Some (FillPublished demo_fill, gw')"
  using demo_handled_fetched [of uni "gw_consumer demo_gateway"] by simp

lemma demo_algo_handled:
  "\<exists>f gw'. handle_intent demo_ports uni demo_ienv demo_order 1
      (demo_gateway\<lparr> gw_algoExec := True, gw_algoCfg := Some demo_twap \<rparr>) = Some (FillPublished f, gw')"
proof -
  obtain r x' ws where ex: "Execute simulator demo_env demo_order demo_twap demo_sim = ((Some r, None, x'), ws)"
    and r: "ar_Fills r \<noteq> []" "ar_TotalQty r = Fin 8"
    using demo_Execute by (auto split: prod.splits option.splits)
  have "fst (submit_intent demo_ports demo_ienv demo_order (demo_registered (gw_consumer demo_gateway) (Some demo_twap))) = Inr (algo_fill r)"
    using ex by (simp add: submit_intent_def demo_registered_def register_def gateway_simps demo_ienv_def)
  moreover have "float_gt (f_Quantity (algo_fill r)) (Fin 0)" using r by (simp add: algo_fill_def)
  ultimately show ?thesis using demo_handled_from [of "gw_consumer demo_gateway" "Some demo_twap" "algo_fill r" uni] by auto
qed

section \<open>The guards\<close>

text \<open>C3. An intent whose handling does not end at the exchange leaves the connector and the
  broker untouched, and a screened-out one leaves the rate limiter's tokens untouched; an intent
  that ends there found the kill switch off, a valid and unknown order id, a passed risk check,
  and took a token from the limiter.\<close>

theorem submission_guarded:
  assumes "handle_intent pt uni env i msg gw = Some (out, gw')"
  shows "(\<not> reaches_exchange out \<longrightarrow> gw_connector gw' = gw_connector gw \<and> gw_producer gw' = gw_producer gw) \<and>
    (\<not> reaches_exchange out \<and> (\<forall>e. out \<noteq> Throttled e) \<longrightarrow> gw_limiter gw' = gw_limiter gw) \<and>
    (reaches_exchange out \<longrightarrow>
       \<not> IsHalted (gw_halt gw) \<and> ValidateOrderID (o_OrderID i) = None \<and>
       tracker_GetOrderState (o_OrderID i) (gw_tracker gw) = None \<and>
       fst (checkRiskLimits pt uni env i gw) \<and>
       limiter_Wait (ie_rounds env) (gw_limiter gw) = Some (None, gw_limiter gw'))"
proof -
  have "gw_limiter gw' = gw_limiter gw" if "\<not> reaches_exchange out" "\<forall>e. out \<noteq> Throttled e"
    using assms that by (cases rule: handle_intent_cases) auto
  then show ?thesis
    using handle_intent_not_reached [OF assms] handle_intent_reached [OF assms]
    by (auto simp: tracker_GetOrderState_def domIff)
qed

theorem submission_guarded_witness:
  "\<exists>gw'. handle_intent demo_ports (\<lambda>s. s) demo_ienv demo_order 1 demo_gateway = Some (FillPublished demo_fill, gw') \<and>
     limiter_Wait (ie_rounds demo_ienv) (gw_limiter demo_gateway) = Some (None, gw_limiter gw')"
  using demo_handled [of "\<lambda>s. s"] submission_guarded [of demo_ports "\<lambda>s. s" demo_ienv demo_order 1 demo_gateway
      "FillPublished demo_fill"] by fastforce

section \<open>Properties of the handlers\<close>

text \<open>C19. The bounded retry: if an attempt's outcome depends on its environment only, publishing
  returns nil exactly if one of the \<open>publishRetries + 1\<close> attempts succeeds before the context is
  found done.\<close>

theorem publish_retry_iff:
  assumes "\<And>k p. fst (PublishFill (pt_producer pt) (io k) fill p) = None \<longleftrightarrow> good k"
  shows "fst (publishFillWithRetry pt io fill gw) = None \<longleftrightarrow>
    (\<exists>k. int k \<le> gw_publishRetries gw \<and> good k \<and> (\<forall>j. 0 < j \<and> j \<le> k \<longrightarrow> \<not> c_done (io j)))"
proof -
  have "k < nat (gw_publishRetries gw + 1) \<longleftrightarrow> int k \<le> gw_publishRetries gw" for k by linarith
  then show ?thesis
    using publish_loop_iff [of "pt_producer pt" io fill good "gw_publishRetries gw + 1" 0
        "nat (gw_publishRetries gw + 1)" "gw_publishBackoff gw" None "gw_producer gw"] assms
    by (auto simp: publishFillWithRetry_def case_prod_beta)
qed

theorem publish_retry_iff_witness:
  "fst (publishFillWithRetry demo_ports (\<lambda>_. demo_call) demo_fill demo_gateway) = None"
proof -
  have "fst (PublishFill (pt_producer demo_ports) demo_call demo_fill p) = None \<longleftrightarrow> True" for p
    by (simp add: fake_publisher_def fake_PublishFill_def)
  with publish_retry_iff [of demo_ports "\<lambda>_. demo_call" demo_fill "\<lambda>_. True" demo_gateway]
  show ?thesis by (simp add: exI [of _ 0])
qed

text \<open>A fill reaches the broker's log at least once if publishing returned nil, and never more
  than \<open>publishRetries + 1\<close> times, for every publisher that meets its contract.\<close>

theorem publish_retry_copies:
  assumes "fill_publisher (pt_producer pt) delivered entry" "publishFillWithRetry pt io fill gw = (r, gw')"
  shows "\<exists>j\<le>nat (gw_publishRetries gw + 1).
    delivered (gw_producer gw') = delivered (gw_producer gw) @ replicate j (entry fill) \<and> (r = None \<longrightarrow> 0 < j)"
  using fill_publisher.publishFillWithRetry_delivered [OF assms(1,2)] by simp

theorem publish_retry_copies_witness:
  "\<exists>j\<le>4. gw_producer (snd (publishFillWithRetry demo_ports (\<lambda>_. demo_call) demo_fill demo_gateway)) =
     replicate j demo_fill"
  using publish_retry_copies [of demo_ports "\<lambda>fills. fills" "\<lambda>fill. fill" "\<lambda>_. demo_call" demo_fill demo_gateway
      "fst (publishFillWithRetry demo_ports (\<lambda>_. demo_call) demo_fill demo_gateway)"
      "snd (publishFillWithRetry demo_ports (\<lambda>_. demo_call) demo_fill demo_gateway)"]
    fakepub.fill_publisher_axioms by auto

text \<open>The order id of the fill, with and without an algorithm.\<close>

lemma submit_direct_id:
  assumes "echoing_connector (pt_connector pt)" "\<not> gw_algoExec gw \<or> gw_algoCfg gw = None"
    "submit_intent pt env i gw = (Inr fill, gw')"
  shows "f_OrderID fill = o_OrderID i"
  using assms
  by (auto simp: submit_intent_def split: prod.splits bool.splits option.splits
      dest: echoing_connector.submit_echo_id)

lemma submit_algo_id:
  assumes "echoing_connector (pt_connector pt)" "gw_algoExec gw" "gw_algoCfg gw = Some cfg"
    "submit_intent pt env i gw = (Inr fill, gw')" "float_gt (f_Quantity fill) (Fin 0)"
  shows "f_OrderID fill \<noteq> o_OrderID i"
proof -
  obtain res x' ws where ex: "Execute (pt_connector pt) (ie_algo env) i cfg (gw_connector gw) = ((res, None, x'), ws)"
    and fill: "fill = (case res of None \<Rightarrow> empty_fill | Some r \<Rightarrow> algo_fill r)"
    using assms(2-4) by (auto simp: submit_intent_def split: prod.splits option.splits)
  with assms(5) obtain r where r: "res = Some r" "ar_Fills r \<noteq> []"
    by (auto simp: empty_fill_def algo_fill_def split: option.splits if_splits)
  obtain iv q where sl: "executeSlices (pt_connector pt) (ie_algo env) i (ac_Slices (default_config cfg)) iv q
      (gw_connector gw) = (r, None, x')"
    using ex r(1) Execute_cases by metis
  from echoing_connector.executeSlices_distinct_ids [OF assms(1) sl] r(2)
  have "o_OrderID i \<noteq> f_OrderID (last (ar_Fills r))" by auto
  with fill r show ?thesis by (simp add: algo_fill_def)
qed

lemma handle_intent_submission:
  assumes "handle_intent pt uni env i msg gw = Some (out, gw')" "out = FillPublished f \<or> out = PublishFailed f e"
  obtains g gw1 where "submit_intent pt env i g = (Inr f, gw1)" "gw_algoExec g = gw_algoExec gw"
    "gw_algoCfg g = gw_algoCfg gw" "float_gt (f_Quantity f) (Fin 0)"
  using assms(1)
proof (cases rule: handle_intent_cases)
  case (processed tb res gw1)
  from processed(4) have "res = Inr f \<and> float_gt (f_Quantity f) (Fin 0)"
    using assms(2) by (cases rule: settle_cases) auto
  with processed(3) show ?thesis
    by (intro that [of "register pt env i (gw\<lparr> gw_ready := True, gw_limiter := tb \<rparr>)" gw1])
       (simp_all add: register_def gateway_simps)
next
  case rejected
  then show ?thesis using screen_outcome [OF rejected(1)] assms(2) by auto
qed (use assms(2) in auto)

text \<open>C18. The order's state after its intent was handled, for every outcome, on a connector whose
  fills echo the order and with direct submission: rejections by halt, risk or exchange leave it
  REJECTED, an accepted order is SUBMITTED, an immediately filled one FILLED even when its fill
  could not be published, and an invalid, duplicate or throttled intent does not change it.
  No other order's state changes.\<close>

theorem order_state_after_intent:
  assumes "handle_intent pt uni env i msg gw = Some (out, gw')"
    and "echoing_connector (pt_connector pt)" "\<not> gw_algoExec gw \<or> gw_algoCfg gw = None"
  shows "(\<forall>oid. oid \<noteq> o_OrderID i \<longrightarrow>
      tracker_GetOrderState oid (gw_tracker gw') = tracker_GetOrderState oid (gw_tracker gw)) \<and>
    tracker_GetOrderState (o_OrderID i) (gw_tracker gw') = (case out of
      RejHalted \<Rightarrow> Some StateRejected | RejRisk _ \<Rightarrow> Some StateRejected | SubmitFailed _ \<Rightarrow> Some StateRejected
    | Accepted \<Rightarrow> Some StateSubmitted
    | FillPublished _ \<Rightarrow> Some StateFilled | PublishFailed _ _ \<Rightarrow> Some StateFilled
    | _ \<Rightarrow> tracker_GetOrderState (o_OrderID i) (gw_tracker gw))"
proof -
  have id: "f_OrderID f = o_OrderID i" if out: "out = FillPublished f \<or> out = PublishFailed f e" for f e
  proof -
    obtain g gw1 where "submit_intent pt env i g = (Inr f, gw1)" "gw_algoExec g = gw_algoExec gw"
      "gw_algoCfg g = gw_algoCfg gw" using handle_intent_submission [OF assms(1) out] by metis
    with submit_direct_id [OF assms(2)] assms(3) show ?thesis by metis
  qed
  from handle_intent_states [OF assms(1)] show ?thesis
    using id by (cases out) (auto simp: recorded_states_def settled_states_def tracker_GetOrderState_def)
qed

theorem order_state_after_intent_witness:
  "\<exists>gw'. handle_intent demo_ports (\<lambda>s. s) demo_ienv demo_order 1 demo_gateway = Some (FillPublished demo_fill, gw') \<and>
     tracker_GetOrderState ''o1'' (gw_tracker gw') = Some StateFilled"
proof -
  obtain gw' where h: "handle_intent demo_ports (\<lambda>s. s) demo_ienv demo_order 1 demo_gateway = Some (FillPublished demo_fill, gw')"
    using demo_handled by blast
  have "echoing_connector (pt_connector demo_ports)" using sim.echoing_connector_axioms by simp
  from order_state_after_intent [OF h this] h show ?thesis by (auto simp: demo_order_def)
qed

text \<open>With an execution algorithm configured, the parent order of a completed and published
  execution stays SUBMITTED: the condensed fill carries the id of its last slice, so the FILLED
  transition is recorded under the slice's id.\<close>

theorem algo_parent_stays_submitted:
  assumes "handle_intent pt uni env i msg gw = Some (FillPublished f, gw')"
    and "echoing_connector (pt_connector pt)" "gw_algoExec gw" "gw_algoCfg gw = Some cfg"
  shows "tracker_GetOrderState (o_OrderID i) (gw_tracker gw') = Some StateSubmitted \<and>
    tracker_GetOrderState (f_OrderID f) (gw_tracker gw') = Some StateFilled \<and> f_OrderID f \<noteq> o_OrderID i"
proof -
  have "f_OrderID f \<noteq> o_OrderID i"
    using handle_intent_submission [OF assms(1)] submit_algo_id [OF assms(2)] assms(3,4) by metis
  with handle_intent_states [OF assms(1)] show ?thesis
    by (auto simp: recorded_states_def settled_states_def tracker_GetOrderState_def)
qed

theorem algo_parent_stays_submitted_witness:
  "\<exists>f gw'. handle_intent demo_ports (\<lambda>s. s) demo_ienv demo_order 1
      (demo_gateway\<lparr> gw_algoExec := True, gw_algoCfg := Some demo_twap \<rparr>) = Some (FillPublished f, gw') \<and>
    tracker_GetOrderState ''o1'' (gw_tracker gw') = Some StateSubmitted"
proof -
  obtain f gw' where h: "handle_intent demo_ports (\<lambda>s. s) demo_ienv demo_order 1
      (demo_gateway\<lparr> gw_algoExec := True, gw_algoCfg := Some demo_twap \<rparr>) = Some (FillPublished f, gw')"
    using demo_algo_handled by blast
  have "echoing_connector (pt_connector demo_ports)" using sim.echoing_connector_axioms by simp
  from algo_parent_stays_submitted [OF h this] h show ?thesis by (auto simp: demo_order_def)
qed

text \<open>The kill switch: while it is set, every intent is rejected, whatever its content; the
  exchange, the broker and the limiter are untouched, the message is committed, and the intent's
  order id is recorded as REJECTED (also over the state of a live order with that id).\<close>

theorem halt_rejects_everything:
  assumes "IsHalted (gw_halt gw)"
  shows "\<exists>gw'. handle_intent pt uni env i msg gw = Some (RejHalted, gw') \<and>
    gw_connector gw' = gw_connector gw \<and> gw_producer gw' = gw_producer gw \<and> gw_limiter gw' = gw_limiter gw \<and>
    gw_consumer gw' = snd (Commit (pt_consumer pt) (ie_commit env) msg (gw_consumer gw)) \<and>
    tracker_GetOrderState (o_OrderID i) (gw_tracker gw') = Some StateRejected"
  using assms
  by (simp add: handle_intent_def screen_def gateway_simps tracker_GetOrderState_def tracker_simps)

theorem halt_rejects_everything_witness:
  "\<exists>gw'. handle_intent demo_ports (\<lambda>s. s) demo_ienv demo_order 1
      (demo_gateway\<lparr> gw_halt := Halt_Set ''drill'' NewHalt \<rparr>) = Some (RejHalted, gw') \<and> gw_producer gw' = []"
  using halt_rejects_everything [of "demo_gateway\<lparr> gw_halt := Halt_Set ''drill'' NewHalt \<rparr>" demo_ports
      "\<lambda>s. s" demo_ienv demo_order 1]
  by (auto simp: IsHalted_def Halt_Set_def)

text \<open>C40. A fill that could not be published is lost: the message is left uncommitted, but its
  redelivery is rejected as a duplicate, commits the message and publishes nothing.\<close>

theorem redelivery_loses_fill:
  assumes "handle_intent pt uni env i msg gw = Some (PublishFailed f e, gw1)"
  shows "gw_consumer gw1 = gw_consumer gw \<and>
    (\<exists>gw2. handle_intent pt uni env' i msg gw1 = Some (RejDuplicate, gw2) \<and>
       gw_producer gw2 = gw_producer gw1 \<and>
       gw_consumer gw2 = snd (Commit (pt_consumer pt) (ie_commit env') msg (gw_consumer gw1)))"
proof -
  have known: "o_OrderID i \<in> known gw1" using handle_intent_known(2) [OF assms] by simp
  have g: "\<not> IsHalted (gw_halt gw)" "ValidateOrderID (o_OrderID i) = None"
    using handle_intent_reached [OF assms] by simp_all
  have "gw_halt gw1 = gw_halt gw"
    using assms
  proof (cases rule: handle_intent_cases)
    case (processed tb res g1)
    then show ?thesis using submit_intent_Pair(5) [OF processed(3)] settle_Pair(3) [OF processed(4)] by simp
  qed auto
  with g known have "screen pt uni env' i gw1 = Some RejDuplicate"
    by (auto simp: screen_def tracker_GetOrderState_def)
  then show ?thesis
    using handle_intent_consumer [OF assms] by (simp add: handle_intent_def gateway_simps)
qed

text \<open>A broker that is down.\<close>

definition down_ports :: "(table, SimulatorConnector, ExecutionFill list, int, fakeConsumer) ports" where
  "down_ports = demo_ports\<lparr> pt_producer := \<lparr> PublishFill = (\<lambda>c f p. (Some ''broker down'', p)) \<rparr> \<rparr>"

lemma down_handled:
  "\<exists>e gw'. handle_intent down_ports uni demo_ienv demo_order 1 demo_gateway = Some (PublishFailed demo_fill e, gw')"
proof -
  have pt: "pt_store down_ports = pt_store demo_ports" "pt_connector down_ports = pt_connector demo_ports"
    "pt_consumer down_ports = pt_consumer demo_ports" by (simp_all add: down_ports_def)
  obtain gw where h: "handle_intent demo_ports uni demo_ienv demo_order 1 demo_gateway = Some (FillPublished demo_fill, gw)"
    using demo_handled by blast
  have sc: "screen down_ports uni demo_ienv demo_order demo_gateway = None"
    using handle_intent_reached [OF h] unfolding screen_pass checkRiskLimits_def pt by simp
  have q: "float_gt (f_Quantity demo_fill) (Fin 0)" by (simp add: demo_fill_def demo_order_def)
  have sub: "fst (submit_intent down_ports demo_ienv demo_order (register down_ports demo_ienv demo_order
      (demo_gateway\<lparr> gw_ready := True, gw_limiter := tb \<rparr>))) = Inr demo_fill" for tb
    unfolding submit_intent_def register_def pt
    by (simp add: gateway_simps simulator_def sim_SubmitOrder_def demo_sim_def NewSimulatorConnector_def
        demo_fill_def Let_def wrap64_def demo_call_def case_prod_beta)
  have "fst (publishFillWithRetry down_ports io demo_fill g) \<noteq> None" for io g
    using publish_loop_iff [of "pt_producer down_ports" io demo_fill "\<lambda>_. False"]
    by (simp add: publishFillWithRetry_def case_prod_beta down_ports_def)
  then have "\<exists>e. fst (settle down_ports demo_ienv demo_order 1 (Inr demo_fill) g) = PublishFailed demo_fill e" for g
    using q by (simp add: settle_def Let_def case_prod_beta split: option.split)
  then show ?thesis
    using sc demo_wait sub by (auto simp: handle_intent_def Let_def process_def case_prod_beta prod_eq_iff)
qed

theorem redelivery_loses_fill_witness:
  "\<exists>e gw1 gw2. handle_intent down_ports (\<lambda>s. s) demo_ienv demo_order 1 demo_gateway = Some (PublishFailed demo_fill e, gw1) \<and>
    handle_intent down_ports (\<lambda>s. s) demo_ienv demo_order 1 gw1 = Some (RejDuplicate, gw2)"
  using down_handled [of "\<lambda>s. s"] redelivery_loses_fill [of down_ports "\<lambda>s. s" demo_ienv demo_order 1 demo_gateway demo_fill]
  by metis

text \<open>C20. A fill of the user-data stream on the SQLite store: the order's row takes the state the
  exchange reported (FILLED if it reported none), the fill's own quantity as its filled quantity,
  and the fill's costs; no other row changes, and a fill in a non-terminal state keeps the order
  active.\<close>

theorem ws_fill_effect:
  assumes "pt_store pt = sqlite_store sod" "tr_store (gw_tracker gw) = Some rows" "rows_inv rows"
    and "rows_view rows (f_OrderID f) = Some r" "c_ok (fe_upd env)" "c_ok (fe_costs env)"
  shows "\<exists>rows'. tr_store (gw_tracker (snd (handle_fill pt env f gw))) = Some rows' \<and> rows_inv rows' \<and>
    rows_view rows' = (rows_view rows)(f_OrderID f \<mapsto>
      r\<lparr> row_state := fill_target f, row_filled_qty := f_Quantity f,
         row_commission := f_TransactionCost f,
         row_slippage := fill_slippage f (gw_tracker gw), row_updated_at := c_now (fe_costs env) \<rparr>) \<and>
    tracker_GetOrderState (f_OrderID f) (gw_tracker (snd (handle_fill pt env f gw))) = Some (fill_target f)"
proof -
  let ?S = "sqlite_store sod" and ?sl = "fill_slippage f (gw_tracker gw)"
  obtain rows1 where u: "st_UpdateOrderState ?S (fe_upd env) (f_OrderID f) (fill_target f) (f_Quantity f) rows = (None, rows1)"
    "rows_inv rows1" "rows_view rows1 = (rows_view rows)(f_OrderID f \<mapsto> r\<lparr> row_state := fill_target f,
       row_filled_qty := f_Quantity f, row_updated_at := c_now (fe_upd env) \<rparr>)"
    using sqlite.update_ok [OF assms(5,3), of sod "f_OrderID f" "fill_target f" "f_Quantity f"] assms(4) by auto
  obtain rows2 where c: "st_RecordFillCosts ?S (fe_costs env) (f_OrderID f) (f_TransactionCost f) ?sl rows1 = (None, rows2)"
    "rows_inv rows2" "rows_view rows2 = (rows_view rows1)(f_OrderID f := map_option (\<lambda>r. r\<lparr> row_commission := f_TransactionCost f,
       row_slippage := ?sl, row_updated_at := c_now (fe_costs env) \<rparr>) (rows_view rows1 (f_OrderID f)))"
    using sqlite.costs_ok [OF assms(6) u(2), of sod "f_OrderID f" "f_TransactionCost f" ?sl] by auto
  have sl: "fill_slippage f (snd (UpdateOrderStateAndQty S e o' st q t)) = fill_slippage f t" for S e o' st q and t :: "table OrderTracker"
    by (simp add: fill_slippage_def GetOrder_def tracker_simps)
  have "tr_store (gw_tracker (snd (handle_fill pt env f gw))) = Some rows2"
    using assms(1,2) u(1) c(1) by (simp add: handle_fill_def Let_def book_fill_def gateway_simps sl record_costs_def tracker_simps)
  moreover have "rows_view rows2 = (rows_view rows)(f_OrderID f \<mapsto>
      r\<lparr> row_state := fill_target f, row_filled_qty := f_Quantity f, row_commission := f_TransactionCost f,
         row_slippage := ?sl, row_updated_at := c_now (fe_costs env) \<rparr>)"
    unfolding c(3) u(3) by simp
  ultimately show ?thesis using c(2) handle_fill_tracker(2) [of pt env f gw]
    by (simp add: tracker_GetOrderState_def)
qed

definition demo_fenv :: fill_env where
  "demo_fenv = \<lparr> fe_upd = demo_call, fe_costs = demo_call, fe_pub = (\<lambda>_. demo_call) \<rparr>"

definition demo_row :: OrderRow where
  "demo_row = new_row demo_order StateSubmitted 0"

theorem ws_fill_effect_witness:
  "\<exists>rows' r'. tr_store (gw_tracker (snd (handle_fill demo_ports demo_fenv
       (demo_fill\<lparr> f_OrderStatus := StatePartiallyFilled, f_Quantity := Fin 3 \<rparr>)
       (demo_gateway\<lparr> gw_tracker := NewOrderTracker\<lparr> tr_store := Some [demo_row] \<rparr> \<rparr>)))) = Some rows' \<and>
     rows_view rows' ''o1'' = Some r' \<and> row_filled_qty r' = Fin 3 \<and> \<not> is_terminal (row_state r')"
proof -
  let ?f = "demo_fill\<lparr> f_OrderStatus := StatePartiallyFilled, f_Quantity := Fin 3 \<rparr>"
  let ?g = "demo_gateway\<lparr> gw_tracker := NewOrderTracker\<lparr> tr_store := Some [demo_row] \<rparr> \<rparr>"
  have id: "f_OrderID ?f = ''o1''" by (simp add: demo_fill_def demo_order_def)
  have v: "rows_view [demo_row] (f_OrderID ?f) = Some demo_row"
    unfolding id by (simp add: rows_view_Cons demo_row_def demo_order_def)
  have ok: "c_ok (fe_upd demo_fenv)" "c_ok (fe_costs demo_fenv)" by (simp_all add: demo_fenv_def demo_call_def)
  have inv: "rows_inv [demo_row]" by (simp add: rows_inv_def)
  have st: "tr_store (gw_tracker ?g) = Some [demo_row]" by simp
  from ws_fill_effect [OF demo_ports_sel(1) st inv v ok] show ?thesis
    unfolding id by (auto simp: fill_target_def)
qed

text \<open>C23. Drain polls until it sees no active order or the deadline has passed: its result is the
  number of active orders at the round that ended it, zero or read at or after the deadline, all
  earlier rounds saw active orders before the deadline, and a round after the deadline does end it.\<close>

theorem drain_result:
  assumes "gw_intake gw = Some b" "\<exists>r\<in>set rounds. now + timeout \<le> snd r"
  shows "\<exists>k<length rounds. \<exists>n. Drain timeout now rounds gw = Some (n, gw\<lparr> gw_intake := Some True \<rparr>) \<and>
    n = length (GetAllActiveOrders (fst (rounds ! k))) \<and> (n = 0 \<or> now + timeout \<le> snd (rounds ! k)) \<and>
    (\<forall>j<k. GetAllActiveOrders (fst (rounds ! j)) \<noteq> [] \<and> snd (rounds ! j) < now + timeout)"
proof -
  have "\<exists>k<length rounds. \<exists>n. drain_loop dl rounds = Some n \<and>
      n = length (GetAllActiveOrders (fst (rounds ! k))) \<and> (n = 0 \<or> dl \<le> snd (rounds ! k)) \<and>
      (\<forall>j<k. GetAllActiveOrders (fst (rounds ! j)) \<noteq> [] \<and> snd (rounds ! j) < dl)"
    if "\<exists>r\<in>set rounds. dl \<le> snd r" for dl
    using that
  proof (induction rounds)
    case (Cons r rounds)
    obtain t c where r: "r = (t, c)" by (cases r)
    show ?case
    proof (cases "GetAllActiveOrders t = [] \<or> dl \<le> c")
      case True
      then show ?thesis by (intro exI [of _ 0]) (auto simp: r Let_def)
    next
      case False
      with Cons.prems r obtain k n where k: "k < length rounds" "drain_loop dl rounds = Some n"
        "n = length (GetAllActiveOrders (fst (rounds ! k)))" "n = 0 \<or> dl \<le> snd (rounds ! k)"
        "\<forall>j<k. GetAllActiveOrders (fst (rounds ! j)) \<noteq> [] \<and> snd (rounds ! j) < dl"
        using Cons.IH by auto
      have "GetAllActiveOrders (fst ((r # rounds) ! j)) \<noteq> [] \<and> snd ((r # rounds) ! j) < dl" if "j < Suc k" for j
        using that k(5) False r by (cases j) auto
      with k False show ?thesis by (intro exI [of _ "Suc k"]) (auto simp: r Let_def)
    qed
  qed simp
  from this [OF assms(2)] assms(1) show ?thesis by (auto simp: Drain_def)
qed

theorem drain_result_witness:
  "\<exists>n. Drain (2 * Second) 0 [(NewOrderTracker :: table OrderTracker, 3 * Second)]
      (demo_gateway\<lparr> gw_intake := Some False \<rparr>) = Some (n, demo_gateway\<lparr> gw_intake := Some True \<rparr>) \<and> n = 0"
  using drain_result [of "demo_gateway\<lparr> gw_intake := Some False \<rparr>" False
      "[(NewOrderTracker, 3 * Second)]" 0 "2 * Second"]
  by (auto simp: NewOrderTracker_def GetAllActiveOrders_def)

end
