(* ===== verification/Interleave.thy ===== *)
theory Interleave
  imports GatewayRun
begin

text \<open>
  The two workers of \<open>internal/gateway/gateway.go\<close> at the granularity of their atomic actions. A step
  of a worker is one access to what they share: a critical section of the tracker's lock, one
  statement of the database (issued after the lock is released), one call of the broker, one read
  of the kill switch. Steps of both workers and of the operator interleave freely. The gauges and
  counters are only ever added to, so an increment is part of the step beside it; the limiter and
  the connector are used by the intents worker alone, so \<open>Wait\<close> and the submission are one step each.
\<close>

section \<open>The tracker's operations in two steps\<close>

text \<open>\<open>AddOrder\<close>, \<open>UpdateOrderState\<close> and \<open>UpdateOrderStateAndQty\<close> change the maps under the lock and
  write to the store after it has been released. \<open>upd_mem\<close> returns the quantity to be written, or
  \<open>None\<close> if the state did not change and nothing is written.\<close>

definition add_mem :: "Order \<Rightarrow> OrderState \<Rightarrow> 's OrderTracker \<Rightarrow> 's OrderTracker" where
  "add_mem order state t =
     t\<lparr> tr_orders := AList.update (o_OrderID order) order (tr_orders t),
        tr_states := AList.update (o_OrderID order) state (tr_states t) \<rparr>"

definition add_db :: "'s OrderStore \<Rightarrow> call \<Rightarrow> Order \<Rightarrow> OrderState \<Rightarrow> 's OrderTracker \<Rightarrow> 's OrderTracker" where
  "add_db S c order state t =
     t\<lparr> tr_store := map_option (\<lambda>s. snd (st_SaveOrder S c order state s)) (tr_store t) \<rparr>"

definition upd_mem :: "'s OrderStore \<Rightarrow> call \<Rightarrow> string \<Rightarrow> OrderState \<Rightarrow> 's OrderTracker \<Rightarrow>
    float64 option \<times> 's OrderTracker" where
  "upd_mem S c oid state t =
     (if map_of (tr_states t) oid \<noteq> Some state
      then (Some (filled_qty_for S c oid state t), t\<lparr> tr_states := AList.update oid state (tr_states t) \<rparr>)
      else (None, t))"

definition updq_mem :: "string \<Rightarrow> OrderState \<Rightarrow> 's OrderTracker \<Rightarrow> 's OrderTracker" where
  "updq_mem oid state t = t\<lparr> tr_states := AList.update oid state (tr_states t) \<rparr>"

definition upd_db :: "'s OrderStore \<Rightarrow> call \<Rightarrow> string \<Rightarrow> OrderState \<Rightarrow> float64 \<Rightarrow> 's OrderTracker \<Rightarrow> 's OrderTracker" where
  "upd_db S c oid state q t =
     t\<lparr> tr_store := map_option (\<lambda>s. snd (st_UpdateOrderState S c oid state q s)) (tr_store t) \<rparr>"

definition write_qty :: "'s OrderStore \<Rightarrow> call \<Rightarrow> string \<Rightarrow> OrderState \<Rightarrow> float64 option \<Rightarrow> 's OrderTracker \<Rightarrow> 's OrderTracker" where
  "write_qty S c oid state q t = (case q of None \<Rightarrow> t | Some q \<Rightarrow> upd_db S c oid state q t)"

lemma AddOrder_two_steps: "AddOrder S c order state t = add_db S c order state (add_mem order state t)"
  by (simp add: AddOrder_def add_db_def add_mem_def)

lemma UpdateOrderState_two_steps:
  "snd (UpdateOrderState S c1 c2 oid state t) =
     write_qty S c2 oid state (fst (upd_mem S c1 oid state t)) (snd (upd_mem S c1 oid state t))"
  by (simp add: UpdateOrderState_def upd_mem_def upd_db_def write_qty_def Let_def)

lemma UpdateOrderStateAndQty_two_steps:
  "snd (UpdateOrderStateAndQty S c oid state q t) = upd_db S c oid state q (updq_mem oid state t)"
  by (simp add: UpdateOrderStateAndQty_def updq_mem_def upd_db_def)

section \<open>Publishing, attempt by attempt\<close>

text \<open>One turn of the loop of \<open>publishFillWithRetry\<close>, at attempt \<open>k\<close> with the pause \<open>b\<close> and the last
  error \<open>le\<close>: either the loop ends with its result, or it goes on.\<close>

definition publish_turn :: "('s, 'x, 'p, 'k, 'm) ports \<Rightarrow> (nat \<Rightarrow> call) \<Rightarrow> ExecutionFill \<Rightarrow> nat \<Rightarrow> duration \<Rightarrow>
    goerror option \<Rightarrow> ('s, 'x, 'p, 'm) Gateway \<Rightarrow>
    (goerror option + duration \<times> goerror option) \<times> ('s, 'x, 'p, 'm) Gateway" where
  "publish_turn pt io fill k b le gw =
     (if \<not> int k \<le> gw_publishRetries gw
      then (Inl (Some (''publish failed after '' @ itoa (gw_publishRetries gw + 1) @ '' attempts: '' @
              (case le of None \<Rightarrow> ''%!w(<nil>)'' | Some e \<Rightarrow> e))), gw)
      else if 0 < k \<and> c_done (io k) then (Inl (Some (''publish retry aborted: '' @ c_err (io k))), gw)
      else case PublishFill (pt_producer pt) (io k) fill (gw_producer gw) of
        (None, p') \<Rightarrow> (Inl None, gw\<lparr> gw_producer := p' \<rparr>)
      | (Some e, p') \<Rightarrow> (Inr (next_backoff k b, Some e), gw\<lparr> gw_producer := p' \<rparr>))"

section \<open>The steps of the intents worker\<close>

datatype ipoint =
    PHalt
  | PDup
  | PRisk
  | PWait
  | PAdd
  | PSave
  | PSubmit
  | PMark "goerror + ExecutionFill"
  | PWrite "goerror + ExecutionFill" "float64 option"
  | PBook ExecutionFill
  | PBookWrite ExecutionFill "float64 option"
  | PCosts ExecutionFill
  | PPublish ExecutionFill nat duration "goerror option"
  | PReject outcome
  | PRejectSave outcome
  | PCommit outcome

text \<open>The reason counted for a rejection, and whether the order is recorded.\<close>

fun reject_reason :: "outcome \<Rightarrow> string" where
  "reject_reason RejHalted = ''operator_halt''"
| "reject_reason (RejInvalid r) = r"
| "reject_reason RejDuplicate = ReasonOrderIDDuplicate"
| "reject_reason (RejRisk r) = r"
| "reject_reason _ = ''''"

definition reject_records :: "outcome \<Rightarrow> bool" where
  "reject_records out = (case out of RejHalted \<Rightarrow> True | RejRisk _ \<Rightarrow> True | _ \<Rightarrow> False)"

definition mark_state :: "goerror + ExecutionFill \<Rightarrow> OrderState" where
  "mark_state res = (case res of Inl _ \<Rightarrow> StateRejected | Inr _ \<Rightarrow> StateSubmitted)"

text \<open>One step at a point of the handler: the outcome if the handler ends with it, or the next
  point; \<open>None\<close> while the limiter has not returned.\<close>

fun istep :: "('s, 'x, 'p, 'k, 'm) ports \<Rightarrow> (string \<Rightarrow> string) \<Rightarrow> intent_env \<Rightarrow> Order \<Rightarrow> 'k \<Rightarrow> ipoint \<Rightarrow>
    ('s, 'x, 'p, 'm) Gateway \<Rightarrow> ((outcome + ipoint) \<times> ('s, 'x, 'p, 'm) Gateway) option" where
  "istep pt uni env i msg PHalt gw =
     Some (Inr (if IsHalted (gw_halt gw) then PReject RejHalted
                else case ValidateOrderID (o_OrderID i) of
                  Some r \<Rightarrow> PReject (RejInvalid r) | None \<Rightarrow> PDup), gw)"
| "istep pt uni env i msg PDup gw =
     Some (Inr (if tracker_GetOrderState (o_OrderID i) (gw_tracker gw) \<noteq> None then PReject RejDuplicate else PRisk), gw)"
| "istep pt uni env i msg PRisk gw =
     Some (Inr (case checkRiskLimits pt uni env i gw of (False, r) \<Rightarrow> PReject (RejRisk r) | (True, _) \<Rightarrow> PWait), gw)"
| "istep pt uni env i msg PWait gw =
     (case limiter_Wait (ie_rounds env) (gw_limiter gw) of
        None \<Rightarrow> None
      | Some (Some e, tb) \<Rightarrow> Some (Inl (Throttled e), gw\<lparr> gw_limiter := tb \<rparr>)
      | Some (None, tb) \<Rightarrow> Some (Inr PAdd, gw\<lparr> gw_limiter := tb \<rparr>))"
| "istep pt uni env i msg PAdd gw = Some (Inr PSave, track (add_mem i StatePending) gw)"
| "istep pt uni env i msg PSave gw =
     Some (Inr PSubmit, add_active 1 (track (add_db (pt_store pt) (ie_add env) i StatePending) gw))"
| "istep pt uni env i msg PSubmit gw =
     (case submit_intent pt env i gw of (res, gw') \<Rightarrow> Some (Inr (PMark res), gw'))"
| "istep pt uni env i msg (PMark res) gw =
     (case upd_mem (pt_store pt) (fst (ie_upd env)) (o_OrderID i) (mark_state res) (gw_tracker gw) of
        (q, t') \<Rightarrow> Some (Inr (PWrite res q), gw\<lparr> gw_tracker := t' \<rparr>))"
| "istep pt uni env i msg (PWrite res q) gw =
     (let gw' = track (write_qty (pt_store pt) (snd (ie_upd env)) (o_OrderID i) (mark_state res) q) gw in
      case res of
        Inl err \<Rightarrow> Some (Inr (PCommit (SubmitFailed err)), add_active (- 1) gw')
      | Inr fill \<Rightarrow> Some (Inr (if float_gt (f_Quantity fill) (Fin 0) then PBook fill else PCommit Accepted),
                          count_submitted i gw'))"
| "istep pt uni env i msg (PBook fill) gw =
     (case upd_mem (pt_store pt) (fst (ie_updFilled env)) (f_OrderID fill) StateFilled (gw_tracker gw) of
        (q, t') \<Rightarrow> Some (Inr (PBookWrite fill q), (add_active (- 1) (count_filled fill gw))\<lparr> gw_tracker := t' \<rparr>))"
| "istep pt uni env i msg (PBookWrite fill q) gw =
     Some (Inr (PCosts fill), track (write_qty (pt_store pt) (snd (ie_updFilled env)) (f_OrderID fill) StateFilled q) gw)"
| "istep pt uni env i msg (PCosts fill) gw =
     Some (Inr (PPublish fill 0 (gw_publishBackoff gw) None),
       track (record_costs (pt_store pt) (ie_costs env) (f_OrderID fill) (f_TransactionCost fill)
                (float_sub (f_FillPrice fill) (o_Price i))) gw)"
| "istep pt uni env i msg (PPublish fill k b le) gw =
     (case publish_turn pt (ie_pub env) fill k b le gw of
        (Inl None, gw') \<Rightarrow> Some (Inr (PCommit (FillPublished fill)), gw')
      | (Inl (Some e), gw') \<Rightarrow> Some (Inl (PublishFailed fill e), gw')
      | (Inr (b', le'), gw') \<Rightarrow> Some (Inr (PPublish fill (Suc k) b' le'), gw'))"
| "istep pt uni env i msg (PReject out) gw =
     (if reject_records out
      then Some (Inr (PRejectSave out), track (add_mem i StateRejected) (count_rejection i (reject_reason out) gw))
      else Some (Inr (PCommit out), count_rejection i (reject_reason out) gw))"
| "istep pt uni env i msg (PRejectSave out) gw =
     Some (Inr (PCommit out), track (add_db (pt_store pt) (ie_add env) i StateRejected) gw)"
| "istep pt uni env i msg (PCommit out) gw = Some (Inl out, commit_msg pt (ie_commit env) msg gw)"

section \<open>The steps of the fills worker\<close>

datatype fpoint = FMark | FWrite | FSlip | FCosts float64 | FPublish nat duration "goerror option"

definition fill_ends :: "ExecutionFill \<Rightarrow> bool" where
  "fill_ends fill = (fill_target fill \<in> {StateFilled, StateCanceled, StateRejected})"

fun fstep :: "('s, 'x, 'p, 'k, 'm) ports \<Rightarrow> fill_env \<Rightarrow> ExecutionFill \<Rightarrow> fpoint \<Rightarrow>
    ('s, 'x, 'p, 'm) Gateway \<Rightarrow> (goerror option + fpoint) \<times> ('s, 'x, 'p, 'm) Gateway" where
  "fstep pt env fill FMark gw =
     (Inr FWrite, track (updq_mem (f_OrderID fill) (fill_target fill)) (count_filled fill gw))"
| "fstep pt env fill FWrite gw =
     (Inr FSlip, (if fill_ends fill then add_active (- 1) else id)
        (track (upd_db (pt_store pt) (fe_upd env) (f_OrderID fill) (fill_target fill) (f_Quantity fill)) gw))"
| "fstep pt env fill FSlip gw = (Inr (FCosts (fill_slippage fill (gw_tracker gw))), gw)"
| "fstep pt env fill (FCosts slip) gw =
     (Inr (FPublish 0 (gw_publishBackoff gw) None),
      track (record_costs (pt_store pt) (fe_costs env) (f_OrderID fill) (f_TransactionCost fill) slip) gw)"
| "fstep pt env fill (FPublish k b le) gw =
     (case publish_turn pt (fe_pub env) fill k b le gw of
        (Inl r, gw') \<Rightarrow> (Inl r, gw')
      | (Inr (b', le'), gw') \<Rightarrow> (Inr (FPublish (Suc k) b' le'), gw'))"

section \<open>Uninterrupted steps are the handlers\<close>

fun isteps :: "('s, 'x, 'p, 'k, 'm) ports \<Rightarrow> (string \<Rightarrow> string) \<Rightarrow> intent_env \<Rightarrow> Order \<Rightarrow> 'k \<Rightarrow> nat \<Rightarrow> ipoint \<Rightarrow>
    ('s, 'x, 'p, 'm) Gateway \<Rightarrow> (outcome \<times> ('s, 'x, 'p, 'm) Gateway) option" where
  "isteps pt uni env i msg 0 p gw = None"
| "isteps pt uni env i msg (Suc n) p gw =
     (case istep pt uni env i msg p gw of
        None \<Rightarrow> None
      | Some (Inl out, gw') \<Rightarrow> Some (out, gw')
      | Some (Inr p', gw') \<Rightarrow> isteps pt uni env i msg n p' gw')"

fun fsteps :: "('s, 'x, 'p, 'k, 'm) ports \<Rightarrow> fill_env \<Rightarrow> ExecutionFill \<Rightarrow> nat \<Rightarrow> fpoint \<Rightarrow>
    ('s, 'x, 'p, 'm) Gateway \<Rightarrow> (goerror option \<times> ('s, 'x, 'p, 'm) Gateway) option" where
  "fsteps pt env fill 0 p gw = None"
| "fsteps pt env fill (Suc n) p gw =
     (case fstep pt env fill p gw of
        (Inl r, gw') \<Rightarrow> Some (r, gw')
      | (Inr p', gw') \<Rightarrow> fsteps pt env fill n p' gw')"

text \<open>The attempts left at attempt \<open>k\<close>.\<close>

abbreviation attempts_left :: "('s, 'x, 'p, 'm) Gateway \<Rightarrow> nat \<Rightarrow> nat" where
  "attempts_left gw k \<equiv> nat (gw_publishRetries gw + 1 - int k)"

definition publish_from :: "('s, 'x, 'p, 'k, 'm) ports \<Rightarrow> (nat \<Rightarrow> call) \<Rightarrow> ExecutionFill \<Rightarrow> nat \<Rightarrow> duration \<Rightarrow>
    goerror option \<Rightarrow> ('s, 'x, 'p, 'm) Gateway \<Rightarrow> goerror option \<times> ('s, 'x, 'p, 'm) Gateway" where
  "publish_from pt io fill k b le gw =
     (case publish_loop (pt_producer pt) io fill (gw_publishRetries gw + 1) k (attempts_left gw k) b le (gw_producer gw) of
        (r, pauses, p') \<Rightarrow> (r, gw\<lparr> gw_producer := p' \<rparr>))"

lemma publishFillWithRetry_from:
  "publishFillWithRetry pt io fill gw = publish_from pt io fill 0 (gw_publishBackoff gw) None gw"
  by (simp add: publishFillWithRetry_def publish_from_def)

lemma publish_from_turn:
  "publish_from pt io fill k b le gw =
     (case publish_turn pt io fill k b le gw of
        (Inl r, gw') \<Rightarrow> (r, gw')
      | (Inr (b', le'), gw') \<Rightarrow> publish_from pt io fill (Suc k) b' le' gw')"
proof (cases "int k \<le> gw_publishRetries gw")
  case False
  then have "attempts_left gw k = 0" by simp
  with False show ?thesis by (simp add: publish_from_def publish_turn_def)
next
  case True
  then have n: "attempts_left gw k = Suc (attempts_left gw (Suc k))" by simp
  obtain r p' where pub: "PublishFill (pt_producer pt) (io k) fill (gw_producer gw) = (r, p')" by fastforce
  show ?thesis
  proof (cases "0 < k \<and> c_done (io k)")
    case stop: True
    with True show ?thesis unfolding publish_from_def n by (simp add: publish_turn_def publish_loop_abort)
  next
    case False
    then have t: "publish_turn pt io fill k b le gw = (case r of None \<Rightarrow> Inl None | Some e \<Rightarrow> Inr (next_backoff k b, Some e),
        gw\<lparr> gw_producer := p' \<rparr>)"
      using True pub by (simp only: publish_turn_def simp_thms if_False) (simp split: option.split)
    show ?thesis
    proof (cases r)
      case None
      then show ?thesis using publish_loop_last [of k io "pt_producer pt" fill "gw_producer gw" p'] False pub
        unfolding t publish_from_def n by simp
    next
      case (Some e)
      then show ?thesis using publish_loop_retry [of k io "pt_producer pt" fill "gw_producer gw" e p'] False pub
        unfolding t publish_from_def n by (simp add: case_prod_beta)
    qed
  qed
qed

lemma publish_turn_frame [simp]:
  "gw_publishRetries (snd (publish_turn pt io fill k b le gw)) = gw_publishRetries gw"
  "gw_tracker (snd (publish_turn pt io fill k b le gw)) = gw_tracker gw"
  "gw_consumer (snd (publish_turn pt io fill k b le gw)) = gw_consumer gw"
  "gw_halt (snd (publish_turn pt io fill k b le gw)) = gw_halt gw"
  "gw_maxDailyOrders (snd (publish_turn pt io fill k b le gw)) = gw_maxDailyOrders gw"
  by (simp_all add: publish_turn_def split: prod.split option.split)

lemma publish_turn_goes_on:
  assumes "publish_turn pt io fill k b le gw = (Inr x, gw')"
  shows "int k \<le> gw_publishRetries gw" "gw_publishRetries gw' = gw_publishRetries gw"
proof -
  show "int k \<le> gw_publishRetries gw"
    using assms by (rule contrapos_pp) (simp add: publish_turn_def)
  show "gw_publishRetries gw' = gw_publishRetries gw"
    using publish_turn_frame(1) [of pt io fill k b le gw] assms by simp
qed

lemma isteps_publish:
  assumes "attempts_left gw k + 2 \<le> n"
  shows "isteps pt uni env i msg n (PPublish fill k b le) gw =
    Some (case publish_from pt (ie_pub env) fill k b le gw of
            (Some e, gw') \<Rightarrow> (PublishFailed fill e, gw')
          | (None, gw') \<Rightarrow> (FillPublished fill, commit_msg pt (ie_commit env) msg gw'))"
  using assms
proof (induction n arbitrary: k b le gw)
  case (Suc n)
  obtain x gw1 where t: "publish_turn pt (ie_pub env) fill k b le gw = (x, gw1)" by fastforce
  show ?case
  proof (cases x)
    case (Inl r)
    from Suc.prems obtain m where "n = Suc m" by (cases n) auto
    with Inl t show ?thesis by (cases r) (simp_all add: publish_from_turn [of pt "ie_pub env" fill k])
  next
    case (Inr y)
    obtain b' le' where y: "y = (b', le')" by fastforce
    have "attempts_left gw1 (Suc k) + 2 \<le> n"
      using Suc.prems publish_turn_goes_on [of pt "ie_pub env" fill k b le gw y gw1] t Inr by simp
    from Suc.IH [OF this] show ?thesis using Inr t y by (simp add: publish_from_turn [of pt "ie_pub env" fill k])
  qed
qed simp

lemma fsteps_publish:
  assumes "attempts_left gw k + 1 \<le> n"
  shows "fsteps pt env fill n (FPublish k b le) gw = Some (publish_from pt (fe_pub env) fill k b le gw)"
  using assms
proof (induction n arbitrary: k b le gw)
  case (Suc n)
  obtain x gw1 where t: "publish_turn pt (fe_pub env) fill k b le gw = (x, gw1)" by fastforce
  show ?case
  proof (cases x)
    case (Inl r)
    with t show ?thesis by (simp add: publish_from_turn [of pt "fe_pub env" fill k])
  next
    case (Inr y)
    obtain b' le' where y: "y = (b', le')" by fastforce
    have "attempts_left gw1 (Suc k) + 1 \<le> n"
      using Suc.prems publish_turn_goes_on [of pt "fe_pub env" fill k b le gw y gw1] t Inr by simp
    from Suc.IH [OF this] show ?thesis using Inr t y by (simp add: publish_from_turn [of pt "fe_pub env" fill k])
  qed
qed simp

text \<open>What follows the submission, and the rejections, as one piece.\<close>

lemma settle_steps:
  assumes "attempts_left gw 0 + 7 \<le> n"
  shows "isteps pt uni env i msg n (PMark res) gw = Some (settle pt env i msg res gw)"
proof -
  obtain m where n: "n = Suc (Suc (Suc (Suc (Suc m))))" "attempts_left gw 0 + 2 \<le> m"
    using assms by (intro that [of "n - 5"]) simp_all
  have upd: "write_qty S c2 oid st (fst (upd_mem S c1 oid st t)) (snd (upd_mem S c1 oid st t)) =
      snd (UpdateOrderState S c1 c2 oid st t)" for S :: "'a OrderStore" and c1 c2 oid st t
    by (simp add: UpdateOrderState_two_steps)
  show ?thesis
  proof (cases res)
    case (Inl err)
    then show ?thesis
      unfolding n by (simp add: settle_def Let_def mark_state_def case_prod_beta track_def upd)
  next
    case (Inr fill)
    let ?g1 = "count_submitted i (track (\<lambda>t. snd (UpdateOrderState (pt_store pt) (fst (ie_upd env)) (snd (ie_upd env))
        (o_OrderID i) StateSubmitted t)) gw)"
    let ?g2 = "book_immediate pt env i fill ?g1"
    have r: "gw_publishRetries ?g2 = gw_publishRetries gw" "gw_publishBackoff ?g2 = gw_publishBackoff gw"
      by (simp_all add: book_immediate_def gateway_simps)
    show ?thesis
    proof (cases "float_gt (f_Quantity fill) (Fin 0)")
      case True
      have "isteps pt uni env i msg n (PMark res) gw =
          isteps pt uni env i msg m (PPublish fill 0 (gw_publishBackoff gw) None) ?g2"
        unfolding n using Inr True
        by (simp add: mark_state_def case_prod_beta book_immediate_def gateway_simps upd)
      also have "\<dots> = Some (settle pt env i msg res gw)"
        using isteps_publish [of ?g2 0 m pt uni env i msg fill "gw_publishBackoff gw" None] n(2) r Inr True
        by (simp add: settle_def Let_def publishFillWithRetry_from)
      finally show ?thesis .
    next
      case False
      with Inr show ?thesis
        unfolding n by (simp add: settle_def Let_def mark_state_def case_prod_beta track_def upd)
    qed
  qed
qed

lemma reject_steps:
  assumes "3 \<le> n" "screen pt uni env i gw0 = Some out"
  shows "isteps pt uni env i msg n (PReject out) gw = Some (out, reject pt env i msg out gw)"
proof -
  obtain m where n: "n = Suc (Suc (Suc m))" using assms(1) by (intro that [of "n - 3"]) simp
  show ?thesis
    unfolding n using screen_outcome [OF assms(2)]
    by (auto simp: reject_records_def AddOrder_two_steps track_def)
qed

definition screen_cost :: "outcome \<Rightarrow> nat" where
  "screen_cost out = (case out of RejHalted \<Rightarrow> 1 | RejInvalid _ \<Rightarrow> 1 | RejDuplicate \<Rightarrow> 2 | _ \<Rightarrow> 3)"

lemma screen_steps:
  "isteps pt uni env i msg (Suc (Suc (Suc m))) PHalt gw =
     (case screen pt uni env i gw of
        Some out \<Rightarrow> isteps pt uni env i msg (Suc (Suc (Suc m)) - screen_cost out) (PReject out) gw
      | None \<Rightarrow> isteps pt uni env i msg m PWait gw)"
  by (auto simp: screen_def screen_cost_def simp del: istep.simps(4,14) split: option.split prod.split bool.split)

lemma track_add_active:
  "track f (add_active d gw) = add_active d (track f gw)" "track f (track g gw) = track (\<lambda>t. f (g t)) gw"
  "gw_tracker (add_active d gw) = gw_tracker gw" "gw_tracker (track f gw) = f (gw_tracker gw)"
  "gw_publishBackoff (add_active d gw) = gw_publishBackoff gw" "gw_publishBackoff (track f gw) = gw_publishBackoff gw"
  by (simp_all add: gateway_simps)

lemma intent_steps:
  assumes "attempts_left gw 0 + 14 \<le> n"
  shows "isteps pt uni env i msg n PHalt (gw\<lparr> gw_ready := True \<rparr>) = handle_intent pt uni env i msg gw"
proof -
  let ?g = "gw\<lparr> gw_ready := True \<rparr>"
  obtain m where n: "n = Suc (Suc (Suc (Suc (Suc (Suc (Suc m))))))" and m: "attempts_left gw 0 + 7 \<le> m"
    using assms by (intro that [of "n - 7"]) simp_all
  show ?thesis
  proof (cases "screen pt uni env i ?g")
    case (Some out)
    have "3 \<le> n - screen_cost out" using m n by (simp add: screen_cost_def split: outcome.split)
    then have "isteps pt uni env i msg n PHalt ?g = Some (out, reject pt env i msg out ?g)"
      using reject_steps [OF _ Some] Some screen_steps [of pt uni env i msg "Suc (Suc (Suc (Suc m)))" ?g] n by simp
    then show ?thesis using Some by (simp add: handle_intent_def)
  next
    case None
    then have pass: "isteps pt uni env i msg n PHalt ?g = isteps pt uni env i msg (Suc (Suc (Suc (Suc m)))) PWait ?g"
      unfolding n screen_steps by simp
    show ?thesis
    proof (cases "limiter_Wait (ie_rounds env) (gw_limiter gw)")
      case none: None
      with None show ?thesis unfolding pass by (simp add: handle_intent_def)
    next
      case (Some r)
      obtain e tb where r: "r = (e, tb)" by fastforce
      show ?thesis
      proof (cases e)
        case none: None
        let ?h = "register pt env i (?g\<lparr> gw_limiter := tb \<rparr>)"
        obtain res gw1 where sub: "submit_intent pt env i ?h = (res, gw1)" by fastforce
        have "gw_publishRetries gw1 = gw_publishRetries gw"
          using sub by (auto simp: submit_intent_def case_prod_beta split: bool.splits option.splits)
        moreover have "isteps pt uni env i msg n PHalt ?g = isteps pt uni env i msg m (PMark res) gw1"
          using Some r none sub unfolding pass
          by (simp add: register_def AddOrder_two_steps track_def)
        ultimately show ?thesis
          using settle_steps [of gw1 m pt uni env i msg res] m None Some r none sub
          by (simp add: handle_intent_def process_def)
      next
        case err: (Some x)
        with None Some r show ?thesis unfolding pass by (simp add: handle_intent_def)
      qed
    qed
  qed
qed

lemma fill_steps:
  assumes "attempts_left gw 0 + 5 \<le> n"
  shows "fsteps pt env fill n FMark gw = Some (handle_fill pt env fill gw)"
proof -
  obtain m where n: "n = Suc (Suc (Suc (Suc m)))" and m: "attempts_left gw 0 + 1 \<le> m"
    using assms by (intro that [of "n - 4"]) simp_all
  let ?g = "(if fill_ends fill then add_active (- 1) else id) (track (book_fill (pt_store pt) env fill) (count_filled fill gw))"
  have g: "gw_publishRetries ?g = gw_publishRetries gw" "gw_publishBackoff ?g = gw_publishBackoff gw"
    by (simp_all add: gateway_simps)
  have h: "handle_fill pt env fill gw = publishFillWithRetry pt (fe_pub env) fill ?g"
    by (simp add: handle_fill_def Let_def fill_ends_def)
  have "fsteps pt env fill n FMark gw = fsteps pt env fill m (FPublish 0 (gw_publishBackoff gw) None) ?g"
    unfolding n
    by (simp add: track_add_active count_filled_def)
       (simp add: track_def book_fill_def UpdateOrderStateAndQty_two_steps Let_def)
  also have "\<dots> = Some (handle_fill pt env fill gw)"
    unfolding h publishFillWithRetry_from g(2) using m g(1) by (intro fsteps_publish) simp
  finally show ?thesis .
qed

section \<open>Runs\<close>

text \<open>The shared state and the point at which each worker is; \<open>None\<close> at the head of its loop.\<close>

record ('s, 'x, 'p, 'k, 'm) workers =
  wk_gw :: "('s, 'x, 'p, 'm) Gateway"
  wk_intent :: "(intent_env \<times> Order \<times> 'k \<times> ipoint) option"
  wk_fill :: "(fill_env \<times> ExecutionFill \<times> fpoint) option"

definition idle :: "('s, 'x, 'p, 'm) Gateway \<Rightarrow> ('s, 'x, 'p, 'k, 'm) workers" where
  "idle gw = \<lparr> wk_gw = gw, wk_intent = None, wk_fill = None \<rparr>"

text \<open>What is seen of a run: submissions, the ends of both handlers, the operator's commands.\<close>

datatype 'k event =
    Submitted Order
  | IntentDone Order 'k outcome
  | FillDone ExecutionFill "goerror option"
  | Halted
  | Resumed

definition sent_events :: "ipoint \<Rightarrow> Order \<Rightarrow> 'k event list" where
  "sent_events p i = (if p = PSubmit then [Submitted i] else [])"

inductive work :: "('s, 'x, 'p, 'k, 'm) ports \<Rightarrow> (string \<Rightarrow> string) \<Rightarrow> (intent_env \<Rightarrow> bool) \<Rightarrow>
    ('s, 'x, 'p, 'k, 'm) workers \<Rightarrow> 'k event list \<Rightarrow> ('s, 'x, 'p, 'k, 'm) workers \<Rightarrow> bool"
  for pt uni Q st0 where
  start: "work pt uni Q st0 [] st0"
| fetch: "\<lbrakk> work pt uni Q st0 tr st; wk_intent st = None; Q env;
     FetchIntent (pt_consumer pt) c (gw_consumer (wk_gw st)) = (Inr (i, msg), m') \<rbrakk> \<Longrightarrow>
     work pt uni Q st0 tr (st\<lparr> wk_gw := (wk_gw st)\<lparr> gw_consumer := m', gw_ready := True \<rparr>,
                             wk_intent := Some (env, i, msg, PHalt) \<rparr>)"
| fetch_error: "\<lbrakk> work pt uni Q st0 tr st; wk_intent st = None;
     FetchIntent (pt_consumer pt) c (gw_consumer (wk_gw st)) = (Inl e, m') \<rbrakk> \<Longrightarrow>
     work pt uni Q st0 tr (st\<lparr> wk_gw := (wk_gw st)\<lparr> gw_consumer := m' \<rparr> \<rparr>)"
| intent_step: "\<lbrakk> work pt uni Q st0 tr st; wk_intent st = Some (env, i, msg, p);
     istep pt uni env i msg p (wk_gw st) = Some (Inr p', gw') \<rbrakk> \<Longrightarrow>
     work pt uni Q st0 (tr @ sent_events p i) (st\<lparr> wk_gw := gw', wk_intent := Some (env, i, msg, p') \<rparr>)"
| intent_end: "\<lbrakk> work pt uni Q st0 tr st; wk_intent st = Some (env, i, msg, p);
     istep pt uni env i msg p (wk_gw st) = Some (Inl out, gw') \<rbrakk> \<Longrightarrow>
     work pt uni Q st0 (tr @ [IntentDone i msg out]) (st\<lparr> wk_gw := gw', wk_intent := None \<rparr>)"
| take_fill: "\<lbrakk> work pt uni Q st0 tr st; wk_fill st = None \<rbrakk> \<Longrightarrow>
     work pt uni Q st0 tr (st\<lparr> wk_fill := Some (fenv, f, FMark) \<rparr>)"
| fill_step: "\<lbrakk> work pt uni Q st0 tr st; wk_fill st = Some (fenv, f, p);
     fstep pt fenv f p (wk_gw st) = (Inr p', gw') \<rbrakk> \<Longrightarrow>
     work pt uni Q st0 tr (st\<lparr> wk_gw := gw', wk_fill := Some (fenv, f, p') \<rparr>)"
| fill_end: "\<lbrakk> work pt uni Q st0 tr st; wk_fill st = Some (fenv, f, p);
     fstep pt fenv f p (wk_gw st) = (Inl r, gw') \<rbrakk> \<Longrightarrow>
     work pt uni Q st0 (tr @ [FillDone f r]) (st\<lparr> wk_gw := gw', wk_fill := None \<rparr>)"
| halt: "work pt uni Q st0 tr st \<Longrightarrow>
     work pt uni Q st0 (tr @ [Halted]) (st\<lparr> wk_gw := (wk_gw st)\<lparr> gw_halt := Halt_Set reason (gw_halt (wk_gw st)) \<rparr> \<rparr>)"
| resume: "work pt uni Q st0 tr st \<Longrightarrow>
     work pt uni Q st0 (tr @ [Resumed]) (st\<lparr> wk_gw := (wk_gw st)\<lparr> gw_halt := Halt_Clear (gw_halt (wk_gw st)) \<rparr> \<rparr>)"

fun sent :: "'k event list \<Rightarrow> Order list" where
  "sent [] = []"
| "sent (Submitted i # tr) = i # sent tr"
| "sent (_ # tr) = sent tr"

lemma sent_append [simp]: "sent (tr @ tr') = sent tr @ sent tr'"
  by (induction tr rule: sent.induct) simp_all

lemma sent_events_simps [simp]:
  "sent (sent_events p i) = (if p = PSubmit then [i] else [])"
  "IntentDone j msg out \<notin> set (sent_events p i)" "Resumed \<notin> set (sent_events p i)"
  by (simp_all add: sent_events_def)

subsection \<open>What a step leaves alone\<close>

lemma mem_sel [simp]:
  "map_of (tr_states (add_mem i st t)) = (map_of (tr_states t))(o_OrderID i \<mapsto> st)"
  "tr_states (add_db S c i st t) = tr_states t"
  "map_of (tr_states (snd (upd_mem S c oid st t))) = (map_of (tr_states t))(oid \<mapsto> st)"
  "map_of (tr_states (updq_mem oid st t)) = (map_of (tr_states t))(oid \<mapsto> st)"
  "tr_states (upd_db S c oid st q t) = tr_states t"
  "tr_states (write_qty S c oid st qo t) = tr_states t"
  by (auto simp: add_mem_def add_db_def upd_mem_def updq_mem_def upd_db_def write_qty_def update_conv'
        fun_upd_idem_iff split: option.split)

lemma fstep_frame:
  assumes "fstep pt fenv f p gw = (r, gw')"
  shows "gw_consumer gw' = gw_consumer gw \<and> gw_halt gw' = gw_halt gw \<and> gw_maxDailyOrders gw' = gw_maxDailyOrders gw \<and>
    map_of (tr_states (gw_tracker gw')) =
      (if p = FMark then (map_of (tr_states (gw_tracker gw)))(f_OrderID f \<mapsto> fill_target f) else map_of (tr_states (gw_tracker gw)))"
proof (cases p)
  case (FPublish k b le)
  have "gw' = snd (publish_turn pt (fe_pub fenv) f k b le gw)"
    using assms FPublish by (auto split: prod.splits sum.splits)
  with FPublish show ?thesis by simp
qed (use assms in \<open>auto simp: gateway_simps\<close>)

text \<open>The ids the tracker knows after a step of the intents worker.\<close>

definition step_adds :: "ipoint \<Rightarrow> Order \<Rightarrow> string set" where
  "step_adds p i = (case p of PAdd \<Rightarrow> {o_OrderID i} | PMark _ \<Rightarrow> {o_OrderID i} | PBook f \<Rightarrow> {f_OrderID f}
     | PReject out \<Rightarrow> if reject_records out then {o_OrderID i} else {} | _ \<Rightarrow> {})"

lemma istep_known:
  assumes "istep pt uni env i msg p gw = Some (r, gw')"
  shows "known gw' = known gw \<union> step_adds p i"
proof (cases p)
  case PWait
  then show ?thesis using assms by (auto simp: step_adds_def split: option.splits)
next
  case (PPublish f k b le)
  have "gw' = snd (publish_turn pt (ie_pub env) f k b le gw)"
    using assms PPublish by (auto split: prod.splits sum.splits option.splits)
  with PPublish show ?thesis by (simp add: step_adds_def)
next
  case PSubmit
  then show ?thesis using assms submit_intent_Pair(1) by (fastforce simp: step_adds_def split: prod.splits)
qed (use assms in \<open>auto simp: step_adds_def Let_def gateway_simps case_prod_beta split: if_splits sum.splits\<close>)

lemma istep_frame:
  assumes "istep pt uni env i msg p gw = Some (r, gw')"
  shows "gw_halt gw' = gw_halt gw \<and> gw_maxDailyOrders gw' = gw_maxDailyOrders gw"
proof (cases p)
  case PWait
  then show ?thesis using assms by (auto split: option.splits)
next
  case (PPublish f k b le)
  have "gw' = snd (publish_turn pt (ie_pub env) f k b le gw)"
    using assms PPublish by (auto split: prod.splits sum.splits option.splits)
  then show ?thesis by simp
next
  case PSubmit
  then show ?thesis using assms submit_intent_Pair(5,6) by (fastforce split: prod.splits)
qed (use assms in \<open>auto simp: Let_def gateway_simps case_prod_beta split: if_splits sum.splits\<close>)

subsection \<open>The way to the exchange\<close>

text \<open>The points before the submission that lie behind the kill switch, behind the duplicate check,
  behind the risk check, and behind the registration.\<close>

definition past_halt :: "ipoint \<Rightarrow> bool" where
  "past_halt p = (p \<in> {PDup, PRisk, PWait, PAdd, PSave, PSubmit})"

definition past_dup :: "ipoint \<Rightarrow> bool" where
  "past_dup p = (p \<in> {PRisk, PWait, PAdd, PSave, PSubmit})"

definition past_risk :: "ipoint \<Rightarrow> bool" where
  "past_risk p = (p \<in> {PWait, PAdd, PSave})"

definition past_add :: "ipoint \<Rightarrow> bool" where
  "past_add p = (case p of PSave \<Rightarrow> True | PSubmit \<Rightarrow> True | PRejectSave _ \<Rightarrow> True | _ \<Rightarrow> False)"

lemmas past_defs = past_halt_def past_dup_def past_risk_def past_add_def

lemma istep_PPublish:
  assumes "istep pt uni env i msg (PPublish f k b le) gw = Some (r, gw')"
  shows "gw' = snd (publish_turn pt (ie_pub env) f k b le gw) \<and>
    ((\<exists>e. r = Inl (PublishFailed f e)) \<or> r = Inr (PCommit (FillPublished f)) \<or> (\<exists>b' le'. r = Inr (PPublish f (Suc k) b' le')))"
  using assms by (auto split: prod.splits sum.splits option.splits)

lemma istep_path:
  assumes "istep pt uni env i msg p gw = Some (Inr p', gw')"
  shows "(past_halt p' \<longrightarrow> past_halt p \<and> p \<noteq> PSubmit \<or> p = PHalt \<and> \<not> IsHalted (gw_halt gw)) \<and>
    (past_dup p' \<longrightarrow> past_dup p \<and> p \<noteq> PSubmit \<or> p = PDup \<and> o_OrderID i \<notin> known gw) \<and>
    (past_risk p' \<longrightarrow> past_risk p \<or> p = PRisk \<and> fst (checkRiskLimits pt uni env i gw)) \<and>
    (past_add p' \<longrightarrow> p = PAdd \<or> p = PSave \<or> (\<exists>out. p = PReject out \<and> reject_records out)) \<and>
    (p' = PSubmit \<longrightarrow> p = PSave)"
proof (cases p)
  case (PPublish f k b le)
  then have "p' = PCommit (FillPublished f) \<or> (\<exists>b' le'. p' = PPublish f (Suc k) b' le')"
    using istep_PPublish [OF assms [unfolded PPublish]] by blast
  then show ?thesis by (auto simp: past_defs)
qed (use assms in \<open>auto simp: past_defs Let_def tracker_GetOrderState_def case_prod_beta
       split: if_splits option.splits sum.splits prod.splits bool.splits\<close>)

lemma istep_PSubmit: "istep pt uni env i msg PSubmit gw \<noteq> Some (Inl out, gw')"
  by (auto split: prod.splits)

subsection \<open>No order id is submitted twice\<close>

text \<open>The ids submitted so far (\<open>ids\<close>) against the ids known at the start (\<open>K0\<close>) and now (\<open>K\<close>).\<close>

definition dup_ok :: "string set \<Rightarrow> string list \<Rightarrow> string set \<Rightarrow> bool" where
  "dup_ok K0 ids K \<longleftrightarrow> K0 \<subseteq> K \<and> set ids \<subseteq> K \<and> distinct ids \<and> set ids \<inter> K0 = {}"

definition at_ok :: "string set \<Rightarrow> string list \<Rightarrow> string set \<Rightarrow> string \<Rightarrow> ipoint \<Rightarrow> bool" where
  "at_ok K0 ids K oid p \<longleftrightarrow> (past_dup p \<longrightarrow> oid \<notin> K0 \<union> set ids) \<and> (past_add p \<longrightarrow> oid \<in> K)"

lemma dup_ok_mono: "dup_ok K0 ids K \<Longrightarrow> K \<subseteq> K' \<Longrightarrow> dup_ok K0 ids K'"
  by (auto simp: dup_ok_def)

lemma dup_ok_snoc: "dup_ok K0 ids K \<Longrightarrow> at_ok K0 ids K oid PSubmit \<Longrightarrow> dup_ok K0 (ids @ [oid]) K"
  by (auto simp: dup_ok_def at_ok_def past_defs)

lemma at_ok_mono: "at_ok K0 ids K oid p \<Longrightarrow> K \<subseteq> K' \<Longrightarrow> at_ok K0 ids K' oid p"
  by (auto simp: at_ok_def)

lemma at_ok_PHalt [simp]: "at_ok K0 ids K oid PHalt"
  by (simp add: at_ok_def past_defs)

lemma at_ok_step:
  assumes "istep pt uni env i msg p gw = Some (Inr p', gw')" "at_ok K0 ids (known gw) (o_OrderID i) p" "dup_ok K0 ids (known gw)"
  shows "at_ok K0 (ids @ (if p = PSubmit then [o_OrderID i] else [])) (known gw') (o_OrderID i) p'"
proof -
  note k = istep_known [OF assms(1)] and path = istep_path [OF assms(1)]
  have "o_OrderID i \<notin> K0 \<union> set ids \<and> p \<noteq> PSubmit" if "past_dup p'"
  proof -
    from path that have "past_dup p \<and> p \<noteq> PSubmit \<or> p = PDup \<and> o_OrderID i \<notin> known gw" by blast
    then show ?thesis using assms(2,3) unfolding at_ok_def dup_ok_def by blast
  qed
  moreover have "o_OrderID i \<in> known gw'" if "past_add p'"
  proof -
    from path that have "p = PAdd \<or> p = PSave \<or> (\<exists>out. p = PReject out \<and> reject_records out)" by blast
    then have "o_OrderID i \<in> step_adds p i \<or> past_add p" by (auto simp: step_adds_def past_add_def)
    then show ?thesis using assms(2) unfolding k at_ok_def by blast
  qed
  ultimately show ?thesis by (simp add: at_ok_def)
qed

definition dup_inv :: "('s, 'x, 'p, 'm) Gateway \<Rightarrow> 'k event list \<Rightarrow> ('s, 'x, 'p, 'k, 'm) workers \<Rightarrow> bool" where
  "dup_inv gw0 tr st \<longleftrightarrow> dup_ok (known gw0) (map o_OrderID (sent tr)) (known (wk_gw st)) \<and>
     (\<forall>env i msg p. wk_intent st = Some (env, i, msg, p) \<longrightarrow>
        at_ok (known gw0) (map o_OrderID (sent tr)) (known (wk_gw st)) (o_OrderID i) p)"

lemma dup_inv_mono:
  assumes "dup_inv gw0 tr st" "known (wk_gw st) \<subseteq> known (wk_gw st')" "sent tr' = sent tr"
    and "wk_intent st' = wk_intent st \<or> wk_intent st' = None \<or> (\<exists>env i msg. wk_intent st' = Some (env, i, msg, PHalt))"
  shows "dup_inv gw0 tr' st'"
proof -
  note inv = assms(1) [unfolded dup_inv_def]
  have "at_ok (known gw0) (map o_OrderID (sent tr)) (known (wk_gw st')) (o_OrderID i) p"
    if "wk_intent st' = Some (env, i, msg, p)" for env i msg p
    using assms(4)
  proof (elim disjE exE)
    assume "wk_intent st' = wk_intent st"
    then show ?thesis using inv that at_ok_mono [OF _ assms(2)] by metis
  qed (use that in simp_all)
  with dup_ok_mono [OF conjunct1 [OF inv] assms(2)] show ?thesis unfolding dup_inv_def assms(3) by blast
qed

lemma work_dup:
  assumes "work pt uni Q st0 tr st" "st0 = idle gw0"
  shows "dup_inv gw0 tr st"
  using assms
proof induction
  case start
  then show ?case by (simp add: dup_inv_def dup_ok_def idle_def)
next
  case (fetch tr st env c i msg m')
  then show ?case by (intro dup_inv_mono [OF fetch.IH]) simp_all
next
  case (fetch_error tr st c e m')
  then show ?case by (intro dup_inv_mono [OF fetch_error.IH]) simp_all
next
  case (intent_step tr st env i msg p p' gw')
  note inv = intent_step.IH [OF intent_step.prems, unfolded dup_inv_def] and step = intent_step.hyps(2,3)
  have at: "at_ok (known gw0) (map o_OrderID (sent tr)) (known (wk_gw st)) (o_OrderID i) p" using inv step(1) by blast
  have mono: "known (wk_gw st) \<subseteq> known gw'" using istep_known [OF step(2)] by blast
  have "dup_ok (known gw0) (map o_OrderID (sent tr) @ (if p = PSubmit then [o_OrderID i] else [])) (known gw')"
  proof (cases "p = PSubmit")
    case True
    then show ?thesis
      using dup_ok_snoc [OF dup_ok_mono [OF conjunct1 [OF inv] mono]] at_ok_mono [OF at mono]
      by (simp only: refl if_True)
  next
    case False
    then show ?thesis using dup_ok_mono [OF conjunct1 [OF inv] mono] by (simp only: if_False append_Nil2)
  qed
  moreover have "at_ok (known gw0) (map o_OrderID (sent tr) @ (if p = PSubmit then [o_OrderID i] else [])) (known gw') (o_OrderID i) p'"
    using at_ok_step [OF step(2) at] inv by blast
  ultimately show ?case by (simp add: dup_inv_def if_distrib cong: if_cong)
next
  case (intent_end tr st env i msg p out gw')
  have "known (wk_gw st) \<subseteq> known gw'" using istep_known [OF intent_end.hyps(3)] by blast
  then show ?case by (intro dup_inv_mono [OF intent_end.IH [OF intent_end.prems]]) simp_all
next
  case (take_fill tr st fenv f)
  then show ?case by (intro dup_inv_mono [OF take_fill.IH]) simp_all
next
  case (fill_step tr st fenv f p p' gw')
  have "known (wk_gw st) \<subseteq> known gw'" using fstep_frame [OF fill_step.hyps(3)] by auto
  then show ?case by (intro dup_inv_mono [OF fill_step.IH [OF fill_step.prems]]) simp_all
next
  case (fill_end tr st fenv f p r gw')
  have "known (wk_gw st) \<subseteq> known gw'" using fstep_frame [OF fill_end.hyps(3)] by auto
  then show ?case by (intro dup_inv_mono [OF fill_end.IH [OF fill_end.prems]]) simp_all
next
  case (halt tr st reason)
  then show ?case by (intro dup_inv_mono [OF halt.IH]) simp_all
next
  case (resume tr st)
  then show ?case by (intro dup_inv_mono [OF resume.IH]) simp_all
qed

subsection \<open>The kill switch\<close>

definition in_flight :: "('s, 'x, 'p, 'k, 'm) workers \<Rightarrow> nat" where
  "in_flight st = (case wk_intent st of Some (env, i, msg, p) \<Rightarrow> if past_halt p then 1 else 0 | None \<Rightarrow> 0)"

lemma work_halted:
  assumes "work pt uni Q st0 tr st" "IsHalted (gw_halt (wk_gw st0))" "Resumed \<notin> set tr"
  shows "IsHalted (gw_halt (wk_gw st)) \<and> length (sent tr) + in_flight st \<le> in_flight st0"
  using assms
proof induction
  case (intent_step tr st env i msg p p' gw')
  then have inv: "IsHalted (gw_halt (wk_gw st))" "length (sent tr) + in_flight st \<le> in_flight st0" by auto
  with istep_frame [OF intent_step.hyps(3)] istep_path [OF intent_step.hyps(3)] intent_step.hyps(2)
  show ?case by (auto simp: in_flight_def past_halt_def split: if_splits)
next
  case (intent_end tr st env i msg p out gw')
  then show ?case using istep_frame [OF intent_end.hyps(3)] by (auto simp: in_flight_def)
next
  case (fill_step tr st fenv f p p' gw')
  then show ?case using fstep_frame [OF fill_step.hyps(3)] by (auto simp: in_flight_def)
next
  case (fill_end tr st fenv f p r gw')
  then show ?case using fstep_frame [OF fill_end.hyps(3)] by (auto simp: in_flight_def)
qed (auto simp: in_flight_def past_halt_def IsHalted_def Halt_Set_def)

subsection \<open>The daily cap\<close>

lemma mem_keys [simp]:
  "tracker_keys (add_mem i st t) = tracker_keys t"
  "tracker_keys (updq_mem oid st t) = tracker_keys t"
  "tracker_keys (snd (upd_mem S c oid st t)) = tracker_keys t"
  "tracker_keys (upd_db (sqlite_store sod) c oid st q t) = tracker_keys t"
  "tracker_keys (write_qty (sqlite_store sod) c oid st qo t) = tracker_keys t"
proof -
  show "tracker_keys (add_mem i st t) = tracker_keys t" "tracker_keys (updq_mem oid st t) = tracker_keys t"
    "tracker_keys (snd (upd_mem S c oid st t)) = tracker_keys t"
    by (simp_all add: tracker_keys_def add_mem_def updq_mem_def upd_mem_def)
  show db: "tracker_keys (upd_db (sqlite_store sod) c oid st q t) = tracker_keys t" for q
    using tracker_keys_update(2) [of sod c oid st q t] unfolding UpdateOrderStateAndQty_two_steps
    by (simp add: tracker_keys_def updq_mem_def upd_db_def)
  show "tracker_keys (write_qty (sqlite_store sod) c oid st qo t) = tracker_keys t"
    by (cases qo) (simp_all add: write_qty_def db)
qed

lemma add_db_keys:
  assumes "c_ok c" "tracker_keys t = Some ks"
  shows "tracker_keys (add_db (sqlite_store sod) c i st t) =
    Some (if o_OrderID i \<in> fst ` set ks then ks else ks @ [(o_OrderID i, c_now c)])"
  using assms
  by (cases "tr_store t") (simp_all add: tracker_keys_def add_db_def sqlite_store_def SaveOrder_def row_keys_sql_upsert)

lemma key_in: "(x, y) \<in> set ks \<Longrightarrow> x \<in> fst ` set ks"
  by force

lemma istep_keys:
  assumes "istep pt uni env i msg p gw = Some (r, gw')" "pt_store pt = sqlite_store sod"
    "c_ok (ie_add env)" "tracker_keys (gw_tracker gw) = Some ks"
  shows "tracker_keys (gw_tracker gw') = Some
    (if (p = PSave \<or> (\<exists>out. p = PRejectSave out)) \<and> o_OrderID i \<notin> fst ` set ks
     then ks @ [(o_OrderID i, c_now (ie_add env))] else ks)"
proof (cases p)
  case PWait
  then show ?thesis using assms by (auto split: option.splits)
next
  case (PPublish f k b le)
  then show ?thesis using istep_PPublish [of pt uni env i msg f k b le gw r gw'] assms by simp
next
  case PSubmit
  then show ?thesis using assms submit_intent_Pair(1) by (fastforce split: prod.splits)
qed (use assms in \<open>auto simp: Let_def gateway_simps case_prod_beta add_db_keys intro: key_in
       split: if_splits sum.splits\<close>)

lemma fstep_keys:
  assumes "fstep pt fenv f p gw = (r, gw')" "pt_store pt = sqlite_store sod"
  shows "tracker_keys (gw_tracker gw') = tracker_keys (gw_tracker gw)"
proof (cases p)
  case (FPublish k b le)
  have "gw' = snd (publish_turn pt (fe_pub fenv) f k b le gw)"
    using assms FPublish by (auto split: prod.splits sum.splits)
  then show ?thesis by simp
qed (use assms in \<open>auto simp: gateway_simps\<close>)

text \<open>While an intent is between its risk check and its row, the day's count is below the cap; from
  the row on the count includes it.\<close>

definition cap_ok :: "time \<Rightarrow> int \<Rightarrow> nat \<Rightarrow> (string \<times> time) list \<Rightarrow> string set \<Rightarrow> bool" where
  "cap_ok d cap n ks K \<longleftrightarrow> fst ` set ks \<subseteq> K \<and> n \<le> day_count d ks \<and> (n = 0 \<or> int n \<le> cap)"

definition cap_at :: "time \<Rightarrow> int \<Rightarrow> nat \<Rightarrow> (string \<times> time) list \<Rightarrow> string set \<Rightarrow> string \<Rightarrow> ipoint \<Rightarrow> bool" where
  "cap_at d cap n ks K oid p \<longleftrightarrow>
     (past_risk p \<or> p = PRisk \<longrightarrow> oid \<notin> fst ` set ks) \<and> (past_risk p \<longrightarrow> int (day_count d ks) < cap) \<and>
     (past_add p \<longrightarrow> oid \<in> K) \<and> (p = PSubmit \<longrightarrow> n + 1 \<le> day_count d ks \<and> int n + 1 \<le> cap)"

lemma cap_at_PHalt [simp]: "cap_at d cap n ks K oid PHalt"
  by (simp add: cap_at_def past_defs)

lemma cap_ok_mono: "cap_ok d cap n ks K \<Longrightarrow> K \<subseteq> K' \<Longrightarrow> cap_ok d cap n ks K'"
  by (auto simp: cap_ok_def)

lemma cap_at_mono: "cap_at d cap n ks K oid p \<Longrightarrow> K \<subseteq> K' \<Longrightarrow> cap_at d cap n ks K' oid p"
  by (auto simp: cap_at_def)

lemma cap_ok_row:
  assumes "cap_ok d cap n ks K" "oid \<in> K" "d \<le> t"
  shows "cap_ok d cap n (if oid \<in> fst ` set ks then ks else ks @ [(oid, t)]) K"
  using assms by (cases "oid \<in> fst ` set ks") (simp_all add: cap_ok_def)

lemma cap_at_row:
  assumes "cap_ok d cap n ks K" "cap_at d cap n ks K oid PSave" "d \<le> t"
  shows "cap_at d cap n (ks @ [(oid, t)]) K oid PSubmit" "oid \<notin> fst ` set ks"
  using assms by (simp_all add: cap_ok_def cap_at_def past_defs)

lemma cap_step:
  assumes "istep pt uni env i msg p gw = Some (Inr p', gw')" "pt_store pt = sqlite_store sod" "same_day sod d env"
    "tracker_keys (gw_tracker gw) = Some ks" "gw_maxDailyOrders gw = cap"
    "cap_ok d cap n ks (known gw)" "cap_at d cap n ks (known gw) (o_OrderID i) p"
  shows "\<exists>ks'. tracker_keys (gw_tracker gw') = Some ks' \<and> cap_ok d cap (n + (if p = PSubmit then 1 else 0)) ks' (known gw') \<and>
    cap_at d cap (n + (if p = PSubmit then 1 else 0)) ks' (known gw') (o_OrderID i) p'"
proof -
  have day: "c_ok (ie_add env)" "d \<le> c_now (ie_add env)" "sod (c_now (ie_count env)) = d"
    using assms(3) by (simp_all add: same_day_def)
  note keys = istep_keys [OF assms(1,2) day(1) assms(4)] and k = istep_known [OF assms(1)] and path = istep_path [OF assms(1)]
  have mono: "known gw \<subseteq> known gw'" using k by blast
  have add: "o_OrderID i \<in> known gw'" if "past_add p'"
  proof -
    from path that have "p = PAdd \<or> p = PSave \<or> (\<exists>out. p = PReject out \<and> reject_records out)" by blast
    then have "o_OrderID i \<in> step_adds p i \<or> past_add p" by (auto simp: step_adds_def past_add_def)
    then show ?thesis using assms(7) unfolding k cap_at_def by blast
  qed
  have ok: "cap_ok d cap n ks (known gw')" using cap_ok_mono [OF assms(6) mono] .
  consider (row) "p = PSave \<or> (\<exists>out. p = PRejectSave out)" | (submit) "p = PSubmit"
    | (other) "\<not> (p = PSave \<or> (\<exists>out. p = PRejectSave out))" "p \<noteq> PSubmit" by blast
  then show ?thesis
  proof cases
    case row
    then have mem: "o_OrderID i \<in> known gw'" using assms(7) mono by (auto simp: cap_at_def past_add_def)
    let ?ks = "if o_OrderID i \<in> fst ` set ks then ks else ks @ [(o_OrderID i, c_now (ie_add env))]"
    have keys': "tracker_keys (gw_tracker gw') = Some ?ks" using row keys by simp
    have "cap_at d cap n ?ks (known gw') (o_OrderID i) p'"
    proof (cases "p = PSave")
      case True
      with assms(1) have "p' = PSubmit" by simp
      then show ?thesis
        using cap_at_row [OF ok _ day(2)] cap_at_mono [OF assms(7) mono] True by simp
    next
      case False
      with row assms(1) obtain out where "p' = PCommit out" by auto
      then show ?thesis by (simp add: cap_at_def past_defs)
    qed
    moreover have "p \<noteq> PSubmit" using row by auto
    ultimately show ?thesis using keys' cap_ok_row [OF ok mem day(2)] by simp
  next
    case submit
    then have p': "\<not> past_risk p'" "p' \<noteq> PRisk" "\<not> past_add p'" "p' \<noteq> PSubmit"
      using assms(1) by (auto simp: past_defs split: prod.splits)
    show ?thesis using submit keys ok p' assms(7) by (auto simp: cap_ok_def cap_at_def)
  next
    case other
    have risk: "o_OrderID i \<notin> fst ` set ks \<and> (past_risk p' \<longrightarrow> int (day_count d ks) < cap)" if "past_risk p' \<or> p' = PRisk"
    proof -
      have "past_dup p'" using that by (auto simp: past_defs)
      then have "past_dup p \<or> p = PDup \<and> o_OrderID i \<notin> known gw" using path by blast
      moreover have "o_OrderID i \<notin> fst ` set ks" if "past_dup p"
        using that assms(7) other(2) by (simp add: cap_at_def past_risk_def past_dup_def) blast
      moreover have "o_OrderID i \<notin> fst ` set ks" if "o_OrderID i \<notin> known gw"
        using that assms(6) unfolding cap_ok_def by blast
      ultimately have "o_OrderID i \<notin> fst ` set ks" by blast
      moreover have "int (day_count d ks) < cap" if "past_risk p'"
        using path that assms(7) check_passes_count [OF _ assms(2,4) day(3)] assms(5) by (auto simp: cap_at_def)
      ultimately show ?thesis by blast
    qed
    have "p' \<noteq> PSubmit" using path other by blast
    then show ?thesis using other keys ok risk add by (auto simp: cap_at_def)
  qed
qed

definition cap_inv :: "(time \<Rightarrow> time) \<Rightarrow> time \<Rightarrow> int \<Rightarrow> 'k event list \<Rightarrow> (table, 'x, 'p, 'k, 'm) workers \<Rightarrow> bool" where
  "cap_inv sod d cap tr st \<longleftrightarrow> gw_maxDailyOrders (wk_gw st) = cap \<and>
     (\<exists>ks. tracker_keys (gw_tracker (wk_gw st)) = Some ks \<and> cap_ok d cap (length (sent tr)) ks (known (wk_gw st)) \<and>
       (\<forall>env i msg p. wk_intent st = Some (env, i, msg, p) \<longrightarrow> same_day sod d env \<and>
          cap_at d cap (length (sent tr)) ks (known (wk_gw st)) (o_OrderID i) p))"

lemma cap_inv_mono:
  assumes "cap_inv sod d cap tr st" "known (wk_gw st) \<subseteq> known (wk_gw st')" "sent tr' = sent tr"
    and "gw_maxDailyOrders (wk_gw st') = gw_maxDailyOrders (wk_gw st)"
    and "tracker_keys (gw_tracker (wk_gw st')) = tracker_keys (gw_tracker (wk_gw st))"
    and "wk_intent st' = wk_intent st \<or> wk_intent st' = None \<or>
      (\<exists>env i msg. wk_intent st' = Some (env, i, msg, PHalt) \<and> same_day sod d env)"
  shows "cap_inv sod d cap tr' st'"
proof -
  let ?n = "length (sent tr)"
  obtain ks where ks: "tracker_keys (gw_tracker (wk_gw st)) = Some ks" "cap_ok d cap ?n ks (known (wk_gw st))"
    and at: "\<And>env i msg p. wk_intent st = Some (env, i, msg, p) \<Longrightarrow> same_day sod d env \<and>
          cap_at d cap ?n ks (known (wk_gw st)) (o_OrderID i) p"
    using assms(1) unfolding cap_inv_def by blast
  have "same_day sod d env \<and> cap_at d cap ?n ks (known (wk_gw st')) (o_OrderID i) p"
    if "wk_intent st' = Some (env, i, msg, p)" for env i msg p
    using assms(6)
  proof (elim disjE exE)
    assume "wk_intent st' = wk_intent st"
    then show ?thesis using at [of env i msg p] that cap_at_mono [OF _ assms(2)] by simp
  qed (use that in simp_all)
  with ks(1) cap_ok_mono [OF ks(2) assms(2)] assms(1,4,5) show ?thesis
    unfolding cap_inv_def assms(3) by metis
qed

lemma work_daily:
  assumes "work pt uni (same_day sod d) st0 tr st" "st0 = idle gw0" "pt_store pt = sqlite_store sod"
    "tracker_keys (gw_tracker gw0) = Some ks0" "fst ` set ks0 \<subseteq> known gw0"
  shows "cap_inv sod d (gw_maxDailyOrders gw0) tr st"
  using assms(1)
proof induction
  case start
  then show ?case using assms(2,4,5) by (auto simp: cap_inv_def cap_ok_def idle_def)
next
  case (fetch tr st env c i msg m')
  then show ?case by (intro cap_inv_mono [OF fetch.IH]) simp_all
next
  case (fetch_error tr st c e m')
  then show ?case by (intro cap_inv_mono [OF fetch_error.IH]) simp_all
next
  case (intent_step tr st env i msg p p' gw')
  let ?cap = "gw_maxDailyOrders gw0"
  from intent_step.IH obtain ks where ks: "tracker_keys (gw_tracker (wk_gw st)) = Some ks"
      "cap_ok d ?cap (length (sent tr)) ks (known (wk_gw st))" "gw_maxDailyOrders (wk_gw st) = ?cap"
    and at: "same_day sod d env" "cap_at d ?cap (length (sent tr)) ks (known (wk_gw st)) (o_OrderID i) p"
    using intent_step.hyps(2) unfolding cap_inv_def by blast
  have n: "length (sent (tr @ sent_events p i)) = length (sent tr) + (if p = PSubmit then 1 else 0)" by simp
  from cap_step [OF intent_step.hyps(3) assms(3) at(1) ks(1,3,2) at(2)] at(1) ks(3) istep_frame [OF intent_step.hyps(3)]
  show ?case unfolding cap_inv_def n by auto
next
  case (intent_end tr st env i msg p out gw')
  have "c_ok (ie_add env)" using intent_end.IH intent_end.hyps(2) by (auto simp: cap_inv_def same_day_def)
  moreover obtain ks where "tracker_keys (gw_tracker (wk_gw st)) = Some ks" using intent_end.IH unfolding cap_inv_def by blast
  moreover have "p \<noteq> PSave" "p \<noteq> PRejectSave out'" for out' using intent_end.hyps(3) by auto
  ultimately have "tracker_keys (gw_tracker gw') = tracker_keys (gw_tracker (wk_gw st))"
    using istep_keys [OF intent_end.hyps(3) assms(3)] by simp
  moreover have "known (wk_gw st) \<subseteq> known gw'" using istep_known [OF intent_end.hyps(3)] by blast
  ultimately show ?case using istep_frame [OF intent_end.hyps(3)] by (intro cap_inv_mono [OF intent_end.IH]) simp_all
next
  case (take_fill tr st fenv f)
  then show ?case by (intro cap_inv_mono [OF take_fill.IH]) simp_all
next
  case (fill_step tr st fenv f p p' gw')
  have "known (wk_gw st) \<subseteq> known gw'" using fstep_frame [OF fill_step.hyps(3)] by auto
  then show ?case using fstep_frame [OF fill_step.hyps(3)] fstep_keys [OF fill_step.hyps(3) assms(3)]
    by (intro cap_inv_mono [OF fill_step.IH]) simp_all
next
  case (fill_end tr st fenv f p r gw')
  have "known (wk_gw st) \<subseteq> known gw'" using fstep_frame [OF fill_end.hyps(3)] by auto
  then show ?case using fstep_frame [OF fill_end.hyps(3)] fstep_keys [OF fill_end.hyps(3) assms(3)]
    by (intro cap_inv_mono [OF fill_end.IH]) simp_all
next
  case (halt tr st reason)
  then show ?case by (intro cap_inv_mono [OF halt.IH]) simp_all
next
  case (resume tr st)
  then show ?case by (intro cap_inv_mono [OF resume.IH]) simp_all
qed

subsection \<open>Publishing and committing\<close>

text \<open>What a rejection carries, and what a commit confirms.\<close>

definition point_ok :: "(ExecutionFill \<Rightarrow> bool) \<Rightarrow> ipoint \<Rightarrow> bool" where
  "point_ok logged p = (case p of
     PReject out \<Rightarrow> \<not> reaches_exchange out \<and> is_settled out
   | PRejectSave out \<Rightarrow> \<not> reaches_exchange out \<and> is_settled out
   | PCommit out \<Rightarrow> is_settled out \<and> (\<forall>f. out = FillPublished f \<longrightarrow> logged f)
   | _ \<Rightarrow> True)"

lemma point_ok_mono: "point_ok L p \<Longrightarrow> (\<And>f. L f \<Longrightarrow> L' f) \<Longrightarrow> point_ok L' p"
  by (simp add: point_ok_def split: ipoint.splits)

lemma istep_producer:
  assumes "istep pt uni env i msg p gw = Some (r, gw')" "\<And>f k b le. p \<noteq> PPublish f k b le"
  shows "gw_producer gw' = gw_producer gw"
proof (cases p)
  case PWait
  then show ?thesis using assms by (auto split: option.splits)
next
  case PSubmit
  then show ?thesis using assms submit_intent_Pair(3) by (fastforce split: prod.splits)
qed (use assms in \<open>auto simp: Let_def gateway_simps case_prod_beta split: if_splits sum.splits\<close>)

lemma istep_consumer:
  assumes "istep pt uni env i msg p gw = Some (r, gw')" "\<And>out. p \<noteq> PCommit out"
  shows "gw_consumer gw' = gw_consumer gw"
proof (cases p)
  case PWait
  then show ?thesis using assms by (auto split: option.splits)
next
  case (PPublish f k b le)
  then show ?thesis using istep_PPublish [of pt uni env i msg f k b le gw r gw'] assms by simp
next
  case PSubmit
  then show ?thesis using assms submit_intent_Pair(2) by (fastforce split: prod.splits)
qed (use assms in \<open>auto simp: Let_def gateway_simps case_prod_beta split: if_splits sum.splits\<close>)

lemma fstep_producer:
  assumes "fstep pt fenv f p gw = (r, gw')" "\<And>k b le. p \<noteq> FPublish k b le"
  shows "gw_producer gw' = gw_producer gw \<and> (\<forall>e. r \<noteq> Inl e)"
  using assms by (cases p) (auto simp: gateway_simps)

lemma istep_point:
  assumes "istep pt uni env i msg p gw = Some (Inr p', gw')" "\<And>f k b le. p \<noteq> PPublish f k b le" "point_ok L p"
  shows "point_ok L p'"
proof (cases p)
  case PSubmit
  then show ?thesis using assms(1) by (auto simp: point_ok_def split: prod.splits)
qed (use assms in \<open>auto simp: point_ok_def Let_def case_prod_beta is_settled_def
       split: if_splits option.splits sum.splits prod.splits bool.splits outcome.splits\<close>)

lemma istep_end:
  assumes "istep pt uni env i msg p gw = Some (Inl out, gw')"
  shows "p = PCommit out \<or> (\<exists>e. out = Throttled e) \<or> (\<exists>f e. out = PublishFailed f e)"
proof (cases p)
  case (PPublish f k b le)
  then show ?thesis using istep_PPublish [OF assms [unfolded PPublish]] by blast
qed (use assms in \<open>auto simp: Let_def case_prod_beta split: if_splits option.splits sum.splits prod.splits\<close>)

lemma istep_point_ok:
  assumes "istep pt uni env i msg p gw = Some (Inr p', gw')" "point_ok (\<lambda>_. True) p"
  shows "point_ok (\<lambda>_. True) p'"
proof (cases "\<exists>f k b le. p = PPublish f k b le")
  case True
  then obtain f k b le where p: "p = PPublish f k b le" by blast
  from istep_PPublish [OF assms(1) [unfolded p]] show ?thesis by (auto simp: point_ok_def is_settled_def)
next
  case False
  then show ?thesis using istep_point [OF assms(1) _ assms(2)] by blast
qed

context fill_publisher
begin

lemma publish_turn_delivered:
  assumes "publish_turn pt io f k b le gw = (x, gw')" "pt_producer pt = P"
  shows "\<exists>new. delivered (gw_producer gw') = delivered (gw_producer gw) @ new \<and> (x = Inl None \<longrightarrow> entry f \<in> set new)"
proof (cases "int k \<le> gw_publishRetries gw \<and> \<not> (0 < k \<and> c_done (io k))")
  case True
  obtain r p' where pub: "PublishFill P (io k) f (gw_producer gw) = (r, p')" by fastforce
  then have x: "x = (case r of None \<Rightarrow> Inl None | Some e \<Rightarrow> Inr (next_backoff k b, Some e))" "gw_producer gw' = p'"
    using assms True unfolding publish_turn_def by (cases r; simp only: simp_thms if_False; auto)+
  show ?thesis
  proof (cases r)
    case None
    then show ?thesis using publish_ok [of "io k" f "gw_producer gw" p'] pub x by auto
  next
    case (Some e)
    then show ?thesis using publish_err [of "io k" f "gw_producer gw" e p'] pub x by auto
  qed
next
  case False
  then have "x \<noteq> Inl None" "gw' = gw" using assms unfolding publish_turn_def by (auto split: if_splits)
  then show ?thesis by simp
qed

lemma istep_delivered:
  assumes "istep pt uni env i msg p gw = Some (r, gw')" "pt_producer pt = P"
    "point_ok (\<lambda>f. entry f \<in> set (delivered (gw_producer gw))) p"
  shows "(\<exists>new. delivered (gw_producer gw') = delivered (gw_producer gw) @ new) \<and>
    (\<forall>p'. r = Inr p' \<longrightarrow> point_ok (\<lambda>f. entry f \<in> set (delivered (gw_producer gw'))) p')"
proof (cases "\<exists>f k b le. p = PPublish f k b le")
  case True
  then obtain f k b le where p: "p = PPublish f k b le" by blast
  obtain x gw1 where t: "publish_turn pt (ie_pub env) f k b le gw = (x, gw1)" by fastforce
  obtain new where new: "delivered (gw_producer gw1) = delivered (gw_producer gw) @ new" "x = Inl None \<longrightarrow> entry f \<in> set new"
    using publish_turn_delivered [OF t assms(2)] by blast
  have gw': "gw' = gw1" using istep_PPublish assms(1) p t by fastforce
  have "point_ok (\<lambda>f. entry f \<in> set (delivered (gw_producer gw'))) p'" if r: "r = Inr p'" for p'
    using assms(1) r new(2) unfolding p gw'
    by (auto simp: t new(1) point_ok_def is_settled_def split: sum.splits option.splits prod.splits)
  with new(1) gw' show ?thesis by auto
next
  case False
  then have "gw_producer gw' = gw_producer gw" using istep_producer [OF assms(1)] by blast
  then show ?thesis using istep_point [OF _ _ assms(3)] assms(1) False by auto
qed

lemma fstep_delivered:
  assumes "fstep pt fenv f p gw = (r, gw')" "pt_producer pt = P"
  shows "\<exists>new. delivered (gw_producer gw') = delivered (gw_producer gw) @ new \<and> (r = Inl None \<longrightarrow> entry f \<in> set new)"
proof (cases p)
  case (FPublish k b le)
  obtain x gw1 where t: "publish_turn pt (fe_pub fenv) f k b le gw = (x, gw1)" by fastforce
  show ?thesis using publish_turn_delivered [OF t assms(2)] assms(1) FPublish t by (cases x) auto
qed (use assms(1) fstep_producer [OF assms(1)] in \<open>auto\<close>)

lemma work_delivered:
  assumes "work pt uni Q st0 tr st" "st0 = idle gw0" "pt_producer pt = P"
  shows "(\<exists>new. delivered (gw_producer (wk_gw st)) = delivered (gw_producer gw0) @ new) \<and>
    (\<forall>i msg f. IntentDone i msg (FillPublished f) \<in> set tr \<longrightarrow> entry f \<in> set (delivered (gw_producer (wk_gw st)))) \<and>
    (\<forall>f. FillDone f None \<in> set tr \<longrightarrow> entry f \<in> set (delivered (gw_producer (wk_gw st)))) \<and>
    (\<forall>env i msg p. wk_intent st = Some (env, i, msg, p) \<longrightarrow>
       point_ok (\<lambda>f. entry f \<in> set (delivered (gw_producer (wk_gw st)))) p)"
  using assms(1)
proof induction
  case start
  then show ?case using assms(2) by (simp add: idle_def)
next
  case (intent_step tr st env i msg p p' gw')
  have "point_ok (\<lambda>f. entry f \<in> set (delivered (gw_producer (wk_gw st)))) p" using intent_step by blast
  from istep_delivered [OF intent_step.hyps(3) assms(3) this] obtain new where
    "delivered (gw_producer gw') = delivered (gw_producer (wk_gw st)) @ new"
    "point_ok (\<lambda>f. entry f \<in> set (delivered (gw_producer gw'))) p'" by blast
  with intent_step.IH show ?case by (auto simp: sent_events_def)
next
  case (intent_end tr st env i msg p out gw')
  have pt: "point_ok (\<lambda>f. entry f \<in> set (delivered (gw_producer (wk_gw st)))) p" using intent_end by blast
  obtain new where new: "delivered (gw_producer gw') = delivered (gw_producer (wk_gw st)) @ new"
    using istep_delivered [OF intent_end.hyps(3) assms(3) pt] by blast
  have "entry f \<in> set (delivered (gw_producer gw'))" if "out = FillPublished f" for f
  proof -
    have "p = PCommit out" using istep_end [OF intent_end.hyps(3)] that by auto
    then show ?thesis using pt that new by (simp add: point_ok_def)
  qed
  with new intent_end.IH show ?case by auto
next
  case (fill_step tr st fenv f p p' gw')
  obtain new where "delivered (gw_producer gw') = delivered (gw_producer (wk_gw st)) @ new"
    using fstep_delivered [OF fill_step.hyps(3) assms(3)] by blast
  with fill_step.IH show ?case by (auto intro: point_ok_mono)
next
  case (fill_end tr st fenv f p r gw')
  obtain new where "delivered (gw_producer gw') = delivered (gw_producer (wk_gw st)) @ new" "r = None \<longrightarrow> entry f \<in> set new"
    using fstep_delivered [OF fill_end.hyps(3) assms(3)] by blast
  with fill_end.IH show ?case by (auto intro: point_ok_mono)
qed (auto simp: point_ok_def)

end

definition done_msgs :: "'k event list \<Rightarrow> 'k set" where
  "done_msgs tr = {msg. \<exists>i out. IntentDone i msg out \<in> set tr \<and> is_settled out}"

lemma done_msgs_simps [simp]:
  "done_msgs [] = {}" "done_msgs (tr @ tr') = done_msgs tr \<union> done_msgs tr'"
  "done_msgs [IntentDone i msg out] = (if is_settled out then {msg} else {})"
  "done_msgs (sent_events p i) = {}" "done_msgs [FillDone f r] = {}" "done_msgs [Halted] = {}" "done_msgs [Resumed] = {}"
  by (auto simp: done_msgs_def sent_events_def)

context intent_consumer
begin

lemma work_committed:
  assumes "work pt uni Q st0 tr st" "st0 = idle gw0" "pt_consumer pt = M"
  shows "set (committed (gw_consumer (wk_gw st))) \<subseteq> set (committed (gw_consumer gw0)) \<union> done_msgs tr \<and>
    (\<forall>env i msg p. wk_intent st = Some (env, i, msg, p) \<longrightarrow> point_ok (\<lambda>_. True) p)"
  using assms(1)
proof induction
  case start
  then show ?case using assms(2) by (simp add: idle_def)
next
  case (fetch tr st env c i msg m')
  then show ?case using fetch_committed [of c "gw_consumer (wk_gw st)"] assms(3) by (simp add: point_ok_def)
next
  case (fetch_error tr st c e m')
  then show ?case using fetch_committed [of c "gw_consumer (wk_gw st)"] assms(3) by simp
next
  case (intent_step tr st env i msg p p' gw')
  have p: "point_ok (\<lambda>_. True) p" using intent_step by blast
  have "p \<noteq> PCommit out" for out using intent_step.hyps(3) by auto
  moreover have "point_ok (\<lambda>_. True) p'" by (rule istep_point_ok [OF intent_step.hyps(3) p])
  ultimately show ?case using intent_step.IH istep_consumer [OF intent_step.hyps(3)] by auto
next
  case (intent_end tr st env i msg p out gw')
  have p: "point_ok (\<lambda>_. True) p" using intent_end by blast
  have "set (committed (gw_consumer gw')) \<subseteq> set (committed (gw_consumer (wk_gw st))) \<union> (if is_settled out then {msg} else {})"
  proof (cases "p = PCommit out")
    case True
    then have "gw_consumer gw' = snd (Commit M (ie_commit env) msg (gw_consumer (wk_gw st)))" "is_settled out"
      using intent_end.hyps(3) assms(3) p by (auto simp: gateway_simps point_ok_def)
    then show ?thesis using commit_adds by simp
  next
    case False
    then have "p \<noteq> PCommit out'" for out' using intent_end.hyps(3) by auto
    then show ?thesis using istep_consumer [OF intent_end.hyps(3)] by simp
  qed
  with intent_end.IH show ?case by (cases "is_settled out") auto
next
  case (fill_step tr st fenv f p p' gw')
  then show ?case using fstep_frame [OF fill_step.hyps(3)] by simp
next
  case (fill_end tr st fenv f p r gw')
  then show ?case using fstep_frame [OF fill_end.hyps(3)] by auto
qed auto

end

section \<open>Schedules\<close>

text \<open>The handlers of the coarse model are schedules: a worker that is not interrupted takes its
  steps to the end. A point is before the submission, after it, or on the way of a refusal.\<close>

datatype phase = Before | Refused | After | Nowhere

fun phase_at :: "ipoint \<Rightarrow> phase" where
  "phase_at PHalt = Before" | "phase_at PDup = Before" | "phase_at PRisk = Before" | "phase_at PWait = Before"
| "phase_at PAdd = Before" | "phase_at PSave = Before" | "phase_at PSubmit = Before"
| "phase_at (PReject out) = (if reaches_exchange out then Nowhere else Refused)"
| "phase_at (PRejectSave out) = (if reaches_exchange out then Nowhere else Refused)"
| "phase_at (PCommit out) = (if reaches_exchange out then After else Refused)"
| "phase_at _ = After"

lemma istep_sent:
  assumes "istep pt uni env i msg p gw = Some (r, gw')"
  shows "case phase_at p of
      Before \<Rightarrow> (case r of Inl out \<Rightarrow> \<not> reaches_exchange out
        | Inr p' \<Rightarrow> if p = PSubmit then phase_at p' = After else phase_at p' = Before \<or> phase_at p' = Refused)
    | Refused \<Rightarrow> (case r of Inl out \<Rightarrow> \<not> reaches_exchange out | Inr p' \<Rightarrow> phase_at p' = Refused)
    | After \<Rightarrow> (case r of Inl out \<Rightarrow> reaches_exchange out | Inr p' \<Rightarrow> phase_at p' = After)
    | Nowhere \<Rightarrow> True"
proof (cases p)
  case (PPublish f k b le)
  then have "(\<exists>e. r = Inl (PublishFailed f e)) \<or> r = Inr (PCommit (FillPublished f)) \<or> (\<exists>b' le'. r = Inr (PPublish f (Suc k) b' le'))"
    using istep_PPublish [OF assms [unfolded PPublish]] by blast
  with PPublish show ?thesis by auto
next
  case PHalt
  then show ?thesis using assms by (auto split: option.splits)
next
  case PRisk
  then show ?thesis using assms by (auto split: prod.splits bool.splits)
next
  case PWait
  then show ?thesis using assms by (auto split: option.splits prod.splits)
next
  case (PWrite res q)
  then show ?thesis using assms by (auto simp: Let_def split: sum.splits)
qed (use assms in \<open>auto simp: case_prod_beta split: if_splits\<close>)

lemma work_isteps:
  assumes "work pt uni Q st0 tr st" "wk_intent st = Some (env, i, msg, p)"
    and "isteps pt uni env i msg n p (wk_gw st) = Some (out, gw')" "phase_at p \<noteq> Nowhere"
  shows "\<exists>tr'. work pt uni Q st0 (tr @ tr' @ [IntentDone i msg out]) (st\<lparr> wk_gw := gw', wk_intent := None \<rparr>) \<and>
    sent tr' = (if phase_at p = Before \<and> reaches_exchange out then [i] else []) \<and> set tr' \<subseteq> {Submitted i} \<and>
    (phase_at p \<noteq> Before \<longrightarrow> reaches_exchange out = (phase_at p = After))"
  using assms
proof (induction n arbitrary: tr st p)
  case (Suc n)
  obtain r gw1 where step: "istep pt uni env i msg p (wk_gw st) = Some (r, gw1)"
    using Suc.prems(3) by (cases "istep pt uni env i msg p (wk_gw st)") auto
  note point = istep_sent [OF step]
  show ?case
  proof (cases r)
    case (Inl out')
    with Suc.prems(3) step have "out' = out" "gw1 = gw'" by simp_all
    moreover from this Inl have "(phase_at p = Before \<longrightarrow> \<not> reaches_exchange out) \<and> (phase_at p \<noteq> Before \<longrightarrow> reaches_exchange out = (phase_at p = After))"
      using point Suc.prems(4) by (cases "phase_at p") simp_all
    ultimately show ?thesis using work.intent_end [OF Suc.prems(1,2)] step Inl
      by (intro exI [of _ "[]"]) simp
  next
    case (Inr p')
    let ?st = "st\<lparr> wk_gw := gw1, wk_intent := Some (env, i, msg, p') \<rparr>"
    have w: "work pt uni Q st0 (tr @ sent_events p i) ?st"
      using work.intent_step [OF Suc.prems(1,2)] step Inr by simp
    have n: "isteps pt uni env i msg n p' (wk_gw ?st) = Some (out, gw')" using Suc.prems(3) step Inr by simp
    have ph: "phase_at p = Before \<and> p \<noteq> PSubmit \<and> (phase_at p' = Before \<or> phase_at p' = Refused) \<or> p = PSubmit \<and> phase_at p' = After \<or>
        p \<noteq> PSubmit \<and> phase_at p \<noteq> Before \<and> phase_at p' = phase_at p"
      using point Inr Suc.prems(4) by (cases "phase_at p") (auto split: if_splits)
    then have "phase_at p' \<noteq> Nowhere" using Suc.prems(4) by auto
    then obtain tr' where tr': "work pt uni Q st0 ((tr @ sent_events p i) @ tr' @ [IntentDone i msg out])
          (?st\<lparr> wk_gw := gw', wk_intent := None \<rparr>)"
        "sent tr' = (if phase_at p' = Before \<and> reaches_exchange out then [i] else [])" "set tr' \<subseteq> {Submitted i}"
        "phase_at p' \<noteq> Before \<longrightarrow> reaches_exchange out = (phase_at p' = After)"
      using Suc.IH [OF w _ n] by auto
    have s: "sent (sent_events p i @ tr') = (if phase_at p = Before \<and> reaches_exchange out then [i] else [])"
      using ph tr'(2,4) by auto
    have "phase_at p \<noteq> Before \<longrightarrow> reaches_exchange out = (phase_at p = After)" using ph tr'(4) by auto
    moreover have "set (sent_events p i @ tr') \<subseteq> {Submitted i}" using tr'(3) by (auto simp: sent_events_def)
    ultimately show ?thesis using tr'(1) s by (intro exI [of _ "sent_events p i @ tr'"]) simp
  qed
qed simp

lemma work_fsteps:
  assumes "work pt uni Q st0 tr st" "wk_fill st = Some (fenv, f, p)" "fsteps pt fenv f n p (wk_gw st) = Some (r, gw')"
  shows "work pt uni Q st0 (tr @ [FillDone f r]) (st\<lparr> wk_gw := gw', wk_fill := None \<rparr>)"
  using assms
proof (induction n arbitrary: st p)
  case (Suc n)
  obtain x gw1 where step: "fstep pt fenv f p (wk_gw st) = (x, gw1)" by fastforce
  show ?case
  proof (cases x)
    case (Inl r')
    then show ?thesis using work.fill_end [OF Suc.prems(1,2)] step Suc.prems(3) by simp
  next
    case (Inr p')
    then have "work pt uni Q st0 tr (st\<lparr> wk_gw := gw1, wk_fill := Some (fenv, f, p') \<rparr>)"
      using work.fill_step [OF Suc.prems(1,2)] step by simp
    from Suc.IH [OF this, of p'] show ?thesis using Suc.prems(3) step Inr by simp
  qed
qed simp

text \<open>A whole intent and a whole fill.\<close>

lemma work_intent:
  assumes "FetchIntent (pt_consumer pt) c (gw_consumer gw) = (Inr (i, msg), m')" "Q env"
    and "handle_intent pt uni env i msg (gw\<lparr> gw_consumer := m' \<rparr>) = Some (out, gw')"
  shows "\<exists>tr. work pt uni Q (idle gw) (tr @ [IntentDone i msg out]) (idle gw') \<and>
    sent tr = (if reaches_exchange out then [i] else []) \<and> set tr \<subseteq> {Submitted i}"
proof -
  let ?g = "gw\<lparr> gw_consumer := m', gw_ready := True \<rparr>"
  let ?st = "\<lparr> wk_gw = ?g, wk_intent = Some (env, i, msg, PHalt), wk_fill = None \<rparr>"
  have w: "work pt uni Q (idle gw) [] ?st"
    using work.fetch [OF work.start, where Q = Q, OF _ assms(2), of "idle gw" pt c i msg m' uni] assms(1) by (simp add: idle_def)
  have "isteps pt uni env i msg (attempts_left gw 0 + 14) PHalt (wk_gw ?st) = Some (out, gw')"
    using intent_steps [of "gw\<lparr> gw_consumer := m' \<rparr>" "attempts_left gw 0 + 14" pt uni env i msg] assms(3) by simp
  from work_isteps [OF w _ this] show ?thesis by (auto simp: idle_def)
qed

lemma work_fill:
  assumes "work pt uni Q st0 tr st" "wk_fill st = None"
  shows "work pt uni Q st0 (tr @ [FillDone f (fst (handle_fill pt fenv f (wk_gw st)))])
    (st\<lparr> wk_gw := snd (handle_fill pt fenv f (wk_gw st)) \<rparr>)"
proof -
  let ?st = "st\<lparr> wk_fill := Some (fenv, f, FMark) \<rparr>"
  have w: "work pt uni Q st0 tr ?st" using work.take_fill [OF assms] .
  have "fsteps pt fenv f (attempts_left (wk_gw st) 0 + 5) FMark (wk_gw ?st) =
      Some (fst (handle_fill pt fenv f (wk_gw st)), snd (handle_fill pt fenv f (wk_gw st)))"
    using fill_steps [of "wk_gw st" "attempts_left (wk_gw st) 0 + 5" pt fenv f] by simp
  from work_fsteps [OF w _ this] have "work pt uni Q st0 (tr @ [FillDone f (fst (handle_fill pt fenv f (wk_gw st)))])
      (?st\<lparr> wk_gw := snd (handle_fill pt fenv f (wk_gw st)), wk_fill := None \<rparr>)" by simp
  moreover have "?st\<lparr> wk_gw := g, wk_fill := None \<rparr> = st\<lparr> wk_gw := g \<rparr>" for g using assms(2) by (cases st) simp
  ultimately show ?thesis by simp
qed

section \<open>Properties of the runs\<close>

lemma demo_fetch:
  "FetchIntent (pt_consumer demo_ports) demo_call (gw_consumer demo_gateway) =
     (Inr (demo_order, 1), \<lparr> fc_intents = [demo_order], fc_idx = 1, fc_committed = [] \<rparr>)"
  by (simp add: fake_consumer_def fake_FetchIntent_def demo_gateway_def NewGateway_def)

lemma demo_work:
  assumes "Q demo_ienv"
  shows "\<exists>tr gw. work demo_ports uni Q (idle demo_gateway) (tr @ [IntentDone demo_order 1 (FillPublished demo_fill)]) (idle gw) \<and>
    sent tr = [demo_order] \<and> set tr \<subseteq> {Submitted demo_order} \<and> 1 \<in> set (fc_committed (gw_consumer gw))"
proof -
  let ?m = "\<lparr> fc_intents = [demo_order], fc_idx = 1, fc_committed = [] \<rparr>"
  obtain gw where h: "handle_intent demo_ports uni demo_ienv demo_order 1 (demo_gateway\<lparr> gw_consumer := ?m \<rparr>) =
      Some (FillPublished demo_fill, gw)" using demo_handled_fetched by blast
  obtain tr where "work demo_ports uni Q (idle demo_gateway) (tr @ [IntentDone demo_order 1 (FillPublished demo_fill)]) (idle gw)"
      "sent tr = [demo_order]" "set tr \<subseteq> {Submitted demo_order}"
    using work_intent [where Q = Q, OF demo_fetch assms h] by auto
  moreover have "1 \<in> set (fc_committed (gw_consumer gw))"
    using handle_intent_consumer [OF h] by (simp add: fake_consumer_def fake_Commit_def)
  ultimately show ?thesis by blast
qed

text \<open>C1. No order id is handed to the exchange twice in one run of the gateway, however the atomic
  steps of the two workers and the operator's commands interleave, and no id the tracker knew at
  the start is handed to it at all.\<close>

theorem no_double_submission:
  assumes "work pt uni Q (idle gw0) tr st"
  shows "distinct (map o_OrderID (sent tr)) \<and>
    (\<forall>i\<in>set (sent tr). tracker_GetOrderState (o_OrderID i) (gw_tracker gw0) = None)"
  using work_dup [OF assms refl] by (auto simp: dup_inv_def dup_ok_def tracker_GetOrderState_def)

theorem no_double_submission_witness:
  "\<exists>tr gw. work demo_ports (\<lambda>s. s) (\<lambda>_. True) (idle demo_gateway) tr (idle gw) \<and> sent tr = [demo_order] \<and>
     distinct (map o_OrderID (sent tr)) \<and> tracker_GetOrderState (o_OrderID demo_order) (gw_tracker demo_gateway) = None"
proof -
  obtain tr gw where "work demo_ports (\<lambda>s. s) (\<lambda>_. True) (idle demo_gateway) tr (idle gw)" "sent tr = [demo_order]"
    using demo_work [of "\<lambda>_. True" "\<lambda>s. s"] by (metis append_Nil2 sent.simps(1,3) sent_append)
  with no_double_submission [OF this(1)] show ?thesis by auto
qed



text \<open>C6. The daily cap: on the SQLite store, when every recorded order of the table is known to
  the tracker, inserts succeed and the clock stays within one day, no interleaving of the workers'
  steps hands more than \<open>maxDailyOrders\<close> intents to the exchange.\<close>

theorem daily_cap_respected:
  assumes "work pt uni (same_day sod d) (idle gw0) tr st" "pt_store pt = sqlite_store sod"
    and "tr_store (gw_tracker gw0) = Some rows"
    and "\<forall>r\<in>set rows. tracker_GetOrderState (row_order_id r) (gw_tracker gw0) \<noteq> None"
  shows "sent tr = [] \<or> int (length (sent tr)) \<le> gw_maxDailyOrders gw0"
proof -
  have "fst ` set (row_keys rows) \<subseteq> known gw0"
    using assms(4) by (auto simp: fst_row_keys tracker_GetOrderState_def)
  then show ?thesis
    using work_daily [OF assms(1) refl assms(2), of "row_keys rows"] assms(3)
    by (auto simp: tracker_keys_def cap_inv_def cap_ok_def)
qed

theorem daily_cap_respected_witness:
  "\<exists>tr gw. work demo_ports (\<lambda>s. s) (same_day (\<lambda>_. 0) 0) (idle demo_gateway) tr (idle gw) \<and> sent tr = [demo_order] \<and>
     int (length (sent tr)) \<le> gw_maxDailyOrders demo_gateway"
proof -
  have "same_day (\<lambda>_. 0) 0 demo_ienv" by (simp add: same_day_def demo_call_def)
  then obtain tr gw where w: "work demo_ports (\<lambda>s. s) (same_day (\<lambda>_. 0) 0) (idle demo_gateway) tr (idle gw)" "sent tr = [demo_order]"
    using demo_work [of "same_day (\<lambda>_. 0) 0" "\<lambda>s. s"] by (metis append_Nil2 sent.simps(1,3) sent_append)
  with daily_cap_respected [OF w(1), of "[]"] show ?thesis by auto
qed

lemma work_submits:
  assumes "work pt uni Q st0 tr st" "wk_intent st = Some (env, i, msg, PSubmit)"
  shows "\<exists>gw' res. work pt uni Q st0 (tr @ sent_events PSubmit i)
      (st\<lparr> wk_gw := gw', wk_intent := Some (env, i, msg, PMark res) \<rparr>) \<and> submit_intent pt env i (wk_gw st) = (res, gw')"
proof -
  obtain res gw' where sub: "submit_intent pt env i (wk_gw st) = (res, gw')" by fastforce
  then have "istep pt uni env i msg PSubmit (wk_gw st) = Some (Inr (PMark res), gw')" by simp
  from work.intent_step [OF assms this] sub show ?thesis by blast
qed




end
