(* ===== verification/Reconcile.thy ===== *)
theory Reconcile
  imports Ports Tracker
begin

text \<open>
  The reconciliation at boot (\<open>cmd/sleipnir/main.go\<close>, step 5 of \<open>main\<close>): for every active order of
  the store the exchange is asked for its state, a missed quantity is published as a synthetic
  fill, and the tracker and the store take over the exchange's state. \<open>fmtG\<close> is the verb \<open>%g\<close> of
  package \<open>fmt\<close> for floats.
\<close>

section \<open>The loop\<close>

text \<open>The environment of one pass: the query, the clock, the publication and the update.\<close>

record rec_env =
  re_query :: call
  re_now :: time
  re_pub :: call
  re_upd :: call

definition reconcile_fill :: "(float64 \<Rightarrow> string) \<Rightarrow> time \<Rightarrow> Order \<Rightarrow> OrderStatusResult \<Rightarrow> float64 \<Rightarrow> ExecutionFill" where
  "reconcile_fill fmtG now order res deltaQty =
     \<lparr> f_OrderID = o_OrderID order,
       f_ExecutionID = o_OrderID order @ ''-reconcile-'' @ fmtG deltaQty,
       f_Instrument = o_Instrument order, f_Side = o_Side order, f_OrderStatus = r_State res,
       f_Quantity = deltaQty, f_FillPrice = r_FillPrice res, f_TransactionCost = Fin 0,
       f_Timestamp = (if r_TransactTime res = zero_time then now else r_TransactTime res) \<rparr>"

definition prev_filled :: "(string \<times> float64) list \<Rightarrow> Order \<Rightarrow> float64" where
  "prev_filled filledQtys order =
     (case map_of filledQtys (o_OrderID order) of None \<Rightarrow> Fin 0 | Some q \<Rightarrow> q)"

definition reconcile_order :: "'s OrderStore \<Rightarrow> 'x ExchangeConnector \<Rightarrow> 'p FillPublisher \<Rightarrow> (float64 \<Rightarrow> string) \<Rightarrow>
    rec_env \<Rightarrow> (string \<times> float64) list \<Rightarrow> Order \<Rightarrow> 'x \<times> 'p \<times> 's OrderTracker \<Rightarrow> 'x \<times> 'p \<times> 's OrderTracker" where
  "reconcile_order S C P fmtG env filledQtys order st = (case st of (x, p, t) \<Rightarrow>
     case GetOrderState C (re_query env) (o_OrderID order) (o_Instrument order) x of
       (Inl e, x') \<Rightarrow> (x', p, t)
     | (Inr res, x') \<Rightarrow>
         let deltaQty = float_sub (r_ExecutedQty res) (prev_filled filledQtys order);
             p' = (if float_gt deltaQty (Fin 0)
                   then snd (PublishFill P (re_pub env) (reconcile_fill fmtG (re_now env) order res deltaQty) p)
                   else p)
         in (x', p', snd (UpdateOrderStateAndQty S (re_upd env) (o_OrderID order) (r_State res) (r_ExecutedQty res) t)))"

fun reconcile_loop :: "'s OrderStore \<Rightarrow> 'x ExchangeConnector \<Rightarrow> 'p FillPublisher \<Rightarrow> (float64 \<Rightarrow> string) \<Rightarrow>
    (nat \<Rightarrow> rec_env) \<Rightarrow> nat \<Rightarrow> (string \<times> float64) list \<Rightarrow> Order list \<Rightarrow>
    'x \<times> 'p \<times> 's OrderTracker \<Rightarrow> 'x \<times> 'p \<times> 's OrderTracker" where
  "reconcile_loop S C P fmtG env k filledQtys [] st = st"
| "reconcile_loop S C P fmtG env k filledQtys (order # os) st =
     reconcile_loop S C P fmtG env (Suc k) filledQtys os (reconcile_order S C P fmtG (env k) filledQtys order st)"

text \<open>The store of the tracker is the one that \<open>main\<close> queries; without a store there is nothing to do.\<close>

definition reconcile :: "'s OrderStore \<Rightarrow> 'x ExchangeConnector \<Rightarrow> 'p FillPublisher \<Rightarrow> (float64 \<Rightarrow> string) \<Rightarrow>
    call \<Rightarrow> (nat \<Rightarrow> rec_env) \<Rightarrow> 'x \<times> 'p \<times> 's OrderTracker \<Rightarrow> 'x \<times> 'p \<times> 's OrderTracker" where
  "reconcile S C P fmtG c env st = (case st of (x, p, t) \<Rightarrow>
     case tr_store t of
       None \<Rightarrow> st
     | Some s \<Rightarrow> (case st_GetActiveOrders S c s of
         Inl e \<Rightarrow> st
       | Inr (activeOrders, activeStates, filledQtys) \<Rightarrow>
           reconcile_loop S C P fmtG env 0 filledQtys activeOrders st))"

section \<open>What a pass does\<close>

text \<open>An exchange that answers the same whenever it is asked, with finite quantities.\<close>

definition steady_answers :: "'x ExchangeConnector \<Rightarrow> (string \<Rightarrow> string \<Rightarrow> goerror + OrderStatusResult) \<Rightarrow> bool" where
  "steady_answers C ans \<longleftrightarrow> (\<forall>c oid inst x. GetOrderState C c oid inst x = (ans oid inst, x)) \<and>
     (\<forall>oid inst res. ans oid inst = Inr res \<longrightarrow> (\<exists>q. r_ExecutedQty res = Fin q \<and> fround q = Fin q))"

abbreviation answer :: "(string \<Rightarrow> string \<Rightarrow> goerror + OrderStatusResult) \<Rightarrow> Order \<Rightarrow> goerror + OrderStatusResult" where
  "answer ans order \<equiv> ans (o_OrderID order) (o_Instrument order)"

text \<open>The missed quantity of an order, if there is one.\<close>

definition missed_qty :: "(string \<Rightarrow> string \<Rightarrow> goerror + OrderStatusResult) \<Rightarrow> (string \<times> float64) list \<Rightarrow> Order \<Rightarrow> float64 option" where
  "missed_qty ans qs order = (case answer ans order of
     Inl _ \<Rightarrow> None
   | Inr res \<Rightarrow> (let d = float_sub (r_ExecutedQty res) (prev_filled qs order) in
       if float_gt d (Fin 0) then Some d else None))"

lemma steady_answersD: "steady_answers C ans \<Longrightarrow> GetOrderState C c oid inst x = (ans oid inst, x)"
  by (simp add: steady_answers_def)

lemma float_sub_self: "float_sub (Fin q) (Fin q) = Fin 0"
  by (simp add: float_sub_def)

lemma reconcile_order_Inl:
  "steady_answers C ans \<Longrightarrow> answer ans ord = Inl e \<Longrightarrow> reconcile_order S C P fmtG env qs ord (x, p, t) = (x, p, t)"
  by (simp add: reconcile_order_def steady_answersD)

lemma reconcile_order_Inr:
  "steady_answers C ans \<Longrightarrow> answer ans ord = Inr res \<Longrightarrow>
     reconcile_order S C P fmtG env qs ord (x, p, t) =
       (x, (case missed_qty ans qs ord of None \<Rightarrow> p
            | Some d \<Rightarrow> snd (PublishFill P (re_pub env) (reconcile_fill fmtG (re_now env) ord res d) p)),
        snd (UpdateOrderStateAndQty S (re_upd env) (o_OrderID ord) (r_State res) (r_ExecutedQty res) t))"
  by (simp add: reconcile_order_def steady_answersD missed_qty_def Let_def)

lemmas reconcile_order_cases = reconcile_order_Inl reconcile_order_Inr

section \<open>What the loop does\<close>

lemma reconcile_loop_quiet:
  assumes "steady_answers C ans" "\<forall>ord\<in>set os. missed_qty ans qs ord = None"
  shows "fst (snd (reconcile_loop S C P fmtG env k qs os (x, p, t))) = p"
  using assms(2)
proof (induction os arbitrary: k t)
  case (Cons ord os)
  then show ?case
    by (cases "answer ans ord") (simp_all add: reconcile_order_cases [OF assms(1)])
qed simp

context fill_publisher
begin

lemma reconcile_loop_delivered:
  assumes "steady_answers C ans" "\<forall>c f p. fst (PublishFill P c f p) = None"
  shows "\<exists>fs. delivered (fst (snd (reconcile_loop S C P fmtG env k qs os (x, p, t)))) = delivered p @ map entry fs \<and>
    map (\<lambda>f. (f_OrderID f, f_Quantity f)) fs =
      List.map_filter (\<lambda>ord. map_option (Pair (o_OrderID ord)) (missed_qty ans qs ord)) os"
proof (induction os arbitrary: k p t)
  case Nil
  then show ?case by (simp add: List.map_filter_simps)
next
  case (Cons ord os)
  show ?case
  proof (cases "missed_qty ans qs ord")
    case None
    then show ?thesis using Cons.IH [of "Suc k" p]
      by (cases "answer ans ord") (simp_all add: reconcile_order_cases [OF assms(1)] List.map_filter_simps)
  next
    case (Some d)
    then obtain res where res: "answer ans ord = Inr res" by (cases "answer ans ord") (simp_all add: missed_qty_def)
    let ?f = "reconcile_fill fmtG (re_now (env k)) ord res d"
    obtain p' where p': "PublishFill P (re_pub (env k)) ?f p = (None, p')" using assms(2) by (metis prod.collapse)
    obtain fs where "delivered (fst (snd (reconcile_loop S C P fmtG env (Suc k) qs os (x, p',
          snd (UpdateOrderStateAndQty S (re_upd (env k)) (o_OrderID ord) (r_State res) (r_ExecutedQty res) t))))) =
        delivered p' @ map entry fs"
      "map (\<lambda>f. (f_OrderID f, f_Quantity f)) fs =
        List.map_filter (\<lambda>ord. map_option (Pair (o_OrderID ord)) (missed_qty ans qs ord)) os"
      using Cons.IH by blast
    then show ?thesis using Some res p' publish_ok [OF p']
      by (intro exI [of _ "?f # fs"])
         (simp add: reconcile_order_cases [OF assms(1)] List.map_filter_simps reconcile_fill_def)
  qed
qed

end

text \<open>The store after the loop: answered orders have the exchange's state and quantity, the other
  rows are untouched.\<close>

definition reconciled :: "('s \<Rightarrow> string \<Rightarrow> OrderRow option) \<Rightarrow> (string \<Rightarrow> string \<Rightarrow> goerror + OrderStatusResult) \<Rightarrow> Order list \<Rightarrow> 's \<Rightarrow> 's \<Rightarrow> bool" where
  "reconciled view ans os s s' \<longleftrightarrow>
     (\<forall>oid. oid \<notin> o_OrderID ` set os \<longrightarrow> view s' oid = view s oid) \<and>
     (\<forall>ord\<in>set os. case answer ans ord of
        Inl _ \<Rightarrow> view s' (o_OrderID ord) = view s (o_OrderID ord)
      | Inr res \<Rightarrow> \<exists>n. view s' (o_OrderID ord) =
          map_option (\<lambda>r. r\<lparr> row_state := r_State res, row_filled_qty := r_ExecutedQty res, row_updated_at := n \<rparr>)
            (view s (o_OrderID ord)))"

context order_store
begin

lemma reconciled_Cons:
  assumes "reconciled view ans os s1 s'" "o_OrderID ord \<notin> o_OrderID ` set os"
    and "\<forall>oid. oid \<noteq> o_OrderID ord \<longrightarrow> view s1 oid = view s oid"
    and "case answer ans ord of Inl _ \<Rightarrow> view s1 (o_OrderID ord) = view s (o_OrderID ord)
      | Inr res \<Rightarrow> \<exists>n. view s1 (o_OrderID ord) =
          map_option (\<lambda>r. r\<lparr> row_state := r_State res, row_filled_qty := r_ExecutedQty res, row_updated_at := n \<rparr>)
            (view s (o_OrderID ord))"
  shows "reconciled view ans (ord # os) s s'"
proof -
  have same: "view s' (o_OrderID ord) = view s1 (o_OrderID ord)" using assms(1,2) by (simp add: reconciled_def)
  have "view s1 (o_OrderID o') = view s (o_OrderID o')" if "o' \<in> set os" for o' using that assms(2,3) by (metis imageI)
  then show ?thesis using assms same unfolding reconciled_def by (auto split: sum.splits)
qed

lemma reconcile_loop_store:
  assumes "steady_answers C ans" "\<forall>k. c_ok (re_upd (env k))"
    and "tr_store t = Some s" "invar s" "distinct (map o_OrderID os)"
  shows "\<exists>s'. tr_store (snd (snd (reconcile_loop S C P fmtG env k qs os (x, p, t)))) = Some s' \<and> invar s' \<and>
    reconciled view ans os s s'"
  using assms(3-5)
proof (induction os arbitrary: k p t s)
  case Nil
  then show ?case by (auto simp: reconciled_def)
next
  case (Cons ord os)
  have fresh: "o_OrderID ord \<notin> o_OrderID ` set os" "distinct (map o_OrderID os)" using Cons.prems(3) by auto
  show ?case
  proof (cases "answer ans ord")
    case (Inl e)
    obtain s' where "tr_store (snd (snd (reconcile_loop S C P fmtG env (Suc k) qs os (x, p, t)))) = Some s'" "invar s'"
        "reconciled view ans os s s'" using Cons.IH [OF Cons.prems(1,2) fresh(2)] by blast
    then show ?thesis using Inl fresh(1) reconciled_Cons [of ans os s s' ord s]
      by (auto simp: reconcile_order_cases [OF assms(1)])
  next
    case (Inr res)
    let ?t = "snd (UpdateOrderStateAndQty S (re_upd (env k)) (o_OrderID ord) (r_State res) (r_ExecutedQty res) t)"
    let ?p = "case missed_qty ans qs ord of None \<Rightarrow> p
            | Some d \<Rightarrow> snd (PublishFill P (re_pub (env k)) (reconcile_fill fmtG (re_now (env k)) ord res d) p)"
    obtain s1 where s1: "st_UpdateOrderState S (re_upd (env k)) (o_OrderID ord) (r_State res) (r_ExecutedQty res) s = (None, s1)"
      "invar s1" and v: "view s1 = (view s)(o_OrderID ord := map_option (\<lambda>r. r\<lparr> row_state := r_State res,
          row_filled_qty := r_ExecutedQty res, row_updated_at := c_now (re_upd (env k)) \<rparr>) (view s (o_OrderID ord)))"
      using update_ok [of "re_upd (env k)" s] assms(2) Cons.prems(2) by blast
    have t: "tr_store ?t = Some s1" using Cons.prems(1) s1(1) by (simp add: UpdateOrderStateAndQty_maps)
    obtain s' where "tr_store (snd (snd (reconcile_loop S C P fmtG env (Suc k) qs os (x, ?p, ?t)))) = Some s'" "invar s'"
        "reconciled view ans os s1 s'" using Cons.IH [OF t s1(2) fresh(2)] by blast
    moreover have "\<forall>oid. oid \<noteq> o_OrderID ord \<longrightarrow> view s1 oid = view s oid" using v by simp
    moreover have "\<exists>n. view s1 (o_OrderID ord) = map_option (\<lambda>r. r\<lparr> row_state := r_State res,
        row_filled_qty := r_ExecutedQty res, row_updated_at := n \<rparr>) (view s (o_OrderID ord))" using v by auto
    ultimately show ?thesis using Inr fresh(1) reconciled_Cons [of ans os s1 s' ord s]
      by (auto simp: reconcile_order_cases [OF assms(1)])
  qed
qed

text \<open>After a reconciliation nothing is missed any more.\<close>

lemma nothing_missed:
  assumes "steady_answers C ans" "invar s" "invar s'"
    and "c_ok c" "c_rows c = None" "st_GetActiveOrders S c s = Inr (os, sts, qs)" "reconciled view ans os s s'"
    and "c_ok c'" "c_rows c' = None" "st_GetActiveOrders S c' s' = Inr (os', sts', qs')" "ord \<in> set os'"
  shows "missed_qty ans qs' ord = None"
proof -
  obtain r where r: "view s' (o_OrderID ord) = Some r" "\<not> is_terminal (row_state r)" "ord = row_order r"
      "map_of qs' (o_OrderID ord) = Some (row_filled_qty r)"
    using active_ok [OF assms(8,9,3)] assms(10,11) view_id [OF assms(3)] by (fastforce simp: row_order_def)
  have inst: "o_OrderID ord = row_order_id r" "o_Instrument ord = row_instrument r" using r(3) by (simp_all add: row_order_def)
  show ?thesis
  proof (cases "o_OrderID ord \<in> o_OrderID ` set os")
    case True
    then obtain o0 where o0: "o0 \<in> set os" "o_OrderID o0 = o_OrderID ord" by auto
    then obtain r0 where r0: "view s (o_OrderID ord) = Some r0" "o0 = row_order r0"
      using active_ok [OF assms(4,5,2)] assms(6) view_id [OF assms(2)] by (fastforce simp: row_order_def)
    have upd: "case answer ans o0 of Inl _ \<Rightarrow> r = r0
        | Inr res \<Rightarrow> \<exists>n. r = r0\<lparr> row_state := r_State res, row_filled_qty := r_ExecutedQty res, row_updated_at := n \<rparr>"
      using assms(7) o0 r(1) r0(1) unfolding reconciled_def by (fastforce split: sum.splits)
    then have "row_instrument r = row_instrument r0" by (auto split: sum.splits)
    then have same: "answer ans o0 = answer ans ord" using o0(2) r0(2) inst by (simp add: row_order_def)
    show ?thesis
    proof (cases "answer ans ord")
      case (Inr res)
      then obtain q where q: "r_ExecutedQty res = Fin q" using assms(1) by (fastforce simp: steady_answers_def)
      then have "row_filled_qty r = Fin q" using upd same Inr by auto
      then show ?thesis using Inr q r(4) by (simp add: missed_qty_def prev_filled_def float_sub_self)
    qed (simp add: missed_qty_def)
  next
    case False
    then have "view s (o_OrderID ord) = Some r" using assms(7) r(1) by (simp add: reconciled_def)
    then have "ord \<in> set os" using active_ok [OF assms(4,5,2)] assms(6) r(2,3) by auto
    then show ?thesis using False by blast
  qed
qed

end

section \<open>Properties\<close>

lemma WithStore_store [simp]: "tr_store (WithStore S c s t) = Some s"
  by (simp add: WithStore_def Let_def split: sum.split prod.split)

text \<open>A boot on the SQLite store: the tracker is built over the table and reconciled. All database
  calls succeed and the scan of the active orders is complete.\<close>

definition boot_ok :: "call \<Rightarrow> (nat \<Rightarrow> rec_env) \<Rightarrow> bool" where
  "boot_ok c env \<longleftrightarrow> c_ok c \<and> c_rows c = None \<and> (\<forall>k. c_ok (re_upd (env k)))"

definition boot_reconcile :: "(time \<Rightarrow> time) \<Rightarrow> 'x ExchangeConnector \<Rightarrow> 'p FillPublisher \<Rightarrow> (float64 \<Rightarrow> string) \<Rightarrow>
    call \<Rightarrow> call \<Rightarrow> (nat \<Rightarrow> rec_env) \<Rightarrow> table \<Rightarrow> 'x \<times> 'p \<Rightarrow> 'x \<times> 'p \<times> table OrderTracker" where
  "boot_reconcile sod C P fmtG c0 c env rows xp =
     reconcile (sqlite_store sod) C P fmtG c env
       (fst xp, snd xp, WithStore (sqlite_store sod) c0 rows NewOrderTracker)"

lemma boot_reconcile_loop:
  assumes "rows_inv rows" "boot_ok c env"
  obtains os sts qs where "GetActiveOrders c rows = Inr (os, sts, qs)" "distinct (map o_OrderID os)"
    "boot_reconcile sod C P fmtG c0 c env rows xp = reconcile_loop (sqlite_store sod) C P fmtG env 0 qs os
       (fst xp, snd xp, WithStore (sqlite_store sod) c0 rows NewOrderTracker)"
  using GetActiveOrders_complete [of c rows] assms
  by (auto simp: boot_ok_def boot_reconcile_def reconcile_def sqlite_store_def)

lemma boot_reconcile_store:
  assumes "steady_answers C ans" "rows_inv rows" "boot_ok c env" "GetActiveOrders c rows = Inr (os, sts, qs)"
  shows "\<exists>rows'. tr_store (snd (snd (boot_reconcile sod C P fmtG c0 c env rows xp))) = Some rows' \<and> rows_inv rows' \<and>
    reconciled rows_view ans os rows rows'"
proof -
  obtain os' sts' qs' where l: "GetActiveOrders c rows = Inr (os', sts', qs')" "distinct (map o_OrderID os')"
    "boot_reconcile sod C P fmtG c0 c env rows xp = reconcile_loop (sqlite_store sod) C P fmtG env 0 qs' os'
       (fst xp, snd xp, WithStore (sqlite_store sod) c0 rows NewOrderTracker)"
    using boot_reconcile_loop [OF assms(2,3)] by metis
  have "\<forall>k. c_ok (re_upd (env k))" using assms(3) by (simp add: boot_ok_def)
  then show ?thesis
    using sqlite.reconcile_loop_store [OF assms(1) _ WithStore_store assms(2) l(2)] l(1,3) assms(4) by auto
qed

text \<open>What the tracker of a boot knows: the ids of the orders that are active in the table, whatever
  the query of the reconciliation returned and the exchange answered.\<close>

definition active_ids :: "table \<Rightarrow> string set" where
  "active_ids rows = {oid. \<exists>r. rows_view rows oid = Some r \<and> \<not> is_terminal (row_state r)}"

abbreviation known_ids :: "'s OrderTracker \<Rightarrow> string set" where
  "known_ids t \<equiv> dom (map_of (tr_states t))"

lemma reconcile_order_known:
  "known_ids t \<subseteq> known_ids (snd (snd (reconcile_order S C P fmtG env qs ord (x, p, t))))"
  "known_ids (snd (snd (reconcile_order S C P fmtG env qs ord (x, p, t)))) \<subseteq> insert (o_OrderID ord) (known_ids t)"
  by (auto simp: reconcile_order_def Let_def tracker_simps split: prod.split sum.split)

lemma reconcile_loop_known:
  "known_ids (snd (snd st)) \<subseteq> known_ids (snd (snd (reconcile_loop S C P fmtG env k qs os st))) \<and>
   known_ids (snd (snd (reconcile_loop S C P fmtG env k qs os st))) \<subseteq> known_ids (snd (snd st)) \<union> o_OrderID ` set os"
proof (induction os arbitrary: k st)
  case (Cons ord os)
  obtain x p t where st: "st = (x, p, t)" by (rule prod_cases3)
  let ?st' = "reconcile_order S C P fmtG (env k) qs ord (x, p, t)"
  have "known_ids t \<subseteq> known_ids (snd (snd ?st'))" "known_ids (snd (snd ?st')) \<subseteq> insert (o_OrderID ord) (known_ids t)"
    by (rule reconcile_order_known)+
  then show ?case using Cons.IH [of ?st' "Suc k"]
    unfolding st reconcile_loop.simps snd_conv list.set image_insert by blast
qed simp

lemma active_rows_ids:
  assumes "rows_inv rows" "r \<in> set (select_active rows)"
  shows "row_order_id r \<in> active_ids rows"
  using assms rows_view_in by (fastforce simp: select_active_eq active_ids_def)

lemma GetActiveOrders_ids:
  assumes "rows_inv rows" "GetActiveOrders c rows = Inr (os, sts, qs)"
  shows "o_OrderID ` set os \<subseteq> active_ids rows"
proof -
  obtain n where "scan_rows (take n (select_active rows)) ([], [], []) = (os, sts, qs)"
    using assms(2) by (auto simp: GetActiveOrders_def split: option.splits rows_fault.splits if_splits
        intro: that [of "length (select_active rows)"])
  then have "os = map row_order (take n (select_active rows))"
    using scan_rows_orders [of "take n (select_active rows)" "([], [], [])"] by simp
  then show ?thesis using active_rows_ids [OF assms(1)] in_set_takeD by (fastforce simp: row_order_def)
qed

lemma WithStore_known:
  assumes "rows_inv rows" "c_ok c" "c_rows c = None"
  shows "known_ids (WithStore (sqlite_store sod) c rows NewOrderTracker) = active_ids rows"
proof -
  obtain os sts qs where act: "GetActiveOrders c rows = Inr (os, sts, qs)"
    and os: "set os = {row_order r | r oid. rows_view rows oid = Some r \<and> \<not> is_terminal (row_state r)}"
    using GetActiveOrders_complete [OF assms(2,3,1)] by blast
  have "o_OrderID ` set os = active_ids rows"
  proof
    show "active_ids rows \<subseteq> o_OrderID ` set os"
      unfolding os active_ids_def by (force simp: row_order_def dest: rows_view_SomeD)
  qed (rule GetActiveOrders_ids [OF assms(1) act])
  moreover have "known_ids (WithStore (sqlite_store sod) c rows NewOrderTracker) = o_OrderID ` set os"
    by (auto simp: WithStore_def sqlite_store_def act preload_states NewOrderTracker_def dom_def split: if_splits)
  ultimately show ?thesis by simp
qed

lemma boot_known:
  assumes "rows_inv rows" "c_ok c0" "c_rows c0 = None"
  shows "known_ids (snd (snd (boot_reconcile sod C P fmtG c0 c env rows xp))) = active_ids rows"
proof (cases "GetActiveOrders c rows")
  case (Inl e)
  then show ?thesis using WithStore_known [OF assms]
    by (simp add: boot_reconcile_def reconcile_def sqlite_store_def)
next
  case (Inr r)
  obtain os sts qs where r: "r = (os, sts, qs)" by (rule prod_cases3)
  let ?st = "(fst xp, snd xp, WithStore (sqlite_store sod) c0 rows NewOrderTracker)"
  have "boot_reconcile sod C P fmtG c0 c env rows xp = reconcile_loop (sqlite_store sod) C P fmtG env 0 qs os ?st"
    using Inr r by (simp add: boot_reconcile_def reconcile_def sqlite_store_def)
  moreover have "o_OrderID ` set os \<subseteq> active_ids rows" using GetActiveOrders_ids [OF assms(1)] Inr r by blast
  ultimately show ?thesis
    using reconcile_loop_known [of ?st "sqlite_store sod" C P fmtG env 0 qs os] WithStore_known [OF assms, of sod]
    by (simp only: snd_conv) blast
qed

text \<open>C8. Reconciliation at boot is exact. For an exchange with steady answers and a publisher that
  accepts every fill, the fills it publishes are, in the order of the active orders, one for each
  order whose executed quantity exceeds the recorded one, with exactly the difference as its
  quantity, and no other; afterwards every answered order has the exchange's state and executed
  quantity in the store, and every other row is as it was.\<close>

theorem reconcile_backfills:
  assumes "fill_publisher P delivered entry" "\<forall>c f p. fst (PublishFill P c f p) = None"
    and "steady_answers C ans" "rows_inv rows" "boot_ok c env"
    and "boot_reconcile sod C P fmtG c0 c env rows (x, p) = (x', p', t')"
  shows "\<exists>os sts qs fs rows'. GetActiveOrders c rows = Inr (os, sts, qs) \<and>
    delivered p' = delivered p @ map entry fs \<and>
    map (\<lambda>f. (f_OrderID f, f_Quantity f)) fs =
      List.map_filter (\<lambda>ord. map_option (Pair (o_OrderID ord)) (missed_qty ans qs ord)) os \<and>
    tr_store t' = Some rows' \<and> reconciled rows_view ans os rows rows'"
proof -
  obtain os sts qs where l: "GetActiveOrders c rows = Inr (os, sts, qs)"
    "boot_reconcile sod C P fmtG c0 c env rows (x, p) = reconcile_loop (sqlite_store sod) C P fmtG env 0 qs os
       (x, p, WithStore (sqlite_store sod) c0 rows NewOrderTracker)"
    using boot_reconcile_loop [OF assms(4,5), of sod C P fmtG c0 "(x, p)"] by (metis fst_conv snd_conv)
  have run: "reconcile_loop (sqlite_store sod) C P fmtG env 0 qs os
      (x, p, WithStore (sqlite_store sod) c0 rows NewOrderTracker) = (x', p', t')" using l(2) assms(6) by simp
  have "\<exists>fs. delivered p' = delivered p @ map entry fs \<and>
    map (\<lambda>f. (f_OrderID f, f_Quantity f)) fs =
      List.map_filter (\<lambda>ord. map_option (Pair (o_OrderID ord)) (missed_qty ans qs ord)) os"
    using fill_publisher.reconcile_loop_delivered [OF assms(1,3,2), of "sqlite_store sod" fmtG env 0 qs os x p
        "WithStore (sqlite_store sod) c0 rows NewOrderTracker"] unfolding run by simp
  then show ?thesis
    using boot_reconcile_store [OF assms(3,4,5) l(1), of sod P fmtG c0 "(x, p)"] assms(6) l(1) by auto
qed

text \<open>C13. Reconciliation happens once. After a boot has reconciled the store, the next boot against
  the same answers publishes nothing. This holds whether or not the first boot's publications
  succeeded: the loop logs a publishing error and advances the stored quantity all the same, so a
  fill that could not be published then is never published.\<close>

theorem reconcile_once:
  assumes "steady_answers C ans" "rows_inv rows" "boot_ok c env" "boot_ok c' env'"
    and "tr_store (snd (snd (boot_reconcile sod C P fmtG c0 c env rows (x, p)))) = Some rows'"
  shows "fst (snd (boot_reconcile sod C Q fmtG c0' c' env' rows' (x', q))) = q"
proof -
  obtain os sts qs where l: "GetActiveOrders c rows = Inr (os, sts, qs)"
    using boot_reconcile_loop [OF assms(2,3)] by metis
  have s: "rows_inv rows'" "reconciled rows_view ans os rows rows'"
    using boot_reconcile_store [OF assms(1,2,3) l, of sod P fmtG c0 "(x, p)"] assms(5) by auto
  obtain os' sts' qs' where l': "GetActiveOrders c' rows' = Inr (os', sts', qs')"
    "boot_reconcile sod C Q fmtG c0' c' env' rows' (x', q) = reconcile_loop (sqlite_store sod) C Q fmtG env' 0 qs' os'
       (x', q, WithStore (sqlite_store sod) c0' rows' NewOrderTracker)"
    using boot_reconcile_loop [OF s(1) assms(4), of sod C Q fmtG c0' "(x', q)"] by (metis fst_conv snd_conv)
  have "missed_qty ans qs' ord = None" if "ord \<in> set os'" for ord
    using sqlite.nothing_missed [OF assms(1,2) s(1) _ _ _ s(2) _ _ _ that, of c sod sts qs c' sts' qs'] l l'(1) assms(3,4)
    by (simp add: boot_ok_def sqlite_store_def)
  then show ?thesis using reconcile_loop_quiet [OF assms(1), of os' qs'] l'(2) by simp
qed

text \<open>One submitted order of which the exchange has executed a part.\<close>

definition rc_order :: Order where
  "rc_order = \<lparr> o_OrderID = ''o1'', o_Instrument = ''BTC-USD'', o_Side = SideBuy, o_Quantity = Fin 2, o_Price = Fin 20,
     o_Type = TypeLimit \<rparr>"

definition rc_rows :: table where
  "rc_rows = [new_row rc_order StateSubmitted 0]"

definition rc_result :: OrderStatusResult where
  "rc_result = \<lparr> r_State = StatePartiallyFilled, r_ExecutedQty = Fin 1, r_FillPrice = Fin 20, r_TransactTime = 5 \<rparr>"

definition rc_exchange :: "unit ExchangeConnector" where
  "rc_exchange = \<lparr> SubmitOrder = (\<lambda>_ _ x. (Inl '''', x)), CancelOrder = (\<lambda>_ _ _ x. (None, x)),
     GetOrderState = (\<lambda>_ _ _ x. (Inr rc_result, x)) \<rparr>"

definition rc_call :: call where
  "rc_call = \<lparr> c_now = 0, c_done = False, c_ok = True, c_err = '''', c_rows = None, c_send = (\<lambda>_. Sent) \<rparr>"

definition rc_env :: "nat \<Rightarrow> rec_env" where
  "rc_env k = \<lparr> re_query = rc_call, re_now = 0, re_pub = rc_call, re_upd = rc_call \<rparr>"

definition rc_down :: "ExecutionFill list FillPublisher" where
  "rc_down = \<lparr> PublishFill = (\<lambda>_ _ p. (Some ''broker down'', p)) \<rparr>"

lemma rc_hyps:
  "steady_answers rc_exchange (\<lambda>_ _. Inr rc_result)" "rows_inv rc_rows" "boot_ok rc_call rc_env"
  "\<forall>c f p. fst (PublishFill fake_publisher c f p) = None"
  by (simp_all add: steady_answers_def rc_exchange_def rc_result_def rows_inv_def rc_rows_def boot_ok_def rc_call_def
        rc_env_def fake_publisher_def fake_PublishFill_def)

lemma rc_active: "GetActiveOrders rc_call rc_rows = Inr ([rc_order], [(''o1'', StateSubmitted)], [(''o1'', Fin 0)])"
  by (simp add: GetActiveOrders_def rc_call_def rc_rows_def select_active_def new_row_def row_order_def rc_order_def)

theorem reconcile_backfills_witness:
  "map (\<lambda>f. (f_OrderID f, f_Quantity f)) (fst (snd (boot_reconcile (\<lambda>_. 0) rc_exchange fake_publisher (\<lambda>_. ''1'')
     rc_call rc_call rc_env rc_rows ((), [])))) = [(''o1'', Fin 1)]"
proof -
  obtain x' p' t' where b: "boot_reconcile (\<lambda>_. 0) rc_exchange fake_publisher (\<lambda>_. ''1'') rc_call rc_call rc_env rc_rows ((), []) = (x', p', t')"
    by (metis prod_cases3)
  have m: "missed_qty (\<lambda>_ _. Inr rc_result) [(''o1'', Fin 0)] rc_order = Some (Fin 1)"
    by (simp add: missed_qty_def rc_result_def prev_filled_def rc_order_def float_sub_def)
  have "map (\<lambda>f. (f_OrderID f, f_Quantity f)) p' = [(''o1'', Fin 1)]"
    using reconcile_backfills [OF fakepub.fill_publisher_axioms rc_hyps(4,1,2,3) b] m
    by (auto simp: rc_active List.map_filter_simps rc_order_def)
  then show ?thesis by (simp only: b fst_conv snd_conv)
qed

theorem reconcile_once_witness:
  "\<exists>rows'. fst (snd (boot_reconcile (\<lambda>_. 0) rc_exchange rc_down (\<lambda>_. ''1'') rc_call rc_call rc_env rc_rows ((), []))) = [] \<and>
     tr_store (snd (snd (boot_reconcile (\<lambda>_. 0) rc_exchange rc_down (\<lambda>_. ''1'') rc_call rc_call rc_env rc_rows ((), [])))) = Some rows' \<and>
     fst (snd (boot_reconcile (\<lambda>_. 0) rc_exchange fake_publisher (\<lambda>_. ''1'') rc_call rc_call rc_env rows' ((), []))) = []"
proof -
  obtain rows' where r: "tr_store (snd (snd (boot_reconcile (\<lambda>_. 0) rc_exchange rc_down (\<lambda>_. ''1'') rc_call rc_call rc_env rc_rows ((), [])))) = Some rows'"
    using boot_reconcile_store [OF rc_hyps(1,2,3) rc_active] by blast
  have d: "fst (snd (boot_reconcile (\<lambda>_. 0) rc_exchange rc_down (\<lambda>_. ''1'') rc_call rc_call rc_env rc_rows ((), []))) = []"
    using rc_active
    by (simp add: boot_reconcile_def reconcile_def sqlite_store_def reconcile_order_def rc_exchange_def rc_down_def Let_def)
  show ?thesis by (intro exI [of _ rows'] conjI d r reconcile_once [OF rc_hyps(1,2,3,3) r])
qed

end
