(* ===== verification/Races.thy ===== *)
theory Races
  imports Interleave Reconcile
begin

text \<open>
  Schedules of the two workers of \<open>internal/gateway/gateway.go\<close> in which a fill of the user-data
  stream arrives between the submission of its order and the bookkeeping that follows it, and what
  the boot-time reconciliation (\<open>cmd/sleipnir/main.go\<close>) makes of the rows they leave.
\<close>

section \<open>Building schedules\<close>

fun irun :: "('s, 'x, 'p, 'k, 'm) ports \<Rightarrow> (string \<Rightarrow> string) \<Rightarrow> intent_env \<Rightarrow> Order \<Rightarrow> 'k \<Rightarrow> nat \<Rightarrow> ipoint \<Rightarrow>
    ('s, 'x, 'p, 'm) Gateway \<Rightarrow> (ipoint \<times> ('s, 'x, 'p, 'm) Gateway) option" where
  "irun pt uni env i msg 0 p gw = Some (p, gw)"
| "irun pt uni env i msg (Suc n) p gw =
     (case istep pt uni env i msg p gw of
        Some (Inr p', gw') \<Rightarrow> irun pt uni env i msg n p' gw'
      | _ \<Rightarrow> None)"

lemma work_irun:
  assumes "work pt uni Q st0 tr st" "wk_intent st = Some (env, i, msg, p)"
    and "irun pt uni env i msg n p (wk_gw st) = Some (p', gw')"
  shows "\<exists>tr'. work pt uni Q st0 (tr @ tr') (st\<lparr> wk_gw := gw', wk_intent := Some (env, i, msg, p') \<rparr>)"
  using assms
proof (induction n arbitrary: tr st p)
  case 0
  then have "st\<lparr> wk_gw := gw', wk_intent := Some (env, i, msg, p') \<rparr> = st" by (cases st) simp
  with 0(1) show ?case by (intro exI [of _ "[]"]) (simp only: append_Nil2)
next
  case (Suc n)
  then obtain p1 gw1 where step: "istep pt uni env i msg p (wk_gw st) = Some (Inr p1, gw1)"
    by (auto split: option.splits sum.splits prod.splits)
  let ?st = "st\<lparr> wk_gw := gw1, wk_intent := Some (env, i, msg, p1) \<rparr>"
  have w: "work pt uni Q st0 (tr @ sent_events p i) ?st" by (rule work.intent_step [OF Suc.prems(1,2) step])
  obtain tr' where "work pt uni Q st0 ((tr @ sent_events p i) @ tr') (?st\<lparr> wk_gw := gw', wk_intent := Some (env, i, msg, p') \<rparr>)"
    using Suc.IH [OF w, of p1] Suc.prems(3) step by auto
  then show ?case by (intro exI [of _ "sent_events p i @ tr'"]) simp
qed

text \<open>An intent that goes to the exchange, stopped right after its submission.\<close>

lemma work_to_submission:
  assumes "FetchIntent (pt_consumer pt) c (gw_consumer gw) = (Inr (i, msg), m')" "Q env"
    and "handle_intent pt uni env i msg (gw\<lparr> gw_consumer := m' \<rparr>) = Some (out, gw')" "reaches_exchange out"
  obtains tr tb res g2 where
    "work pt uni Q (idle gw) tr \<lparr> wk_gw = g2, wk_intent = Some (env, i, msg, PMark res), wk_fill = None \<rparr>"
    "Submitted i \<in> set tr"
    "submit_intent pt env i (register pt env i (gw\<lparr> gw_consumer := m', gw_ready := True, gw_limiter := tb \<rparr>)) = (res, g2)"
    "settle pt env i msg res g2 = (out, gw')"
  using assms(3)
proof (cases rule: handle_intent_cases)
  case rejected
  then show thesis using assms(4) screen_outcome [OF rejected(1)] by auto
next
  case throttled
  then show thesis using assms(4) by simp
next
  case (processed tb res g2)
  let ?g = "gw\<lparr> gw_consumer := m', gw_ready := True \<rparr>"
  let ?r = "register pt env i (?g\<lparr> gw_limiter := tb \<rparr>)"
  have w0: "work pt uni Q (idle gw) [] (\<lparr> wk_gw = ?g, wk_intent = Some (env, i, msg, PHalt), wk_fill = None \<rparr>)"
    using work.fetch [OF work.start, where Q = Q, OF _ assms(2), of "idle gw" pt c i msg m' uni] assms(1) by (simp add: idle_def)
  have "screen pt uni env i ?g = None" using processed(1) screen_ready [of pt uni env i True "gw\<lparr> gw_consumer := m' \<rparr>"] by simp
  then have "irun pt uni env i msg 6 PHalt ?g = Some (PSubmit, ?r)"
    using processed(2)
    by (auto simp: screen_pass tracker_GetOrderState_def domIff register_def AddOrder_two_steps track_def eval_nat_numeral
        simp del: screen_ready split: prod.split bool.split)
  then obtain tr where w: "work pt uni Q (idle gw) tr \<lparr> wk_gw = ?r, wk_intent = Some (env, i, msg, PSubmit), wk_fill = None \<rparr>"
    using work_irun [OF w0, of env i msg PHalt 6 PSubmit ?r] by auto
  obtain g res' where "work pt uni Q (idle gw) (tr @ sent_events PSubmit i)
      \<lparr> wk_gw = g, wk_intent = Some (env, i, msg, PMark res'), wk_fill = None \<rparr>" "submit_intent pt env i ?r = (res', g)"
    using work_submits [OF w, of env i msg] by auto
  with processed(3,4) show thesis by (intro that [of "tr @ sent_events PSubmit i"]) (auto simp: sent_events_def)
qed

text \<open>An intent without an immediate fill, from the write of its state on.\<close>

definition accepted :: "('s, 'x, 'p, 'k, 'm) ports \<Rightarrow> intent_env \<Rightarrow> Order \<Rightarrow> 'k \<Rightarrow> float64 option \<Rightarrow>
    ('s, 'x, 'p, 'm) Gateway \<Rightarrow> ('s, 'x, 'p, 'm) Gateway" where
  "accepted pt env i msg q gw = commit_msg pt (ie_commit env) msg (count_submitted i
     (track (write_qty (pt_store pt) (snd (ie_upd env)) (o_OrderID i) StateSubmitted q) gw))"

lemma accepted_tracker [simp]:
  "gw_tracker (accepted pt env i msg q gw) =
     write_qty (pt_store pt) (snd (ie_upd env)) (o_OrderID i) StateSubmitted q (gw_tracker gw)"
  "gw_producer (accepted pt env i msg q gw) = gw_producer gw"
  by (simp_all add: accepted_def gateway_simps)

lemma work_accepted:
  assumes "work pt uni Q st0 tr st" "wk_intent st = Some (env, i, msg, PWrite (Inr fill) q)"
    and "\<not> float_gt (f_Quantity fill) (Fin 0)"
  shows "work pt uni Q st0 (tr @ [IntentDone i msg Accepted])
    (st\<lparr> wk_gw := accepted pt env i msg q (wk_gw st), wk_intent := None \<rparr>)"
proof -
  let ?g = "count_submitted i (track (write_qty (pt_store pt) (snd (ie_upd env)) (o_OrderID i) StateSubmitted q) (wk_gw st))"
  let ?st = "st\<lparr> wk_gw := ?g, wk_intent := Some (env, i, msg, PCommit Accepted) \<rparr>"
  have "istep pt uni env i msg (PWrite (Inr fill) q) (wk_gw st) = Some (Inr (PCommit Accepted), ?g)"
    using assms(3) by (simp add: mark_state_def)
  from work.intent_step [OF assms(1,2) this] have w: "work pt uni Q st0 tr ?st" by (simp add: sent_events_def)
  have "istep pt uni env i msg (PCommit Accepted) (wk_gw ?st) = Some (Inl Accepted, accepted pt env i msg q (wk_gw st))"
    by (simp add: accepted_def)
  from work.intent_end [OF w _ this] show ?thesis by simp
qed

lemma work_mark:
  assumes "work pt uni Q st0 tr st" "wk_intent st = Some (env, i, msg, PMark res)"
    and "upd_mem (pt_store pt) (fst (ie_upd env)) (o_OrderID i) (mark_state res) (gw_tracker (wk_gw st)) = (q, t)"
  shows "work pt uni Q st0 tr
    (st\<lparr> wk_gw := (wk_gw st)\<lparr> gw_tracker := t \<rparr>, wk_intent := Some (env, i, msg, PWrite res q) \<rparr>)"
proof -
  have "istep pt uni env i msg (PMark res) (wk_gw st) = Some (Inr (PWrite res q), (wk_gw st)\<lparr> gw_tracker := t \<rparr>)"
    using assms(3) by simp
  from work.intent_step [OF assms(1,2) this] show ?thesis by (simp add: sent_events_def)
qed

section \<open>The row of an order\<close>

definition row_is :: "string \<Rightarrow> OrderState \<Rightarrow> float64 \<Rightarrow> Order \<Rightarrow> table OrderTracker \<Rightarrow> bool" where
  "row_is oid st q ord t \<longleftrightarrow> (\<exists>rows r. tr_store t = Some rows \<and> rows_inv rows \<and> rows_view rows oid = Some r \<and>
     row_state r = st \<and> row_filled_qty r = q \<and> row_order r = ord)"

lemma row_is_mem [simp]:
  "row_is oid st q ord (snd (upd_mem S c oid' st' t)) = row_is oid st q ord t"
  "row_is oid st q ord (updq_mem oid' st' t) = row_is oid st q ord t"
  by (simp_all add: row_is_def upd_mem_def updq_mem_def)

lemma row_is_add:
  assumes "c_ok c" "tr_store t = Some rows" "rows_inv rows" "rows_view rows (o_OrderID ord) = None"
  shows "row_is (o_OrderID ord) st (Fin 0) ord (AddOrder (sqlite_store sod) c ord st t)"
proof -
  obtain rows' where "st_SaveOrder (sqlite_store sod) c ord st rows = (None, rows')" "rows_inv rows'"
      "rows_view rows' = (rows_view rows)(o_OrderID ord \<mapsto> new_row ord st (c_now c))"
    using sqlite.save_ok [OF assms(1,3), of sod ord st] assms(4) by auto
  then show ?thesis using assms(2) by (auto simp: row_is_def AddOrder_def new_row_def row_order_def)
qed

lemma row_is_upd:
  assumes "row_is oid st q ord t" "c_ok c"
  shows "row_is oid st' q' ord (upd_db (sqlite_store sod) c oid st' q' t)"
proof -
  obtain rows r where r: "tr_store t = Some rows" "rows_inv rows" "rows_view rows oid = Some r" "row_order r = ord"
    using assms(1) by (auto simp: row_is_def)
  obtain rows' where "st_UpdateOrderState (sqlite_store sod) c oid st' q' rows = (None, rows')" "rows_inv rows'"
      "rows_view rows' = (rows_view rows)(oid \<mapsto> r\<lparr> row_state := st', row_filled_qty := q', row_updated_at := c_now c \<rparr>)"
    using sqlite.update_ok [OF assms(2) r(2), of sod oid st' q'] r(3) by auto
  then show ?thesis using r(1,4) by (auto simp: row_is_def upd_db_def row_order_def)
qed

lemma row_is_costs:
  assumes "row_is oid st q ord t" "c_ok c"
  shows "row_is oid st q ord (record_costs (sqlite_store sod) c oid cm sl t)"
proof -
  obtain rows r where r: "tr_store t = Some rows" "rows_inv rows" "rows_view rows oid = Some r" "row_order r = ord"
      "row_state r = st" "row_filled_qty r = q"
    using assms(1) by (auto simp: row_is_def)
  obtain rows' where "st_RecordFillCosts (sqlite_store sod) c oid cm sl rows = (None, rows')" "rows_inv rows'"
      "rows_view rows' = (rows_view rows)(oid \<mapsto> r\<lparr> row_commission := cm, row_slippage := sl, row_updated_at := c_now c \<rparr>)"
    using sqlite.costs_ok [OF assms(2) r(2), of sod oid cm sl] r(3) by auto
  then show ?thesis using r(1,4-6) by (auto simp: row_is_def record_costs_def row_order_def)
qed

lemma row_is_fill:
  assumes "row_is (f_OrderID f) st q ord (gw_tracker gw)" "pt_store pt = sqlite_store sod"
    "c_ok (fe_upd fenv)" "c_ok (fe_costs fenv)"
  shows "row_is (f_OrderID f) (fill_target f) (f_Quantity f) ord (gw_tracker (snd (handle_fill pt fenv f gw)))"
proof -
  have t: "gw_tracker (snd (handle_fill pt fenv f gw)) = book_fill (pt_store pt) fenv f (gw_tracker gw)"
    by (simp add: handle_fill_def Let_def gateway_simps)
  have "row_is (f_OrderID f) st q ord (updq_mem (f_OrderID f) (fill_target f) (gw_tracker gw))"
    using assms(1) by simp
  from row_is_costs [OF row_is_upd [OF this assms(3)] assms(4)] show ?thesis
    unfolding t assms(2) book_fill_def Let_def UpdateOrderStateAndQty_two_steps .
qed

text \<open>The quantity that \<open>UpdateOrderState\<close> preserves: what the row has if the order is active in the
  table, nothing otherwise.\<close>

lemma preserved_qty:
  assumes "row_is oid s q ord t" "q = Fin 0 \<or> is_terminal s" "c_rows c = None" "st \<noteq> StateFilled"
  shows "filled_qty_for (sqlite_store sod) c oid st t = Fin 0"
proof -
  obtain rows r where r: "tr_store t = Some rows" "rows_inv rows" "rows_view rows oid = Some r" "row_state r = s" "row_filled_qty r = q"
    using assms(1) by (auto simp: row_is_def)
  show ?thesis
  proof (cases "c_ok c")
    case True
    obtain os sts qs where "st_GetActiveOrders (sqlite_store sod) c rows = Inr (os, sts, qs)"
        "map_of qs oid = (if is_terminal (row_state r) then None else Some (row_filled_qty r))"
      using sqlite.active_ok [OF True assms(3) r(2), of sod] r(3) by force
    then show ?thesis using r assms(2,4) by (auto simp: filled_qty_for_def lookupFilledQtyLocked_def split: option.split)
  next
    case False
    then obtain e where "st_GetActiveOrders (sqlite_store sod) c rows = Inl e" using sqlite.active_fail by blast
    then show ?thesis using r(1) assms(4) by (simp add: filled_qty_for_def lookupFilledQtyLocked_def)
  qed
qed

section \<open>The fill that overtakes its order\<close>

lemma settle_Accepted:
  "settle pt env i msg res gw = (Accepted, gw') \<Longrightarrow> \<exists>fill. res = Inr fill \<and> \<not> float_gt (f_Quantity fill) (Fin 0)"
  by (erule settle_cases) simp_all

text \<open>The two schedules, from the point right after the submission. In the first the fill is booked
  before the order is marked SUBMITTED, in the second between the change in memory and the write to
  the store.\<close>

lemma overtaking_schedules:
  assumes "work pt uni Q st0 tr \<lparr> wk_gw = g, wk_intent = Some (env, i, msg, PMark (Inr fill)), wk_fill = None \<rparr>"
    and "\<not> float_gt (f_Quantity fill) (Fin 0)" "pt_store pt = sqlite_store sod"
    and "row_is (o_OrderID i) StatePending (Fin 0) i (gw_tracker g)"
    and "tracker_GetOrderState (o_OrderID i) (gw_tracker g) = Some StatePending"
    and "f_OrderID f = o_OrderID i" "fill_target f = StateFilled"
    and "c_ok (snd (ie_upd env))" "c_rows (fst (ie_upd env)) = None" "c_ok (fe_upd (fenv :: fill_env))" "c_ok (fe_costs fenv)"
    and "\<And>g'. gw_publishRetries g' = gw_publishRetries g \<Longrightarrow> fst (handle_fill pt fenv f g') = r"
  shows "\<forall>mem\<in>{StateSubmitted, StateFilled}. \<exists>gw'.
    work pt uni Q st0 (tr @ [FillDone f r, IntentDone i msg Accepted]) (idle gw') \<and>
    tracker_GetOrderState (o_OrderID i) (gw_tracker gw') = Some mem \<and>
    row_is (o_OrderID i) StateSubmitted (Fin 0) i (gw_tracker gw')"
proof -
  let ?oid = "o_OrderID i" and ?S = "sqlite_store sod" and ?c = "fst (ie_upd env)"
  let ?h = "\<lambda>g. snd (handle_fill pt fenv f g)"
  have upd: "upd_mem (pt_store pt) ?c ?oid (mark_state (Inr fill)) t = (Some (Fin 0), updq_mem ?oid StateSubmitted t)"
    if "row_is ?oid s q i t" "q = Fin 0 \<or> is_terminal s" "map_of (tr_states t) ?oid \<noteq> Some StateSubmitted" for s q t
    using that preserved_qty [OF that(1,2) assms(9), of StateSubmitted sod] assms(3)
    by (simp add: upd_mem_def mark_state_def updq_mem_def)
  have filled: "row_is ?oid StateFilled (f_Quantity f) i (gw_tracker (?h g'))" if "row_is ?oid s q i (gw_tracker g')" for s q g'
    using row_is_fill [of f s q i g' pt sod fenv] that assms(3,6,7,10,11) by simp
  have mem: "map_of (tr_states (gw_tracker (?h g'))) = (map_of (tr_states (gw_tracker g')))(?oid \<mapsto> StateFilled)" for g'
    using handle_fill_tracker(2) [of pt fenv f g'] assms(6,7) by simp
  have first: "\<exists>gw'. work pt uni Q st0 (tr @ [FillDone f r, IntentDone i msg Accepted]) (idle gw') \<and>
    tracker_GetOrderState ?oid (gw_tracker gw') = Some StateSubmitted \<and> row_is ?oid StateSubmitted (Fin 0) i (gw_tracker gw')"
  proof -
    let ?t = "updq_mem ?oid StateSubmitted (gw_tracker (?h g))"
    have w1: "work pt uni Q st0 (tr @ [FillDone f r])
        \<lparr> wk_gw = ?h g, wk_intent = Some (env, i, msg, PMark (Inr fill)), wk_fill = None \<rparr>"
      using work_fill [OF assms(1), of f fenv] assms(12) [of g] by simp
    have "upd_mem (pt_store pt) ?c ?oid (mark_state (Inr fill)) (gw_tracker (?h g)) = (Some (Fin 0), ?t)"
      using mem [of g] by (intro upd [OF filled [OF assms(4)]]) (simp_all add: is_terminal_def)
    then have w2: "work pt uni Q st0 (tr @ [FillDone f r]) \<lparr> wk_gw = (?h g)\<lparr> gw_tracker := ?t \<rparr>,
        wk_intent = Some (env, i, msg, PWrite (Inr fill) (Some (Fin 0))), wk_fill = None \<rparr>"
      using work_mark [OF w1] by simp
    let ?e = "accepted pt env i msg (Some (Fin 0)) ((?h g)\<lparr> gw_tracker := ?t \<rparr>)"
    have "work pt uni Q st0 (tr @ [FillDone f r, IntentDone i msg Accepted]) (idle ?e)"
      using work_accepted [OF w2 _ assms(2)] by (simp add: idle_def)
    moreover have "row_is ?oid StateSubmitted (Fin 0) i (gw_tracker ?e)"
      using row_is_upd [OF _ assms(8), of ?oid StateFilled "f_Quantity f" i ?t] filled [OF assms(4)] assms(3) by (simp add: write_qty_def)
    ultimately show ?thesis
      by (intro exI [of _ ?e]) (simp add: tracker_GetOrderState_def)
  qed
  have second: "\<exists>gw'. work pt uni Q st0 (tr @ [FillDone f r, IntentDone i msg Accepted]) (idle gw') \<and>
    tracker_GetOrderState ?oid (gw_tracker gw') = Some StateFilled \<and> row_is ?oid StateSubmitted (Fin 0) i (gw_tracker gw')"
  proof -
    let ?g = "g\<lparr> gw_tracker := updq_mem ?oid StateSubmitted (gw_tracker g) \<rparr>"
    have "upd_mem (pt_store pt) ?c ?oid (mark_state (Inr fill)) (gw_tracker g) = (Some (Fin 0), updq_mem ?oid StateSubmitted (gw_tracker g))"
      using assms(5) by (intro upd [OF assms(4)]) (simp_all add: tracker_GetOrderState_def)
    then have w1: "work pt uni Q st0 tr \<lparr> wk_gw = ?g, wk_intent = Some (env, i, msg, PWrite (Inr fill) (Some (Fin 0))), wk_fill = None \<rparr>"
      using work_mark [OF assms(1)] by simp
    have w2: "work pt uni Q st0 (tr @ [FillDone f r]) \<lparr> wk_gw = ?h ?g,
        wk_intent = Some (env, i, msg, PWrite (Inr fill) (Some (Fin 0))), wk_fill = None \<rparr>"
      using work_fill [OF w1, of f fenv] assms(12) [of ?g] by simp
    let ?e = "accepted pt env i msg (Some (Fin 0)) (?h ?g)"
    have "work pt uni Q st0 (tr @ [FillDone f r, IntentDone i msg Accepted]) (idle ?e)"
      using work_accepted [OF w2 _ assms(2)] by (simp add: idle_def)
    moreover have "row_is ?oid StateFilled (f_Quantity f) i (gw_tracker (?h ?g))"
      by (rule filled [of StatePending "Fin 0"]) (simp add: assms(4))
    then have "row_is ?oid StateSubmitted (Fin 0) i (gw_tracker ?e)"
      using row_is_upd [OF _ assms(8), of ?oid StateFilled "f_Quantity f" i "gw_tracker (?h ?g)"] assms(3) by (simp add: write_qty_def)
    ultimately show ?thesis using mem [of ?g]
      by (intro exI [of _ ?e]) (simp add: tracker_GetOrderState_def)
  qed
  from first second show ?thesis by simp
qed

text \<open>At the next boot the row is active with nothing filled, and the exchange says otherwise.\<close>

lemma reconcile_refills:
  assumes "row_is oid StateSubmitted (Fin 0) i t" "oid = o_OrderID i" "tr_store t = Some rows"
    and "fill_publisher P delivered entry" "\<forall>c f p. fst (PublishFill P c f p) = None"
    and "steady_answers C ans" "boot_ok c env" "answer ans i = Inr res" "r_ExecutedQty res = Fin q" "0 < q"
    and "boot_reconcile sod C P fmtG c0 c env rows (x, p) = (x', p', t')"
  shows "\<exists>fs. delivered p' = delivered p @ map entry fs \<and> (oid, Fin q) \<in> (\<lambda>f. (f_OrderID f, f_Quantity f)) ` set fs"
proof -
  obtain r where r: "rows_inv rows" "rows_view rows oid = Some r" "row_state r = StateSubmitted" "row_filled_qty r = Fin 0" "row_order r = i"
    using assms(1,3) by (auto simp: row_is_def)
  obtain os sts qs fs where b: "GetActiveOrders c rows = Inr (os, sts, qs)" "delivered p' = delivered p @ map entry fs"
      "map (\<lambda>f. (f_OrderID f, f_Quantity f)) fs = List.map_filter (\<lambda>ord. map_option (Pair (o_OrderID ord)) (missed_qty ans qs ord)) os"
    using reconcile_backfills [OF assms(4,5,6) r(1) assms(7,11)] by blast
  have ok: "c_ok c" "c_rows c = None" using assms(7) by (simp_all add: boot_ok_def)
  obtain os' sts' qs' where "st_GetActiveOrders (sqlite_store sod) c rows = Inr (os', sts', qs')"
      and a: "set os' = {row_order r | r oid. rows_view rows oid = Some r \<and> \<not> is_terminal (row_state r)}"
      "\<forall>oid. map_of qs' oid = (case rows_view rows oid of None \<Rightarrow> None
         | Some r \<Rightarrow> if is_terminal (row_state r) then None else Some (row_filled_qty r))"
    using sqlite.active_ok [OF ok r(1), of sod] by blast
  with b(1) have "os' = os" "qs' = qs" by (simp_all add: sqlite_store_def)
  moreover have nt: "\<not> is_terminal StateSubmitted" by (simp add: is_terminal_def)
  ultimately have i: "i \<in> set os" "map_of qs oid = Some (Fin 0)" using a r by (auto intro!: exI [of _ r] exI [of _ oid])
  have "fround q = Fin q" using assms(6,8,9) unfolding steady_answers_def by fastforce
  then have "missed_qty ans qs i = Some (Fin q)"
    using assms(2,8,9,10) i(2) by (simp add: missed_qty_def prev_filled_def float_sub_def)
  then have "(oid, Fin q) \<in> set (List.map_filter (\<lambda>ord. map_option (Pair (o_OrderID ord)) (missed_qty ans qs ord)) os)"
    using i(1) assms(2) by (force simp: List.map_filter_def)
  then have "(oid, Fin q) \<in> (\<lambda>f. (f_OrderID f, f_Quantity f)) ` set fs" unfolding b(3) [symmetric] by simp
  with b(2) show ?thesis by blast
qed

lemma submit_intent_publishing [simp]:
  "gw_publishRetries (snd (submit_intent pt env i gw)) = gw_publishRetries gw"
  by (simp add: submit_intent_def case_prod_beta split: bool.splits option.splits)

lemma handle_fill_published:
  assumes "\<forall>c f p. fst (PublishFill (pt_producer pt) c f p) = None" "0 \<le> gw_publishRetries gw"
  shows "fst (handle_fill pt fenv f gw) = None"
proof -
  let ?g = "(if fill_ends f then add_active (- 1) else id) (track (book_fill (pt_store pt) fenv f) (count_filled f gw))"
  have rt: "gw_publishRetries ?g = gw_publishRetries gw" by (simp add: gateway_simps)
  have h: "handle_fill pt fenv f gw = publishFillWithRetry pt (fe_pub fenv) f ?g"
    by (simp add: handle_fill_def Let_def fill_ends_def)
  obtain n where n: "nat (gw_publishRetries ?g + 1) = Suc n" 
    unfolding rt using assms(2) by (cases "nat (gw_publishRetries gw + 1)") simp_all
  obtain p' where "PublishFill (pt_producer pt) (fe_pub fenv 0) f (gw_producer ?g) = (None, p')"
    using assms(1) by (metis prod.collapse)
  from publish_loop_last [where k = 0 and io = "fe_pub fenv", OF _ this] show ?thesis
    unfolding h publishFillWithRetry_def n by simp
qed

text \<open>C14. A fill that overtakes its order is published twice. When the stream reports an order FILLED
  after the exchange has accepted it and before the gateway has finished marking it SUBMITTED, the
  row of the order ends as SUBMITTED with nothing filled, in memory the order is SUBMITTED or FILLED
  according to the schedule, and the fill has been published; at the next boot the reconciliation
  finds the order active, asks the exchange, and publishes its executed quantity once more.\<close>

theorem overtaking_fill_published_twice:
  assumes "FetchIntent (pt_consumer pt) c (gw_consumer gw) = (Inr (i, msg), m')" "Q env"
    and "handle_intent pt uni env i msg (gw\<lparr> gw_consumer := m' \<rparr>) = Some (Accepted, gw')"
    and "f_OrderID f = o_OrderID i" "fill_target f = StateFilled"
    and "pt_store pt = sqlite_store sod" "tr_store (gw_tracker gw) = Some rows" "rows_inv rows" "rows_view rows (o_OrderID i) = None"
    and "c_ok (ie_add env)" "c_ok (snd (ie_upd env))" "c_rows (fst (ie_upd env)) = None" "c_ok (fe_upd (fenv :: fill_env))" "c_ok (fe_costs fenv)"
    and "fill_publisher (pt_producer pt) delivered entry" "\<forall>c f p. fst (PublishFill (pt_producer pt) c f p) = None"
    and "0 \<le> gw_publishRetries gw"
    and "steady_answers C ans" "answer ans i = Inr res" "r_ExecutedQty res = Fin q" "0 < q" "boot_ok c' renv"
  shows "\<forall>mem\<in>{StateSubmitted, StateFilled}. \<exists>tr gw2 rows'.
    work pt uni Q (idle gw) (tr @ [FillDone f None, IntentDone i msg Accepted]) (idle gw2) \<and> Submitted i \<in> set tr \<and>
    tracker_GetOrderState (o_OrderID i) (gw_tracker gw2) = Some mem \<and>
    row_is (o_OrderID i) StateSubmitted (Fin 0) i (gw_tracker gw2) \<and> tr_store (gw_tracker gw2) = Some rows' \<and>
    entry f \<in> set (delivered (gw_producer gw2)) \<and>
    (\<exists>fs. delivered (fst (snd (boot_reconcile sod C (pt_producer pt) fmtG c0 c' renv rows' (x, gw_producer gw2)))) =
        delivered (gw_producer gw2) @ map entry fs \<and>
      (o_OrderID i, Fin q) \<in> (\<lambda>f. (f_OrderID f, f_Quantity f)) ` set fs)"
proof (intro ballI)
  fix mem :: OrderState
  assume mem: "mem \<in> {StateSubmitted, StateFilled}"
  obtain tr tb fres g2 where w: "work pt uni Q (idle gw) tr \<lparr> wk_gw = g2, wk_intent = Some (env, i, msg, PMark fres), wk_fill = None \<rparr>"
      "Submitted i \<in> set tr"
    and sub: "submit_intent pt env i (register pt env i (gw\<lparr> gw_consumer := m', gw_ready := True, gw_limiter := tb \<rparr>)) = (fres, g2)"
    and st: "settle pt env i msg fres g2 = (Accepted, gw')"
    by (rule work_to_submission [where Q = Q, OF assms(1-3)]) simp
  obtain fill where fill: "fres = Inr fill" "\<not> float_gt (f_Quantity fill) (Fin 0)" using settle_Accepted [OF st] by blast
  have t: "gw_tracker g2 = AddOrder (sqlite_store sod) (ie_add env) i StatePending (gw_tracker gw)"
    using submit_intent_Pair(1) [OF sub] assms(6) by simp
  have row: "row_is (o_OrderID i) StatePending (Fin 0) i (gw_tracker g2)"
    unfolding t by (rule row_is_add [OF assms(10,7,8,9)])
  have state: "tracker_GetOrderState (o_OrderID i) (gw_tracker g2) = Some StatePending"
    unfolding t by (simp add: tracker_GetOrderState_def tracker_simps)
  have retries: "gw_publishRetries g2 = gw_publishRetries gw"
    using submit_intent_publishing [of pt env i "register pt env i (gw\<lparr> gw_consumer := m', gw_ready := True, gw_limiter := tb \<rparr>)"] sub by simp
  have nil: "fst (handle_fill pt fenv f g') = None" if "gw_publishRetries g' = gw_publishRetries g2" for g'
    using handle_fill_published [OF assms(16)] that retries assms(17) by simp
  obtain gw2 where s: "work pt uni Q (idle gw) (tr @ [FillDone f None, IntentDone i msg Accepted]) (idle gw2)"
      "tracker_GetOrderState (o_OrderID i) (gw_tracker gw2) = Some mem" "row_is (o_OrderID i) StateSubmitted (Fin 0) i (gw_tracker gw2)"
    using overtaking_schedules [OF w(1) [unfolded fill(1)] fill(2) assms(6) row state assms(4,5,11-14) nil] mem by blast
  obtain rows' where rows': "tr_store (gw_tracker gw2) = Some rows'" using s(3) by (auto simp: row_is_def)
  have "entry f \<in> set (delivered (gw_producer gw2))"
    using fill_publisher.work_delivered [OF assms(15) s(1) refl refl] by (auto simp: idle_def)
  moreover have "\<exists>fs. delivered (fst (snd (boot_reconcile sod C (pt_producer pt) fmtG c0 c' renv rows' (x, gw_producer gw2)))) =
        delivered (gw_producer gw2) @ map entry fs \<and>
      (o_OrderID i, Fin q) \<in> (\<lambda>f. (f_OrderID f, f_Quantity f)) ` set fs"
  proof -
    obtain x' p' t' where b: "boot_reconcile sod C (pt_producer pt) fmtG c0 c' renv rows' (x, gw_producer gw2) = (x', p', t')"
      by (rule prod_cases3)
    from reconcile_refills [OF s(3) refl rows' assms(15,16,18,22,19,20,21) b] show ?thesis unfolding b by simp
  qed
  ultimately
  show "\<exists>tr gw2 rows'.
    work pt uni Q (idle gw) (tr @ [FillDone f None, IntentDone i msg Accepted]) (idle gw2) \<and> Submitted i \<in> set tr \<and>
    tracker_GetOrderState (o_OrderID i) (gw_tracker gw2) = Some mem \<and>
    row_is (o_OrderID i) StateSubmitted (Fin 0) i (gw_tracker gw2) \<and> tr_store (gw_tracker gw2) = Some rows' \<and>
    entry f \<in> set (delivered (gw_producer gw2)) \<and>
    (\<exists>fs. delivered (fst (snd (boot_reconcile sod C (pt_producer pt) fmtG c0 c' renv rows' (x, gw_producer gw2)))) =
        delivered (gw_producer gw2) @ map entry fs \<and>
      (o_OrderID i, Fin q) \<in> (\<lambda>f. (f_OrderID f, f_Quantity f)) ` set fs)"
    using s w(2) rows' by (intro exI [of _ tr] exI [of _ gw2] exI [of _ rows'] conjI)
qed

text \<open>An exchange that lets a limit order rest and fills it a moment later.\<close>

definition rs_exchange :: "unit ExchangeConnector" where
  "rs_exchange = \<lparr> SubmitOrder = (\<lambda>_ o' x. (Inr (empty_fill\<lparr> f_OrderID := o_OrderID o' \<rparr>), x)),
     CancelOrder = (\<lambda>_ _ _ x. (None, x)), GetOrderState = (\<lambda>_ _ _ x. (Inr rc_result, x)) \<rparr>"

definition rs_ports :: "(table, unit, ExecutionFill list, int, fakeConsumer) ports" where
  "rs_ports = \<lparr> pt_store = sqlite_store (\<lambda>_. 0), pt_connector = rs_exchange,
     pt_producer = fake_publisher, pt_consumer = fake_consumer \<rparr>"

definition rs_gateway :: "(table, unit, ExecutionFill list, fakeConsumer) Gateway" where
  "rs_gateway = NewGateway \<lparr> fc_intents = [demo_order], fc_idx = 0, fc_committed = [] \<rparr> []
     () (NewOrderTracker\<lparr> tr_store := Some [] \<rparr>) (NewTokenBucketLimiter 0 (Fin 4)) None None 100"

definition rs_fill :: ExecutionFill where
  "rs_fill = demo_fill\<lparr> f_OrderStatus := StateFilled \<rparr>"

lemma rs_sel [simp]:
  "pt_store rs_ports = sqlite_store (\<lambda>_. 0)" "pt_connector rs_ports = rs_exchange"
  "pt_producer rs_ports = fake_publisher" "pt_consumer rs_ports = fake_consumer"
  "gw_tracker rs_gateway = NewOrderTracker\<lparr> tr_store := Some [] \<rparr>" "gw_producer rs_gateway = []"
  "gw_halt rs_gateway = NewHalt" "gw_risk rs_gateway = None" "gw_limiter rs_gateway = NewTokenBucketLimiter 0 (Fin 4)"
  "gw_maxDailyOrders rs_gateway = 100" "gw_maxDailyBuys rs_gateway = 0" "gw_maxDailySells rs_gateway = 0"
  "gw_algoExec rs_gateway = False" "gw_publishRetries rs_gateway = 3"
  by (simp_all add: rs_ports_def rs_gateway_def NewGateway_def)

lemma rs_fetch:
  "FetchIntent (pt_consumer rs_ports) demo_call (gw_consumer rs_gateway) =
     (Inr (demo_order, 1), \<lparr> fc_intents = [demo_order], fc_idx = 1, fc_committed = [] \<rparr>)"
  by (simp add: fake_consumer_def fake_FetchIntent_def rs_gateway_def NewGateway_def)

lemma rs_handled:
  "\<exists>gw'. handle_intent rs_ports uni demo_ienv demo_order 1 (rs_gateway\<lparr> gw_consumer := m \<rparr>) = Some (Accepted, gw')"
proof -
  have sc: "screen rs_ports uni demo_ienv demo_order (rs_gateway\<lparr> gw_consumer := m \<rparr>) = None"
    unfolding screen_pass using demo_valid
    by (simp add: IsHalted_def NewHalt_def NewOrderTracker_def checkRiskLimits_def CheckIntent_def check_daily_def
        sqlite_store_def GetDailyOrderCount_def demo_call_def)
  have sub: "fst (submit_intent rs_ports demo_ienv demo_order g) = Inr (empty_fill\<lparr> f_OrderID := o_OrderID demo_order \<rparr>)"
    if "gw_algoExec g = False" for g :: "(table, unit, ExecutionFill list, fakeConsumer) Gateway"
    using that by (simp add: submit_intent_def rs_exchange_def)
  have "fst (settle rs_ports demo_ienv demo_order 1 (Inr (empty_fill\<lparr> f_OrderID := oid \<rparr>)) g) = Accepted"
    for oid and g :: "(table, unit, ExecutionFill list, fakeConsumer) Gateway"
    by (simp add: settle_def Let_def empty_fill_def)
  then show ?thesis
    using sc demo_wait sub by (auto simp: handle_intent_def Let_def process_def case_prod_beta prod_eq_iff register_def gateway_simps)
qed

theorem overtaking_fill_published_twice_witness:
  "\<exists>tr gw rows'. work rs_ports (\<lambda>s. s) (\<lambda>_. True) (idle rs_gateway) (tr @ [FillDone rs_fill None, IntentDone demo_order 1 Accepted]) (idle gw) \<and>
     tracker_GetOrderState ''o1'' (gw_tracker gw) = Some StateFilled \<and> tr_store (gw_tracker gw) = Some rows' \<and>
     rs_fill \<in> set (gw_producer gw) \<and>
     (\<exists>fs. fst (snd (boot_reconcile (\<lambda>_. 0) rs_exchange fake_publisher (\<lambda>_. ''1'') rc_call rc_call rc_env rows' ((), gw_producer gw))) =
        gw_producer gw @ fs \<and> (''o1'', Fin 1) \<in> (\<lambda>f. (f_OrderID f, f_Quantity f)) ` set fs)"
proof -
  let ?m = "\<lparr> fc_intents = [demo_order], fc_idx = 1, fc_committed = [] \<rparr>"
  obtain gw' where h: "handle_intent rs_ports (\<lambda>s. s) demo_ienv demo_order 1 (rs_gateway\<lparr> gw_consumer := ?m \<rparr>) = Some (Accepted, gw')"
    using rs_handled by blast
  have oid: "f_OrderID rs_fill = o_OrderID demo_order" "fill_target rs_fill = StateFilled"
    by (simp_all add: rs_fill_def demo_fill_def fill_target_def)
  have ok: "c_ok (ie_add demo_ienv)" "c_ok (snd (ie_upd demo_ienv))" "c_rows (fst (ie_upd demo_ienv)) = None"
      "c_ok (fe_upd demo_fenv)" "c_ok (fe_costs demo_fenv)"
    by (simp_all add: demo_call_def demo_ienv_def demo_fenv_def)
  have store: "tr_store (gw_tracker rs_gateway) = Some []" "rows_inv []" "rows_view [] (o_OrderID demo_order) = None"
    by (simp_all add: rows_inv_def)
  have pub: "\<forall>c f p. fst (PublishFill (pt_producer rs_ports) c f p) = None"
      "fill_publisher (pt_producer rs_ports) (\<lambda>fills. fills) (\<lambda>fill. fill)"
    using fakepub.fill_publisher_axioms by (simp_all add: fake_publisher_def fake_PublishFill_def)
  have ex: "steady_answers rs_exchange (\<lambda>_ _. Inr rc_result)" "r_ExecutedQty rc_result = Fin 1" "0 < (1 :: rat)" "boot_ok rc_call rc_env"
    using rc_hyps(1,3) by (simp_all add: steady_answers_def rs_exchange_def rc_result_def)
  have "\<exists>tr gw rows'. work rs_ports (\<lambda>s. s) (\<lambda>_. True) (idle rs_gateway) (tr @ [FillDone rs_fill None, IntentDone demo_order 1 Accepted]) (idle gw) \<and>
      Submitted demo_order \<in> set tr \<and> tracker_GetOrderState (o_OrderID demo_order) (gw_tracker gw) = Some StateFilled \<and>
      row_is (o_OrderID demo_order) StateSubmitted (Fin 0) demo_order (gw_tracker gw) \<and> tr_store (gw_tracker gw) = Some rows' \<and>
      rs_fill \<in> set (gw_producer gw) \<and>
     (\<exists>fs. fst (snd (boot_reconcile (\<lambda>_. 0) rs_exchange (pt_producer rs_ports) (\<lambda>_. ''1'') rc_call rc_call rc_env rows' ((), gw_producer gw))) =
        gw_producer gw @ map (\<lambda>f. f) fs \<and> (o_OrderID demo_order, Fin 1) \<in> (\<lambda>f. (f_OrderID f, f_Quantity f)) ` set fs)"
    by (rule overtaking_fill_published_twice [where Q = "\<lambda>_. True", OF rs_fetch TrueI h oid rs_sel(1) store ok pub(2,1) _ ex(1) _ ex(2-4),
          THEN bspec]) (simp_all add: ex)
  then show ?thesis by (force simp: demo_order_def)
qed

section \<open>A drain beside an intent that is not tracked yet\<close>

lemma registered_active:
  "i \<in> set (GetAllActiveOrders (add_db S c i StatePending (add_mem i StatePending t)))"
proof -
  have "map_of (AList.update (o_OrderID i) i (tr_orders t)) (o_OrderID i) = Some i" by (simp add: update_conv')
  then have "(o_OrderID i, i) \<in> set (AList.update (o_OrderID i) i (tr_orders t))" by (rule map_of_SomeD)
  then show ?thesis by (force simp: GetAllActiveOrders_def add_db_def add_mem_def state_of_def update_conv')
qed

text \<open>C24. \<open>Drain\<close> looks at the tracker only. While the intents worker is between fetching an intent and
  registering its order, nothing of it is there to be seen: with no other order active, \<open>Drain\<close> returns
  at its first poll and reports that no order is in flight, and the worker then submits its order,
  which is active when the caller of \<open>Drain\<close> goes on to cancel the context.\<close>

theorem drain_overlooks_intent:
  assumes "wk_intent st = Some (env, i, msg, PWait)"
    and "limiter_Wait (ie_rounds env) (gw_limiter (wk_gw st)) = Some (None, tb)"
    and "GetAllActiveOrders (gw_tracker (wk_gw st)) = []" "gw_intake (wk_gw st) \<noteq> None"
  shows "\<exists>gw' tr st'. Drain timeout now ((gw_tracker (wk_gw st), now') # rounds) (wk_gw st) = Some (0, gw') \<and>
    work pt uni Q (st\<lparr> wk_gw := gw' \<rparr>) tr st' \<and> sent tr = [i] \<and> i \<in> set (GetAllActiveOrders (gw_tracker (wk_gw st')))"
proof -
  let ?gw = "(wk_gw st)\<lparr> gw_intake := Some True \<rparr>"
  let ?st = "\<lambda>p g. st\<lparr> wk_gw := g, wk_intent := Some (env, i, msg, p) \<rparr>"
  let ?g1 = "?gw\<lparr> gw_limiter := tb \<rparr>"
  let ?g2 = "track (add_mem i StatePending) ?g1"
  let ?g3 = "add_active 1 (track (add_db (pt_store pt) (ie_add env) i StatePending) ?g2)"
  obtain res g4 where g4: "submit_intent pt env i ?g3 = (res, g4)" by fastforce
  have "Drain timeout now ((gw_tracker (wk_gw st), now') # rounds) (wk_gw st) = Some (0, ?gw)"
    using assms(3,4) by (auto simp: Drain_def)
  moreover have "work pt uni Q (st\<lparr> wk_gw := ?gw \<rparr>) [] (st\<lparr> wk_gw := ?gw \<rparr>)" by (rule work.start)
  then have "work pt uni Q (st\<lparr> wk_gw := ?gw \<rparr>) ([] @ sent_events PWait i) (?st PAdd ?g1)"
    using work.intent_step [of pt uni Q "st\<lparr> wk_gw := ?gw \<rparr>" "[]" "st\<lparr> wk_gw := ?gw \<rparr>" env i msg PWait PAdd ?g1] assms(1,2) by simp
  then have "work pt uni Q (st\<lparr> wk_gw := ?gw \<rparr>) [] (?st PAdd ?g1)" by (simp add: sent_events_def)
  from work.intent_step [OF this, of env i msg PAdd PSave ?g2]
  have "work pt uni Q (st\<lparr> wk_gw := ?gw \<rparr>) [] (?st PSave ?g2)" by (simp add: sent_events_def)
  from work.intent_step [OF this, of env i msg PSave PSubmit ?g3]
  have "work pt uni Q (st\<lparr> wk_gw := ?gw \<rparr>) [] (?st PSubmit ?g3)" by (simp add: sent_events_def)
  from work.intent_step [OF this, of env i msg PSubmit "PMark res" g4]
  have "work pt uni Q (st\<lparr> wk_gw := ?gw \<rparr>) [Submitted i] (?st (PMark res) g4)" using g4 by (simp add: sent_events_def)
  moreover have "gw_tracker g4 = gw_tracker ?g3"
    using g4 by (auto simp: submit_intent_def case_prod_beta split: bool.splits option.splits)
  then have "i \<in> set (GetAllActiveOrders (gw_tracker g4))" by (simp add: registered_active gateway_simps)
  ultimately show ?thesis by (intro exI [of _ ?gw] exI [of _ "[Submitted i]"] exI [of _ "?st (PMark res) g4"]) simp
qed

theorem drain_overlooks_intent_witness:
  "\<exists>gw' tr st'. Drain 8 0 [(gw_tracker demo_gateway, 1)] (demo_gateway\<lparr> gw_intake := Some False \<rparr>) = Some (0, gw') \<and>
     work demo_ports (\<lambda>s. s) (\<lambda>_. True) \<lparr> wk_gw = gw', wk_intent = Some (demo_ienv, demo_order, 1, PWait), wk_fill = None \<rparr> tr st' \<and>
     sent tr = [demo_order] \<and> demo_order \<in> set (GetAllActiveOrders (gw_tracker (wk_gw st')))"
proof -
  let ?st = "\<lparr> wk_gw = demo_gateway\<lparr> gw_intake := Some False \<rparr>, wk_intent = Some (demo_ienv, demo_order, 1, PWait), wk_fill = None \<rparr>"
  obtain tb where w: "limiter_Wait (ie_rounds demo_ienv) (gw_limiter (wk_gw ?st)) = Some (None, tb)" using demo_wait by auto
  have a: "GetAllActiveOrders (gw_tracker (wk_gw ?st)) = []" by (simp add: GetAllActiveOrders_def NewOrderTracker_def)
  show ?thesis
    using drain_overlooks_intent [of ?st demo_ienv demo_order 1 tb 8 0 1 "[]" demo_ports "\<lambda>s. s" "\<lambda>_. True"] w a by simp
qed

end
