(* ===== verification/Json.thy ===== *)
theory Json
  imports Exchange
begin

text \<open>
  JSON as the program uses it through \<open>encoding/json\<close>: decoded values as trees, the encoding of a
  fill and the decoding of intents and fills by the field tags of
  \<open>internal/exchange/connector.go\<close>. The text of a value (\<open>je_parse\<close>, \<open>je_render\<close>), the folding of
  field names and the handling of strings outside ASCII, the text of an instant and the messages
  of the package's errors are parameters.
\<close>

section \<open>Values\<close>

datatype jvalue = JNull | JBool bool | JNum float64 | JStr string | JArr "jvalue list"
  | JObj "(string \<times> jvalue) list"

text \<open>The type assertion \<open>payload[k].(string)\<close> with a dropped or tested second result.\<close>

definition str_field :: "(string \<times> jvalue) list \<Rightarrow> string \<Rightarrow> string option" where
  "str_field payload k = (case map_of payload k of Some (JStr s) \<Rightarrow> Some s | _ \<Rightarrow> None)"

definition num_field :: "(string \<times> jvalue) list \<Rightarrow> string \<Rightarrow> float64 option" where
  "num_field payload k = (case map_of payload k of Some (JNum x) \<Rightarrow> Some x | _ \<Rightarrow> None)"

abbreviation str_or_empty :: "(string \<times> jvalue) list \<Rightarrow> string \<Rightarrow> string" where
  "str_or_empty payload k \<equiv> (case str_field payload k of None \<Rightarrow> '''' | Some s \<Rightarrow> s)"

record json_env =
  je_parse :: "string \<Rightarrow> goerror + jvalue"
  je_render :: "jvalue \<Rightarrow> string"
  je_uni :: "string \<Rightarrow> string"
  je_utf8 :: "string \<Rightarrow> string"
  je_fmtTime :: "time \<Rightarrow> goerror + string"
  je_parseTime :: "string \<Rightarrow> goerror + time"
  je_typeErr :: "jvalue \<Rightarrow> goerror"

section \<open>Encoding\<close>

text \<open>A float that is not finite cannot be encoded. A string is made valid UTF-8.\<close>

definition unsupported :: "float64 \<Rightarrow> goerror option" where
  "unsupported x = (case x of
     NaN \<Rightarrow> Some ''json: unsupported value: NaN''
   | PosInf \<Rightarrow> Some ''json: unsupported value: +Inf''
   | NegInf \<Rightarrow> Some ''json: unsupported value: -Inf''
   | Fin q \<Rightarrow> None)"

fun first_error :: "goerror option list \<Rightarrow> goerror option" where
  "first_error [] = None"
| "first_error (None # es) = first_error es"
| "first_error (Some e # es) = Some e"

definition enc_string :: "json_env \<Rightarrow> string \<Rightarrow> jvalue" where
  "enc_string je s = JStr (if is_ascii s then s else je_utf8 je s)"

definition fill_tree :: "json_env \<Rightarrow> ExecutionFill \<Rightarrow> string \<Rightarrow> jvalue" where
  "fill_tree je f ts = JObj
     [(''order_id'', enc_string je (f_OrderID f)), (''execution_id'', enc_string je (f_ExecutionID f)),
      (''instrument'', enc_string je (f_Instrument f)), (''side'', enc_string je (f_Side f)),
      (''order_status'', enc_string je (f_OrderStatus f)), (''quantity'', JNum (f_Quantity f)),
      (''fill_price'', JNum (f_FillPrice f)), (''transaction_cost'', JNum (f_TransactionCost f)),
      (''timestamp'', JStr ts)]"

definition Marshal_fill :: "json_env \<Rightarrow> ExecutionFill \<Rightarrow> goerror + string" where
  "Marshal_fill je f =
     (case first_error [unsupported (f_Quantity f), unsupported (f_FillPrice f), unsupported (f_TransactionCost f)] of
        Some e \<Rightarrow> Inl e
      | None \<Rightarrow> (case je_fmtTime je (f_Timestamp f) of
          Inl e \<Rightarrow> Inl (''json: error calling MarshalJSON for type time.Time: '' @ e)
        | Inr ts \<Rightarrow> Inr (je_render je (fill_tree je f ts))))"

definition order_tree :: "json_env \<Rightarrow> Order \<Rightarrow> jvalue" where
  "order_tree je ord = JObj
     [(''order_id'', enc_string je (o_OrderID ord)), (''instrument'', enc_string je (o_Instrument ord)),
      (''side'', enc_string je (o_Side ord)), (''quantity'', JNum (o_Quantity ord)), (''price'', JNum (o_Price ord)),
      (''order_type'', enc_string je (o_Type ord))]"

definition Marshal_order :: "json_env \<Rightarrow> Order \<Rightarrow> goerror + string" where
  "Marshal_order je ord =
     (case first_error [unsupported (o_Quantity ord), unsupported (o_Price ord)] of
        Some e \<Rightarrow> Inl e | None \<Rightarrow> Inr (je_render je (order_tree je ord)))"

section \<open>Decoding\<close>

text \<open>A key selects a field by its tag, exactly or up to case. \<open>null\<close> leaves a field as it is; a
  value of another type is an error.\<close>

definition key_is :: "json_env \<Rightarrow> string \<Rightarrow> string \<Rightarrow> bool" where
  "key_is je tag k = (k = tag \<or> ToUpper (je_uni je) k = ToUpper (je_uni je) tag)"

definition dec_string :: "json_env \<Rightarrow> jvalue \<Rightarrow> string \<Rightarrow> goerror + string" where
  "dec_string je v old = (case v of JStr s \<Rightarrow> Inr s | JNull \<Rightarrow> Inr old | _ \<Rightarrow> Inl (je_typeErr je v))"

definition dec_float :: "json_env \<Rightarrow> jvalue \<Rightarrow> float64 \<Rightarrow> goerror + float64" where
  "dec_float je v old = (case v of JNum x \<Rightarrow> Inr x | JNull \<Rightarrow> Inr old | _ \<Rightarrow> Inl (je_typeErr je v))"

definition dec_time :: "json_env \<Rightarrow> jvalue \<Rightarrow> time \<Rightarrow> goerror + time" where
  "dec_time je v old = (case v of JStr s \<Rightarrow> je_parseTime je s | JNull \<Rightarrow> Inr old | _ \<Rightarrow> Inl (je_typeErr je v))"

definition with_field :: "('a \<Rightarrow> 'b \<Rightarrow> 'b) \<Rightarrow> 'b \<Rightarrow> goerror + 'a \<Rightarrow> goerror + 'b" where
  "with_field upd x r = (case r of Inl e \<Rightarrow> Inl e | Inr v \<Rightarrow> Inr (upd v x))"

definition order_field :: "json_env \<Rightarrow> string \<times> jvalue \<Rightarrow> Order \<Rightarrow> goerror + Order" where
  "order_field je kv r = (case kv of (k, v) \<Rightarrow>
     if key_is je ''order_id'' k then with_field (\<lambda>x. o_OrderID_update (\<lambda>_. x)) r (dec_string je v (o_OrderID r))
     else if key_is je ''instrument'' k then with_field (\<lambda>x. o_Instrument_update (\<lambda>_. x)) r (dec_string je v (o_Instrument r))
     else if key_is je ''side'' k then with_field (\<lambda>x. o_Side_update (\<lambda>_. x)) r (dec_string je v (o_Side r))
     else if key_is je ''quantity'' k then with_field (\<lambda>x. o_Quantity_update (\<lambda>_. x)) r (dec_float je v (o_Quantity r))
     else if key_is je ''price'' k then with_field (\<lambda>x. o_Price_update (\<lambda>_. x)) r (dec_float je v (o_Price r))
     else if key_is je ''order_type'' k then with_field (\<lambda>x. o_Type_update (\<lambda>_. x)) r (dec_string je v (o_Type r))
     else Inr r)"

definition fill_field :: "json_env \<Rightarrow> string \<times> jvalue \<Rightarrow> ExecutionFill \<Rightarrow> goerror + ExecutionFill" where
  "fill_field je kv r = (case kv of (k, v) \<Rightarrow>
     if key_is je ''order_id'' k then with_field (\<lambda>x. f_OrderID_update (\<lambda>_. x)) r (dec_string je v (f_OrderID r))
     else if key_is je ''execution_id'' k then with_field (\<lambda>x. f_ExecutionID_update (\<lambda>_. x)) r (dec_string je v (f_ExecutionID r))
     else if key_is je ''instrument'' k then with_field (\<lambda>x. f_Instrument_update (\<lambda>_. x)) r (dec_string je v (f_Instrument r))
     else if key_is je ''side'' k then with_field (\<lambda>x. f_Side_update (\<lambda>_. x)) r (dec_string je v (f_Side r))
     else if key_is je ''order_status'' k then with_field (\<lambda>x. f_OrderStatus_update (\<lambda>_. x)) r (dec_string je v (f_OrderStatus r))
     else if key_is je ''quantity'' k then with_field (\<lambda>x. f_Quantity_update (\<lambda>_. x)) r (dec_float je v (f_Quantity r))
     else if key_is je ''fill_price'' k then with_field (\<lambda>x. f_FillPrice_update (\<lambda>_. x)) r (dec_float je v (f_FillPrice r))
     else if key_is je ''transaction_cost'' k then with_field (\<lambda>x. f_TransactionCost_update (\<lambda>_. x)) r (dec_float je v (f_TransactionCost r))
     else if key_is je ''timestamp'' k then with_field (\<lambda>x. f_Timestamp_update (\<lambda>_. x)) r (dec_time je v (f_Timestamp r))
     else Inr r)"

text \<open>The members of an object in order. After an error the result is discarded by every caller, so
  the first error stands for the whole.\<close>

fun dec_members :: "((string \<times> jvalue) \<Rightarrow> 'r \<Rightarrow> goerror + 'r) \<Rightarrow> (string \<times> jvalue) list \<Rightarrow> 'r \<Rightarrow> goerror + 'r" where
  "dec_members fld [] r = Inr r"
| "dec_members fld (kv # kvs) r = (case fld kv r of Inl e \<Rightarrow> Inl e | Inr r' \<Rightarrow> dec_members fld kvs r')"

definition Unmarshal :: "json_env \<Rightarrow> ((string \<times> jvalue) \<Rightarrow> 'r \<Rightarrow> goerror + 'r) \<Rightarrow> 'r \<Rightarrow> string \<Rightarrow> goerror + 'r" where
  "Unmarshal je fld zero text = (case je_parse je text of
     Inl e \<Rightarrow> Inl e
   | Inr JNull \<Rightarrow> Inr zero
   | Inr (JObj kvs) \<Rightarrow> dec_members fld kvs zero
   | Inr v \<Rightarrow> Inl (je_typeErr je v))"

definition empty_order :: Order where
  "empty_order = \<lparr> o_OrderID = '''', o_Instrument = '''', o_Side = '''', o_Quantity = Fin 0, o_Price = Fin 0, o_Type = '''' \<rparr>"

definition Unmarshal_order :: "json_env \<Rightarrow> string \<Rightarrow> goerror + Order" where
  "Unmarshal_order je text = Unmarshal je (order_field je) empty_order text"

definition Unmarshal_fill :: "json_env \<Rightarrow> string \<Rightarrow> goerror + ExecutionFill" where
  "Unmarshal_fill je text = Unmarshal je (fill_field je) empty_fill text"

section \<open>Round trips\<close>

lemma key_is_self [simp]: "key_is je t t"
  by (simp add: key_is_def)

lemma key_is_ascii:
  "is_ascii tag \<Longrightarrow> is_ascii k \<Longrightarrow> key_is je tag k \<longleftrightarrow> map upper_char k = map upper_char tag"
  by (auto simp: key_is_def ToUpper_def)

lemma key_is_order_id [simp]:
  "\<not> key_is je ''order_id'' ''execution_id''" "\<not> key_is je ''order_id'' ''instrument''" "\<not> key_is je ''order_id'' ''side''"
  "\<not> key_is je ''order_id'' ''order_status''" "\<not> key_is je ''order_id'' ''quantity''" "\<not> key_is je ''order_id'' ''fill_price''"
  "\<not> key_is je ''order_id'' ''transaction_cost''" "\<not> key_is je ''order_id'' ''timestamp''" "\<not> key_is je ''order_id'' ''price''"
  "\<not> key_is je ''order_id'' ''order_type''"
  by (simp_all add: key_is_ascii is_ascii_def upper_char_def)

lemma key_is_execution_id [simp]:
  "\<not> key_is je ''execution_id'' ''instrument''" "\<not> key_is je ''execution_id'' ''side''"
  "\<not> key_is je ''execution_id'' ''order_status''" "\<not> key_is je ''execution_id'' ''quantity''"
  "\<not> key_is je ''execution_id'' ''fill_price''" "\<not> key_is je ''execution_id'' ''transaction_cost''"
  "\<not> key_is je ''execution_id'' ''timestamp''"
  by (simp_all add: key_is_ascii is_ascii_def upper_char_def)

lemma key_is_instrument [simp]:
  "\<not> key_is je ''instrument'' ''side''" "\<not> key_is je ''instrument'' ''order_status''" "\<not> key_is je ''instrument'' ''quantity''"
  "\<not> key_is je ''instrument'' ''fill_price''" "\<not> key_is je ''instrument'' ''transaction_cost''"
  "\<not> key_is je ''instrument'' ''timestamp''" "\<not> key_is je ''instrument'' ''price''" "\<not> key_is je ''instrument'' ''order_type''"
  by (simp_all add: key_is_ascii is_ascii_def upper_char_def)

lemma key_is_side [simp]:
  "\<not> key_is je ''side'' ''order_status''" "\<not> key_is je ''side'' ''quantity''" "\<not> key_is je ''side'' ''fill_price''"
  "\<not> key_is je ''side'' ''transaction_cost''" "\<not> key_is je ''side'' ''timestamp''" "\<not> key_is je ''side'' ''price''"
  "\<not> key_is je ''side'' ''order_type''"
  by (simp_all add: key_is_ascii is_ascii_def upper_char_def)

lemma key_is_rest [simp]:
  "\<not> key_is je ''order_status'' ''quantity''" "\<not> key_is je ''order_status'' ''fill_price''"
  "\<not> key_is je ''order_status'' ''transaction_cost''" "\<not> key_is je ''order_status'' ''timestamp''"
  "\<not> key_is je ''quantity'' ''fill_price''" "\<not> key_is je ''quantity'' ''transaction_cost''"
  "\<not> key_is je ''quantity'' ''timestamp''" "\<not> key_is je ''quantity'' ''price''" "\<not> key_is je ''quantity'' ''order_type''"
  "\<not> key_is je ''fill_price'' ''transaction_cost''" "\<not> key_is je ''fill_price'' ''timestamp''"
  "\<not> key_is je ''transaction_cost'' ''timestamp''" "\<not> key_is je ''price'' ''order_type''"
  by (simp_all add: key_is_ascii is_ascii_def upper_char_def)

lemma first_error_None [simp]: "first_error es = None \<longleftrightarrow> (\<forall>e\<in>set es. e = None)"
  by (induction es rule: first_error.induct) auto

definition is_finite :: "float64 \<Rightarrow> bool" where
  "is_finite x = (case x of Fin _ \<Rightarrow> True | _ \<Rightarrow> False)"

lemma unsupported_None [simp]: "unsupported x = None \<longleftrightarrow> is_finite x"
  by (cases x) (simp_all add: unsupported_def is_finite_def)

definition finite_fill :: "ExecutionFill \<Rightarrow> bool" where
  "finite_fill f = (is_finite (f_Quantity f) \<and> is_finite (f_FillPrice f) \<and> is_finite (f_TransactionCost f))"

lemma Marshal_fill_finite:
  "finite_fill f \<Longrightarrow> je_fmtTime je (f_Timestamp f) = Inr ts \<Longrightarrow> Marshal_fill je f = Inr (je_render je (fill_tree je f ts))"
  by (simp add: Marshal_fill_def finite_fill_def split: option.split)

lemma Marshal_fill_not_finite: "\<not> finite_fill f \<Longrightarrow> \<exists>e. Marshal_fill je f = Inl e"
  by (auto simp: Marshal_fill_def finite_fill_def split: option.split)

text \<open>The text fields of a fill are ASCII.\<close>

definition ascii_fill :: "ExecutionFill \<Rightarrow> bool" where
  "ascii_fill f = (is_ascii (f_OrderID f) \<and> is_ascii (f_ExecutionID f) \<and> is_ascii (f_Instrument f) \<and>
     is_ascii (f_Side f) \<and> is_ascii (f_OrderStatus f))"

lemma dec_fill_tree:
  assumes "ascii_fill f" "je_parseTime je ts = Inr (f_Timestamp f)"
  shows "(case fill_tree je f ts of JObj kvs \<Rightarrow> dec_members (fill_field je) kvs empty_fill) = Inr f"
  using assms
  by (simp add: fill_tree_def ascii_fill_def enc_string_def fill_field_def with_field_def dec_string_def
        dec_float_def dec_time_def empty_fill_def)

lemma Unmarshal_Marshal_fill:
  assumes "Marshal_fill je f = Inr text" "ascii_fill f"
    and "\<And>ts. je_fmtTime je (f_Timestamp f) = Inr ts \<Longrightarrow> je_parseTime je ts = Inr (f_Timestamp f)"
    and "\<And>ts. je_fmtTime je (f_Timestamp f) = Inr ts \<Longrightarrow> je_parse je (je_render je (fill_tree je f ts)) = Inr (fill_tree je f ts)"
  shows "Unmarshal_fill je text = Inr f"
proof -
  obtain ts where ts: "je_fmtTime je (f_Timestamp f) = Inr ts" "text = je_render je (fill_tree je f ts)"
    using assms(1) by (auto simp: Marshal_fill_def split: option.splits sum.splits)
  then show ?thesis
    using dec_fill_tree [OF assms(2) assms(3) [OF ts(1)]] assms(4) [OF ts(1)]
    by (simp add: Unmarshal_fill_def Unmarshal_def fill_tree_def)
qed

lemma Unmarshal_order_tree:
  assumes "je_parse je text = Inr (order_tree je ord)"
    and "is_ascii (o_OrderID ord)" "is_ascii (o_Instrument ord)" "is_ascii (o_Side ord)" "is_ascii (o_Type ord)"
  shows "Unmarshal_order je text = Inr ord"
  using assms
  by (simp add: Unmarshal_order_def Unmarshal_def order_tree_def enc_string_def order_field_def with_field_def
        dec_string_def dec_float_def empty_order_def)

lemma Unmarshal_Marshal_order:
  assumes "Marshal_order je ord = Inr text"
    and "is_ascii (o_OrderID ord)" "is_ascii (o_Instrument ord)" "is_ascii (o_Side ord)" "is_ascii (o_Type ord)"
    and "je_parse je (je_render je (order_tree je ord)) = Inr (order_tree je ord)"
  shows "Unmarshal_order je text = Inr ord"
proof -
  have "text = je_render je (order_tree je ord)" using assms(1) by (auto simp: Marshal_order_def split: option.splits)
  then show ?thesis using Unmarshal_order_tree [OF _ assms(2-5)] assms(6) by simp
qed

end
