(* ===== verification/Tracing.thy ===== *)
theory Tracing
  imports Golib
begin

text \<open>
  \<open>internal/tracing/tracing.go\<close>: the carrier that adapts the headers of a Kafka message to the
  propagation of a trace context, and the functions that inject and unpack it. The propagator of
  the OpenTelemetry package is a parameter: injecting a context is a sequence of calls of \<open>Set\<close>,
  extracting reads with \<open>Get\<close>.
\<close>

section \<open>Initialisation\<close>

text \<open>What \<open>Init\<close> changes of the OpenTelemetry package: the propagators and the tracer provider.
  \<open>exporter\<close> and \<open>res\<close> are the errors of creating the exporter for an endpoint and the resource.\<close>

record TracerProvider =
  tp_endpoint :: string
  tp_serviceName :: string
  tp_serviceVersion :: string
  tp_maxQueueSize :: int
  tp_batchTimeout :: duration

record otel =
  ot_propagators :: "string list"
  ot_provider :: "TracerProvider option"

text \<open>The shutdown function of the caller: it does nothing, or shuts a provider down within 5 s.\<close>

datatype shutdown = NoShutdown | ShutdownProvider TracerProvider duration

definition tracing_Init :: "(string \<Rightarrow> string) \<Rightarrow> (string \<Rightarrow> goerror option) \<Rightarrow> goerror option \<Rightarrow> string \<Rightarrow> otel \<Rightarrow>
    (goerror + shutdown) \<times> otel" where
  "tracing_Init getenv exporter res version ot =
     (let endpoint = getenv ''OTEL_EXPORTER_OTLP_ENDPOINT'';
          ot1 = ot\<lparr> ot_propagators := [''TraceContext'', ''Baggage''] \<rparr>
      in if endpoint = '''' then (Inr NoShutdown, ot1)
         else case exporter endpoint of
           Some e \<Rightarrow> (Inl (''otel: failed to create OTLP exporter: '' @ e), ot1)
         | None \<Rightarrow> (case res of
             Some e \<Rightarrow> (Inl (''otel: failed to build resource: '' @ e), ot1)
           | None \<Rightarrow>
               let tp = \<lparr> tp_endpoint = endpoint, tp_serviceName = ''sleipnir'', tp_serviceVersion = version,
                          tp_maxQueueSize = 2048, tp_batchTimeout = 5 * Second \<rparr>
               in (Inr (ShutdownProvider tp (5 * Second)), ot1\<lparr> ot_provider := Some tp \<rparr>)))"

text \<open>The propagators are set on every path, so that trace headers flow without an exporter; a
  provider is installed exactly if its shutdown is returned.\<close>

lemma tracing_Init_state:
  "ot_propagators (snd (tracing_Init getenv exporter res version ot)) = [''TraceContext'', ''Baggage'']"
  "ot_provider (snd (tracing_Init getenv exporter res version ot)) =
     (case fst (tracing_Init getenv exporter res version ot) of
        Inr (ShutdownProvider tp _) \<Rightarrow> Some tp | _ \<Rightarrow> ot_provider ot)"
  by (simp_all add: tracing_Init_def Let_def split: option.split)

text \<open>\<open>otel.Tracer\<close> gives the tracer of a name; a span starts with the tracer of the service.\<close>

definition Tracer :: "(string \<Rightarrow> 'tracer) \<Rightarrow> 'tracer" where
  "Tracer otelTracer = otelTracer ''sleipnir''"

definition StartSpan :: "(string \<Rightarrow> 'tracer) \<Rightarrow> ('tracer \<Rightarrow> 'ctx \<Rightarrow> string \<Rightarrow> (string \<times> string) list \<Rightarrow> 'ctx \<times> 'span) \<Rightarrow>
    'ctx \<Rightarrow> string \<Rightarrow> (string \<times> string) list \<Rightarrow> 'ctx \<times> 'span" where
  "StartSpan otelTracer start ctx name attrs = start (Tracer otelTracer) ctx name attrs"

section \<open>The header carrier\<close>

type_synonym kafkaHeadersCarrier = "(string \<times> string) list"

fun carrier_Get :: "kafkaHeadersCarrier \<Rightarrow> string \<Rightarrow> string" where
  "carrier_Get [] key = ''''"
| "carrier_Get ((k, v) # hs) key = (if k = key then v else carrier_Get hs key)"

fun carrier_Set :: "string \<Rightarrow> string \<Rightarrow> kafkaHeadersCarrier \<Rightarrow> kafkaHeadersCarrier" where
  "carrier_Set key val [] = [(key, val)]"
| "carrier_Set key val ((k, v) # hs) = (if k = key then (k, val) # hs else (k, v) # carrier_Set key val hs)"

definition carrier_Keys :: "kafkaHeadersCarrier \<Rightarrow> string list" where
  "carrier_Keys hs = map fst hs"

text \<open>\<open>entries ctx\<close> are the calls of \<open>Set\<close> the propagator makes for a context, \<open>unpack ctx get\<close> is the
  context it builds from the headers it reads.\<close>

definition InjectKafkaHeaders :: "('ctx \<Rightarrow> (string \<times> string) list) \<Rightarrow> 'ctx \<Rightarrow> kafkaHeadersCarrier \<Rightarrow>
    kafkaHeadersCarrier" where
  "InjectKafkaHeaders entries ctx existing = fold (\<lambda>(k, v). carrier_Set k v) (entries ctx) existing"

definition ExtractKafkaContext :: "('ctx \<Rightarrow> (string \<Rightarrow> string) \<Rightarrow> 'ctx) \<Rightarrow> 'ctx \<Rightarrow> kafkaHeadersCarrier \<Rightarrow> 'ctx" where
  "ExtractKafkaContext unpack ctx headers = unpack ctx (carrier_Get headers)"

section \<open>The carrier contract\<close>

text \<open>What a propagator relies on.\<close>

locale text_map_carrier =
  fixes get :: "'c \<Rightarrow> string \<Rightarrow> string"
    and set_key :: "string \<Rightarrow> string \<Rightarrow> 'c \<Rightarrow> 'c"
    and keys :: "'c \<Rightarrow> string list"
  assumes get_set: "get (set_key k v c) j = (if j = k then v else get c j)"
    and keys_set: "set (keys (set_key k v c)) = insert k (set (keys c))"
    and get_absent: "k \<notin> set (keys c) \<Longrightarrow> get c k = ''''"
begin

lemma get_fold:
  "get (fold (\<lambda>(k, v). set_key k v) fs c) j =
     (case map_of (rev fs) j of Some v \<Rightarrow> v | None \<Rightarrow> get c j)"
  by (induction fs arbitrary: c) (auto simp: get_set map_add_def split: option.splits)

lemma keys_fold: "set (keys (fold (\<lambda>(k, v). set_key k v) fs c)) = set (keys c) \<union> fst ` set fs"
  by (induction fs arbitrary: c) (auto simp: keys_set)

end

interpretation headers: text_map_carrier carrier_Get carrier_Set carrier_Keys
proof unfold_locales
  fix k v j :: string and c :: kafkaHeadersCarrier
  show "carrier_Get (carrier_Set k v c) j = (if j = k then v else carrier_Get c j)"
    by (induction c) auto
  show "set (carrier_Keys (carrier_Set k v c)) = insert k (set (carrier_Keys c))"
    by (induction k v c rule: carrier_Set.induct) (simp_all add: carrier_Keys_def insert_commute)
  show "k \<notin> set (carrier_Keys c) \<Longrightarrow> carrier_Get c k = ''''"
    by (induction c) (auto simp: carrier_Keys_def)
qed

lemma carrier_Set_distinct:
  "distinct (carrier_Keys c) \<Longrightarrow> distinct (carrier_Keys (carrier_Set k v c))"
proof (induction c)
  case (Cons h c)
  obtain a b where h: "h = (a, b)" by fastforce
  have "a \<noteq> k \<Longrightarrow> a \<notin> set (carrier_Keys (carrier_Set k v c))"
    using Cons.prems headers.keys_set [of k v c] h by (auto simp: carrier_Keys_def)
  then show ?case using Cons h by (auto simp: carrier_Keys_def)
qed (simp add: carrier_Keys_def)

text \<open>A trace survives the message headers. After the trace context has been injected into
  headers whose names are distinct, the names are still distinct, every header that the
  propagator did not write reads as before, and reading any name back gives what the propagator
  wrote last under it; so an extraction that depends only on the written names sees exactly the
  injected entries.\<close>

theorem trace_survives_headers:
  assumes "distinct (carrier_Keys existing)"
  shows "distinct (carrier_Keys (InjectKafkaHeaders entries ctx existing))"
    and "carrier_Get (InjectKafkaHeaders entries ctx existing) k =
           (case map_of (rev (entries ctx)) k of Some v \<Rightarrow> v | None \<Rightarrow> carrier_Get existing k)"
    and "\<lbrakk> \<And>g h. (\<forall>k\<in>fst ` set (entries ctx). g k = h k) \<Longrightarrow> unpack parent g = unpack parent h;
           distinct (map fst (entries ctx)) \<rbrakk> \<Longrightarrow>
         ExtractKafkaContext unpack parent (InjectKafkaHeaders entries ctx existing) =
           unpack parent (\<lambda>k. case map_of (entries ctx) k of Some v \<Rightarrow> v | None \<Rightarrow> '''')"
proof -
  have "distinct (carrier_Keys c) \<Longrightarrow> distinct (carrier_Keys (fold (\<lambda>(k, v). carrier_Set k v) fs c))" for fs c
    by (induction fs arbitrary: c) (auto simp: carrier_Set_distinct)
  then show "distinct (carrier_Keys (InjectKafkaHeaders entries ctx existing))"
    using assms by (simp add: InjectKafkaHeaders_def)
  show get: "carrier_Get (InjectKafkaHeaders entries ctx existing) k =
      (case map_of (rev (entries ctx)) k of Some v \<Rightarrow> v | None \<Rightarrow> carrier_Get existing k)" for k
    by (simp add: InjectKafkaHeaders_def headers.get_fold)
  assume ext: "\<And>g h. (\<forall>k\<in>fst ` set (entries ctx). g k = h k) \<Longrightarrow> unpack parent g = unpack parent h"
    and d: "distinct (map fst (entries ctx))"
  have "map_of (rev (entries ctx)) = map_of (entries ctx)"
    using d by (intro map_of_eqI) (auto simp: map_of_eq_Some_iff rev_map [symmetric])
  then show "ExtractKafkaContext unpack parent (InjectKafkaHeaders entries ctx existing) =
      unpack parent (\<lambda>k. case map_of (entries ctx) k of Some v \<Rightarrow> v | None \<Rightarrow> '''')"
    unfolding ExtractKafkaContext_def using get
    by (intro ext) (auto split: option.splits simp: map_of_eq_None_iff)
qed

theorem trace_survives_headers_witness:
  "distinct (carrier_Keys (InjectKafkaHeaders (\<lambda>c. [(''traceparent'', c)]) ''00-7'' [(''a'', ''b'')])) \<and>
   carrier_Get (InjectKafkaHeaders (\<lambda>c. [(''traceparent'', c)]) ''00-7'' [(''a'', ''b'')]) ''a'' = ''b'' \<and>
   ExtractKafkaContext (\<lambda>_ get. get ''traceparent'') '''' (InjectKafkaHeaders (\<lambda>c. [(''traceparent'', c)]) ''00-7'' [(''a'', ''b'')])
     = ''00-7''"
proof -
  have d: "distinct (carrier_Keys [(''a'', ''b'')])" by (simp add: carrier_Keys_def)
  show ?thesis
    using trace_survives_headers(1,2) [OF d, where entries = "\<lambda>c. [(''traceparent'', c)]" and ctx = "''00-7''"]
      trace_survives_headers(3) [OF d, where entries = "\<lambda>c. [(''traceparent'', c)]" and ctx = "''00-7''"
        and unpack = "\<lambda>_ get. get ''traceparent''" and parent = "''''"]
    by simp
qed

end
