(* ===== verification/Kafka.thy ===== *)
theory Kafka
  imports Ports Json Tracing
begin

text \<open>
  \<open>internal/kafka\<close>: the producer of fills and the consumer of intents, the implementations behind
  the gateway's ports. The reader and the writer of the Kafka client package are parameters: the
  operations the code calls, on states \<open>'r\<close> and \<open>'w\<close>. The counter \<open>KafkaMessagesProcessed\<close> is kept as
  the sequence of its labels.
\<close>

record kafka_message =
  km_Key :: string
  km_Value :: string
  km_Time :: time
  km_Headers :: kafkaHeadersCarrier
  km_Offset :: int

definition empty_message :: kafka_message where
  "empty_message = \<lparr> km_Key = '''', km_Value = '''', km_Time = zero_time, km_Headers = [], km_Offset = 0 \<rparr>"

type_synonym 'w write_messages = "call \<Rightarrow> kafka_message \<Rightarrow> 'w \<Rightarrow> goerror option \<times> 'w"

record 'r kafka_reader =
  FetchMessage :: "call \<Rightarrow> 'r \<Rightarrow> (goerror + kafka_message) \<times> 'r"
  CommitMessages :: "call \<Rightarrow> kafka_message list \<Rightarrow> 'r \<Rightarrow> goerror option \<times> 'r"

record 'r Consumer =
  cs_reader :: 'r
  cs_topic :: string
  cs_processed :: "(string \<times> string \<times> string) list"

record 'w Producer =
  pd_writer :: 'w
  pd_topic :: string
  pd_processed :: "(string \<times> string \<times> string) list"

section \<open>The constructors\<close>

text \<open>The configurations handed to the client package; \<open>newReader\<close> and \<open>newWriter\<close> create its reader and
  writer. The package's \<open>RequireAll\<close> is -1 and its default, \<open>RequireNone\<close>, is 0.\<close>

record ReaderConfig =
  rc_Brokers :: "string list"
  rc_GroupID :: string
  rc_Topic :: string
  rc_MinBytes :: int
  rc_MaxBytes :: int
  rc_MaxWait :: duration

record WriterConfig =
  wc_Addr :: "string list"
  wc_Topic :: string
  wc_Balancer :: string
  wc_RequiredAcks :: int
  wc_WriteTimeout :: duration
  wc_ReadTimeout :: duration

abbreviation RequireNone :: int where "RequireNone \<equiv> 0"
abbreviation RequireAll :: int where "RequireAll \<equiv> - 1"

definition consumer_config :: "string list \<Rightarrow> string \<Rightarrow> string \<Rightarrow> ReaderConfig" where
  "consumer_config brokers topic groupID =
     \<lparr> rc_Brokers = brokers, rc_GroupID = groupID, rc_Topic = topic, rc_MinBytes = 10000, rc_MaxBytes = 10000000,
       rc_MaxWait = 1 * Second \<rparr>"

definition NewConsumer :: "(ReaderConfig \<Rightarrow> 'r) \<Rightarrow> string list \<Rightarrow> string \<Rightarrow> string \<Rightarrow> 'r Consumer" where
  "NewConsumer newReader brokers topic groupID =
     \<lparr> cs_reader = newReader (consumer_config brokers topic groupID), cs_topic = topic, cs_processed = [] \<rparr>"

definition producer_config :: "string list \<Rightarrow> string \<Rightarrow> WriterConfig" where
  "producer_config brokers topic =
     \<lparr> wc_Addr = brokers, wc_Topic = topic, wc_Balancer = ''LeastBytes'', wc_RequiredAcks = RequireAll,
       wc_WriteTimeout = 10 * Second, wc_ReadTimeout = 10 * Second \<rparr>"

definition NewProducer :: "(WriterConfig \<Rightarrow> 'w) \<Rightarrow> string list \<Rightarrow> string \<Rightarrow> 'w Producer" where
  "NewProducer newWriter brokers topic =
     \<lparr> pd_writer = newWriter (producer_config brokers topic), pd_topic = topic, pd_processed = [] \<rparr>"

section \<open>The consumer\<close>

definition count_consumed :: "string \<Rightarrow> 'r Consumer \<Rightarrow> 'r Consumer" where
  "count_consumed result cs = cs\<lparr> cs_processed := cs_processed cs @ [(cs_topic cs, ''consume'', result)] \<rparr>"

text \<open>\<open>c_done\<close> is the test \<open>ctx.Err() != nil\<close> after a failed fetch.\<close>

definition kafka_FetchIntent :: "json_env \<Rightarrow> 'r kafka_reader \<Rightarrow> call \<Rightarrow> 'r Consumer \<Rightarrow>
    (Order \<times> kafka_message \<times> goerror option) \<times> 'r Consumer" where
  "kafka_FetchIntent je R c cs =
     (case FetchMessage R c (cs_reader cs) of
        (Inl e, r') \<Rightarrow>
          ((empty_order, empty_message, Some e),
           (if c_done c then id else count_consumed ''error'') (cs\<lparr> cs_reader := r' \<rparr>))
      | (Inr msg, r') \<Rightarrow>
          (case Unmarshal_order je (km_Value msg) of
             Inl e \<Rightarrow> ((empty_order, msg, Some (''failed to deserialize intent: '' @ e)),
                       count_consumed ''error'' (cs\<lparr> cs_reader := r' \<rparr>))
           | Inr intent \<Rightarrow> ((intent, msg, None), count_consumed ''success'' (cs\<lparr> cs_reader := r' \<rparr>))))"

definition kafka_Commit :: "'r kafka_reader \<Rightarrow> call \<Rightarrow> kafka_message list \<Rightarrow> 'r Consumer \<Rightarrow> goerror option \<times> 'r Consumer" where
  "kafka_Commit R c msgs cs =
     (case CommitMessages R c msgs (cs_reader cs) of (e, r') \<Rightarrow> (e, cs\<lparr> cs_reader := r' \<rparr>))"

definition consumer_Close :: "('r \<Rightarrow> goerror option \<times> 'r) \<Rightarrow> 'r Consumer \<Rightarrow> goerror option \<times> 'r Consumer" where
  "consumer_Close closeR cs = (case closeR (cs_reader cs) of (e, r') \<Rightarrow> (e, cs\<lparr> cs_reader := r' \<rparr>))"

text \<open>The port: the gateway ignores the message of a failed fetch.\<close>

definition kafka_consumer :: "json_env \<Rightarrow> 'r kafka_reader \<Rightarrow> (kafka_message, 'r Consumer) IntentConsumer" where
  "kafka_consumer je R =
     \<lparr> FetchIntent = (\<lambda>c cs. case kafka_FetchIntent je R c cs of
         ((intent, msg, None), cs') \<Rightarrow> (Inr (intent, msg), cs')
       | ((intent, msg, Some e), cs') \<Rightarrow> (Inl e, cs')),
       Commit = (\<lambda>c msg. kafka_Commit R c [msg]) \<rparr>"

section \<open>The producer\<close>

text \<open>\<open>trace\<close> are the trace headers of the context of a call.\<close>

definition fill_message :: "(call \<Rightarrow> (string \<times> string) list) \<Rightarrow> call \<Rightarrow> ExecutionFill \<Rightarrow> string \<Rightarrow> kafka_message" where
  "fill_message trace c fill payload =
     \<lparr> km_Key = f_OrderID fill, km_Value = payload, km_Time = f_Timestamp fill,
       km_Headers = InjectKafkaHeaders trace c [], km_Offset = 0 \<rparr>"

definition count_produced :: "string \<Rightarrow> 'w Producer \<Rightarrow> 'w Producer" where
  "count_produced result pd = pd\<lparr> pd_processed := pd_processed pd @ [(pd_topic pd, ''produce'', result)] \<rparr>"

definition kafka_PublishFill :: "json_env \<Rightarrow> (call \<Rightarrow> (string \<times> string) list) \<Rightarrow> 'w write_messages \<Rightarrow> call \<Rightarrow>
    ExecutionFill \<Rightarrow> 'w Producer \<Rightarrow> goerror option \<times> 'w Producer" where
  "kafka_PublishFill je trace write c fill pd =
     (case Marshal_fill je fill of
        Inl e \<Rightarrow> (Some (''failed to marshal execution fill: '' @ e), pd)
      | Inr payload \<Rightarrow>
          (case write c (fill_message trace c fill payload) (pd_writer pd) of
             (Some e, w') \<Rightarrow> (Some (''failed to write message to Kafka: '' @ e),
                              count_produced ''error'' (pd\<lparr> pd_writer := w' \<rparr>))
           | (None, w') \<Rightarrow> (None, count_produced ''success'' (pd\<lparr> pd_writer := w' \<rparr>))))"

definition producer_Close :: "('w \<Rightarrow> goerror option \<times> 'w) \<Rightarrow> 'w Producer \<Rightarrow> goerror option \<times> 'w Producer" where
  "producer_Close closeW pd = (case closeW (pd_writer pd) of (e, w') \<Rightarrow> (e, pd\<lparr> pd_writer := w' \<rparr>))"

definition kafka_producer :: "json_env \<Rightarrow> (call \<Rightarrow> (string \<times> string) list) \<Rightarrow> 'w write_messages \<Rightarrow> 'w Producer FillPublisher" where
  "kafka_producer je trace write = \<lparr> PublishFill = kafka_PublishFill je trace write \<rparr>"

section \<open>The contracts of the ports\<close>

text \<open>What the client package documents: a write that returns nil has appended the message to the
  topic, one that fails may have; a fetch commits nothing; a commit that returns nil has committed
  the messages, one that fails may have.\<close>

definition writer_contract :: "'w write_messages \<Rightarrow> ('w \<Rightarrow> kafka_message list) \<Rightarrow> bool" where
  "writer_contract write wlog \<longleftrightarrow> (\<forall>c m w r w'. write c m w = (r, w') \<longrightarrow>
     (r = None \<longrightarrow> wlog w' = wlog w @ [m]) \<and> (wlog w' = wlog w \<or> wlog w' = wlog w @ [m]))"

definition reader_contract :: "'r kafka_reader \<Rightarrow> ('r \<Rightarrow> kafka_message list) \<Rightarrow> bool" where
  "reader_contract R done \<longleftrightarrow>
     (\<forall>c r. done (snd (FetchMessage R c r)) = done r) \<and>
     (\<forall>c ms r e r'. CommitMessages R c ms r = (e, r') \<longrightarrow>
        (e = None \<longrightarrow> done r' = done r @ ms) \<and> (done r' = done r \<or> done r' = done r @ ms))"

text \<open>The entry of a fill on the topic: its key and its text.\<close>

definition topic_entry :: "json_env \<Rightarrow> ExecutionFill \<Rightarrow> string \<times> (goerror + string)" where
  "topic_entry je fill = (f_OrderID fill, Marshal_fill je fill)"

definition topic_log :: "('w \<Rightarrow> kafka_message list) \<Rightarrow> 'w Producer \<Rightarrow> (string \<times> (goerror + string)) list" where
  "topic_log wlog pd = map (\<lambda>m. (km_Key m, Inr (km_Value m))) (wlog (pd_writer pd))"

lemma writer_contractD:
  assumes "writer_contract write wlog" "write c m w = (r, w')"
  shows "r = None \<Longrightarrow> wlog w' = wlog w @ [m]" and "wlog w' = wlog w \<or> wlog w' = wlog w @ [m]"
  using assms unfolding writer_contract_def by blast+

lemma reader_contractD:
  assumes "reader_contract R done" "CommitMessages R c ms r = (e, r')"
  shows "e = None \<Longrightarrow> done r' = done r @ ms" and "done r' = done r \<or> done r' = done r @ ms"
  using assms unfolding reader_contract_def by blast+

lemma kafka_PublishFill_cases:
  assumes "writer_contract write wlog" "kafka_PublishFill je trace write c fill pd = (r, pd')"
  shows "r = None \<Longrightarrow> \<exists>payload. Marshal_fill je fill = Inr payload \<and>
           wlog (pd_writer pd') = wlog (pd_writer pd) @ [fill_message trace c fill payload]"
    and "r = Some e \<Longrightarrow> wlog (pd_writer pd') = wlog (pd_writer pd) \<or>
           (\<exists>payload. Marshal_fill je fill = Inr payload \<and>
             wlog (pd_writer pd') = wlog (pd_writer pd) @ [fill_message trace c fill payload])"
  using assms(2) unfolding kafka_PublishFill_def count_produced_def
  by (auto dest: writer_contractD [OF assms(1)] split: sum.splits prod.splits option.splits)

lemma kafka_publisher:
  assumes "writer_contract write wlog"
  shows "fill_publisher (kafka_producer je trace write) (topic_log wlog) (topic_entry je)"
proof unfold_locales
  fix c fill pd pd'
  assume "PublishFill (kafka_producer je trace write) c fill pd = (None, pd')"
  then show "topic_log wlog pd' = topic_log wlog pd @ [topic_entry je fill]"
    using kafka_PublishFill_cases(1) [OF assms, of je trace c fill pd None pd']
    by (auto simp: kafka_producer_def topic_log_def topic_entry_def fill_message_def)
next
  fix c fill pd e pd'
  assume "PublishFill (kafka_producer je trace write) c fill pd = (Some e, pd')"
  then show "topic_log wlog pd' = topic_log wlog pd \<or> topic_log wlog pd' = topic_log wlog pd @ [topic_entry je fill]"
    using kafka_PublishFill_cases(2) [OF assms, of je trace c fill pd "Some e" pd' e]
    by (auto simp: kafka_producer_def topic_log_def topic_entry_def fill_message_def)
qed

lemma kafka_FetchIntent_reader:
  "cs_reader (snd (kafka_FetchIntent je R c cs)) = snd (FetchMessage R c (cs_reader cs))"
  by (simp add: kafka_FetchIntent_def count_consumed_def split: prod.split sum.split)

lemma kafka_intents:
  assumes "reader_contract R done"
  shows "intent_consumer (kafka_consumer je R) (\<lambda>cs. done (cs_reader cs))"
proof unfold_locales
  fix c cs
  have "snd (FetchIntent (kafka_consumer je R) c cs) = snd (kafka_FetchIntent je R c cs)"
    by (simp add: kafka_consumer_def split: prod.split option.split)
  then show "done (cs_reader (snd (FetchIntent (kafka_consumer je R) c cs))) = done (cs_reader cs)"
    using assms by (simp add: kafka_FetchIntent_reader reader_contract_def)
next
  fix c k cs cs'
  assume "Commit (kafka_consumer je R) c k cs = (None, cs')"
  then show "done (cs_reader cs') = done (cs_reader cs) @ [k]"
    by (auto dest: reader_contractD [OF assms] simp: kafka_consumer_def kafka_Commit_def split: prod.splits)
next
  fix c k cs e cs'
  assume "Commit (kafka_consumer je R) c k cs = (Some e, cs')"
  then show "done (cs_reader cs') = done (cs_reader cs) \<or> done (cs_reader cs') = done (cs_reader cs) @ [k]"
    by (auto dest: reader_contractD [OF assms] simp: kafka_consumer_def kafka_Commit_def split: prod.splits)
qed

section \<open>Properties\<close>


text \<open>A topic in memory: writes append, a reader walks over a list and remembers what was committed.\<close>

definition mem_write :: "kafka_message list write_messages" where
  "mem_write c m w = (None, w @ [m])"

definition mem_reader :: "(kafka_message list \<times> kafka_message list) kafka_reader" where
  "mem_reader = \<lparr> FetchMessage = (\<lambda>c r. case fst r of [] \<Rightarrow> (Inl (c_err c), r) | m # ms \<Rightarrow> (Inr m, (ms, snd r))),
     CommitMessages = (\<lambda>c ms r. (None, (fst r, snd r @ ms))) \<rparr>"

lemma mem_contracts: "writer_contract mem_write id" "reader_contract mem_reader snd"
  by (auto simp: writer_contract_def mem_write_def reader_contract_def mem_reader_def split: list.split)

definition mem_json :: "ExecutionFill \<Rightarrow> json_env" where
  "mem_json fill = \<lparr> je_parse = (\<lambda>_. Inr JNull), je_render = (\<lambda>_. ''{}''), je_uni = id, je_utf8 = id,
     je_fmtTime = (\<lambda>_. Inr ''t''), je_parseTime = (\<lambda>_. Inr (f_Timestamp fill)), je_typeErr = (\<lambda>_. ''type'') \<rparr>"

definition mem_fill :: ExecutionFill where
  "mem_fill = empty_fill\<lparr> f_OrderID := ''o1'', f_ExecutionID := ''o1-rest-7'', f_Instrument := ''BTC-USD'', f_Side := SideBuy,
     f_OrderStatus := StateFilled, f_Quantity := Fin 1, f_FillPrice := Fin 20 \<rparr>"

definition mem_producer :: "kafka_message list Producer" where
  "mem_producer = \<lparr> pd_writer = [], pd_topic = ''executions.fills.v1'', pd_processed = [] \<rparr>"

definition mem_call :: call where
  "mem_call = \<lparr> c_now = 0, c_done = False, c_ok = True, c_err = '''', c_rows = None, c_send = (\<lambda>_. Sent) \<rparr>"

definition mem_env :: json_env where
  "mem_env = (mem_json mem_fill)\<lparr> je_parse := (\<lambda>_. Inr (fill_tree (mem_json mem_fill) mem_fill ''t'')) \<rparr>"

text \<open>A writer that waits for no acknowledgement loses the message here.\<close>

definition acked_write :: "WriterConfig \<Rightarrow> kafka_message list write_messages" where
  "acked_write cfg c m w = (if wc_RequiredAcks cfg = RequireNone then (None, w) else mem_write c m w)"




end
