(* ===== verification/Telemetry.thy ===== *)
theory Telemetry
  imports Interleave Kafka
begin

text \<open>
  \<open>internal/telemetry/metrics.go\<close>: the collectors and their registration, and what the gateway's
  counters say about the intents it has handled. The client library of Prometheus is a parameter:
  a registry and its \<open>Register\<close>, of which only documented behaviour is assumed.
\<close>

section \<open>The collectors\<close>

text \<open>A collector has labels if it is a \<open>Vec\<close>.\<close>

datatype metric_kind = Counter | Gauge | Histogram "rat list"

record Collector =
  cl_Name :: string
  cl_kind :: metric_kind
  cl_labels :: "string list"

abbreviation NewCounterVec :: "string \<Rightarrow> string list \<Rightarrow> Collector" where
  "NewCounterVec name labels \<equiv> \<lparr> cl_Name = name, cl_kind = Counter, cl_labels = labels \<rparr>"

abbreviation NewCounter :: "string \<Rightarrow> Collector" where
  "NewCounter name \<equiv> NewCounterVec name []"

abbreviation NewGauge :: "string \<Rightarrow> Collector" where
  "NewGauge name \<equiv> \<lparr> cl_Name = name, cl_kind = Gauge, cl_labels = [] \<rparr>"

abbreviation NewHistogramVec :: "string \<Rightarrow> rat list \<Rightarrow> string list \<Rightarrow> Collector" where
  "NewHistogramVec name buckets labels \<equiv> \<lparr> cl_Name = name, cl_kind = Histogram buckets, cl_labels = labels \<rparr>"

abbreviation NewHistogram :: "string \<Rightarrow> rat list \<Rightarrow> Collector" where
  "NewHistogram name buckets \<equiv> NewHistogramVec name buckets []"

definition OrdersSubmitted :: Collector where
  "OrdersSubmitted = NewCounterVec ''sleipnir_orders_submitted_total'' [''instrument'', ''side'', ''type'']"

definition OrdersFilled :: Collector where
  "OrdersFilled = NewCounterVec ''sleipnir_orders_filled_total'' [''instrument'', ''side'']"

text \<open>\<open>defBuckets\<close> are the library's \<open>DefBuckets\<close>.\<close>

definition OrderLatency :: "rat list \<Rightarrow> Collector" where
  "OrderLatency defBuckets =
     NewHistogramVec ''sleipnir_order_latency_seconds'' defBuckets [''operation'', ''instrument'', ''status'']"

definition RateLimitDelay :: Collector where
  "RateLimitDelay = NewCounter ''sleipnir_rate_limit_delay_seconds_total''"

definition KafkaMessagesProcessed :: Collector where
  "KafkaMessagesProcessed =
     NewCounterVec ''sleipnir_kafka_messages_processed_total'' [''topic'', ''operation'', ''status'']"

definition WSConnectionDrops :: Collector where
  "WSConnectionDrops = NewCounter ''sleipnir_ws_connection_drops_total''"

definition RiskRejections :: Collector where
  "RiskRejections = NewCounterVec ''sleipnir_risk_rejections_total'' [''instrument'', ''reason'']"

definition ActiveOrders :: Collector where
  "ActiveOrders = NewGauge ''sleipnir_active_orders''"

definition IntentToSubmitSeconds :: Collector where
  "IntentToSubmitSeconds = NewHistogram ''sleipnir_intent_to_submit_seconds''
     [1 / 1000, 5 / 1000, 1 / 100, 25 / 1000, 5 / 100, 1 / 10, 25 / 100, 1 / 2, 1, 5 / 2, 5]"

definition FillToPublishSeconds :: Collector where
  "FillToPublishSeconds = NewHistogram ''sleipnir_fill_to_publish_seconds''
     [5 / 10000, 1 / 1000, 5 / 1000, 1 / 100, 25 / 1000, 5 / 100, 1 / 10, 25 / 100, 1 / 2, 1]"

definition WSConnected :: Collector where
  "WSConnected = NewGauge ''sleipnir_ws_connected''"

definition FeatureStreamConnected :: Collector where
  "FeatureStreamConnected = NewGauge ''sleipnir_feature_stream_connected''"

definition FeatureStreamDrops :: Collector where
  "FeatureStreamDrops = NewCounter ''sleipnir_feature_stream_drops_total''"

section \<open>Registration\<close>

text \<open>\<open>init\<close> registers the collectors one after the other; \<open>MustRegister\<close> panics (\<open>None\<close>) if
  \<open>Register\<close> returns an error.\<close>

definition init_collectors :: "rat list \<Rightarrow> Collector list" where
  "init_collectors defBuckets =
     [OrdersSubmitted, OrdersFilled, OrderLatency defBuckets, RateLimitDelay, KafkaMessagesProcessed,
      WSConnectionDrops, RiskRejections, ActiveOrders, IntentToSubmitSeconds, FillToPublishSeconds,
      WSConnected, FeatureStreamConnected, FeatureStreamDrops]"

fun register_all :: "(Collector \<Rightarrow> 'r \<Rightarrow> goerror option \<times> 'r) \<Rightarrow> Collector list \<Rightarrow> 'r \<Rightarrow> 'r option" where
  "register_all Register [] reg = Some reg"
| "register_all Register (c # cs) reg =
     (case Register c reg of
        (None, reg') \<Rightarrow> register_all Register cs reg'
      | (Some e, reg') \<Rightarrow> None)"

definition telemetry_init :: "(Collector \<Rightarrow> 'r \<Rightarrow> goerror option \<times> 'r) \<Rightarrow> rat list \<Rightarrow> 'r \<Rightarrow> 'r option" where
  "telemetry_init Register defBuckets reg = register_all Register (init_collectors defBuckets) reg"

text \<open>What the library documents: a collector is valid if its name and labels are made of letters,
  digits and underscores and do not begin with a digit, its labels are distinct and its buckets
  strictly increasing; registering a valid collector under a new name succeeds and adds the name,
  registering one under a known name is an error.\<close>

definition name_ok :: "string \<Rightarrow> bool" where
  "name_ok s = (s \<noteq> [] \<and> hd s \<notin> set ''0123456789'' \<and>
     set s \<subseteq> set ''abcdefghijklmnopqrstuvwxyzABCDEFGHIJKLMNOPQRSTUVWXYZ0123456789_'')"

definition collector_ok :: "Collector \<Rightarrow> bool" where
  "collector_ok c = (name_ok (cl_Name c) \<and> (\<forall>l\<in>set (cl_labels c). name_ok l) \<and> distinct (cl_labels c) \<and>
     (case cl_kind c of Histogram buckets \<Rightarrow> sorted_wrt (<) buckets | _ \<Rightarrow> True))"

definition registry_contract :: "(Collector \<Rightarrow> 'r \<Rightarrow> goerror option \<times> 'r) \<Rightarrow> ('r \<Rightarrow> string set) \<Rightarrow> bool" where
  "registry_contract Register names \<longleftrightarrow>
     (\<forall>c reg. collector_ok c \<and> cl_Name c \<notin> names reg \<longrightarrow>
        (\<exists>reg'. Register c reg = (None, reg') \<and> names reg' = insert (cl_Name c) (names reg))) \<and>
     (\<forall>c reg. cl_Name c \<in> names reg \<longrightarrow> (\<exists>e reg'. Register c reg = (Some e, reg')))"

lemma registry_new:
  "registry_contract Register names \<Longrightarrow> collector_ok c \<Longrightarrow> cl_Name c \<notin> names reg \<Longrightarrow>
     \<exists>reg'. Register c reg = (None, reg') \<and> names reg' = insert (cl_Name c) (names reg)"
  unfolding registry_contract_def by blast

lemma registry_dup:
  "registry_contract Register names \<Longrightarrow> cl_Name c \<in> names reg \<Longrightarrow> \<exists>e reg'. Register c reg = (Some e, reg')"
  unfolding registry_contract_def by blast

text \<open>Registration succeeds exactly if the names are distinct and new.\<close>

lemma register_all_iff:
  assumes "registry_contract Register names" "\<forall>c\<in>set cs. collector_ok c"
  shows "(\<exists>reg'. register_all Register cs reg = Some reg') \<longleftrightarrow>
    distinct (map cl_Name cs) \<and> names reg \<inter> cl_Name ` set cs = {}"
  using assms(2)
proof (induction cs arbitrary: reg)
  case (Cons c cs)
  show ?case
  proof (cases "cl_Name c \<in> names reg")
    case True
    then show ?thesis using registry_dup [OF assms(1)] by fastforce
  next
    case False
    then obtain reg' where r: "Register c reg = (None, reg')" "names reg' = insert (cl_Name c) (names reg)"
      using registry_new [OF assms(1)] Cons.prems by force
    have "(\<exists>s. register_all Register cs reg' = Some s) \<longleftrightarrow> distinct (map cl_Name cs) \<and> names reg' \<inter> cl_Name ` set cs = {}"
      using Cons.IH Cons.prems by simp
    with r False show ?thesis by auto
  qed
qed simp

lemma register_all_names:
  assumes "registry_contract Register names" "\<forall>c\<in>set cs. collector_ok c" "register_all Register cs reg = Some reg'"
  shows "names reg' = names reg \<union> cl_Name ` set cs"
  using assms(2,3)
proof (induction cs arbitrary: reg)
  case (Cons c cs)
  then obtain reg1 where r: "Register c reg = (None, reg1)" "register_all Register cs reg1 = Some reg'"
    by (auto split: prod.splits option.splits)
  then have "cl_Name c \<notin> names reg" using registry_dup [OF assms(1), of c reg] by auto
  then have "names reg1 = insert (cl_Name c) (names reg)"
    using registry_new [OF assms(1), of c reg] Cons.prems(1) r(1) by simp
  with Cons.IH [OF _ r(2)] Cons.prems(1) show ?case by simp
qed simp

section \<open>The label values of the program\<close>

text \<open>The label values with which the code calls \<open>WithLabelValues\<close>, which panics unless there is one
  per label: the gateway's counters, the messages of the Kafka wrappers, the messages of the feature
  stream, and the deferred observation of the Binance operations.\<close>

definition order_latency_labels :: "string \<Rightarrow> string \<Rightarrow> goerror option \<Rightarrow> string list" where
  "order_latency_labels operation instrument finalErr =
     [operation, instrument, case finalErr of None \<Rightarrow> ''success'' | Some e \<Rightarrow> ''error'']"

definition gateway_labels :: "Metrics \<Rightarrow> (Collector \<times> string list) list" where
  "gateway_labels m =
     map (\<lambda>(instrument, reason). (RiskRejections, [instrument, reason])) (m_RiskRejections m) @
     map (\<lambda>(instrument, side, type). (OrdersSubmitted, [instrument, side, type])) (m_OrdersSubmitted m) @
     map (\<lambda>(instrument, side). (OrdersFilled, [instrument, side])) (m_OrdersFilled m)"

definition kafka_labels :: "(string \<times> string \<times> string) list \<Rightarrow> (Collector \<times> string list) list" where
  "kafka_labels processed = map (\<lambda>(topic, operation, status). (KafkaMessagesProcessed, [topic, operation, status])) processed"

section \<open>Properties\<close>

lemma init_collectors_ok:
  assumes "sorted_wrt (<) defBuckets"
  shows "\<forall>c\<in>set (init_collectors defBuckets). collector_ok c"
proof -
  have rest: "list_all collector_ok [OrdersSubmitted, OrdersFilled, RateLimitDelay, KafkaMessagesProcessed, WSConnectionDrops,
      RiskRejections, ActiveOrders, IntentToSubmitSeconds, FillToPublishSeconds, WSConnected, FeatureStreamConnected, FeatureStreamDrops]"
    by code_simp
  have "name_ok (cl_Name (OrderLatency defBuckets)) \<and> list_all name_ok (cl_labels (OrderLatency defBuckets)) \<and>
      distinct (cl_labels (OrderLatency defBuckets))"
    unfolding OrderLatency_def by simp code_simp
  moreover have "cl_kind (OrderLatency defBuckets) = Histogram defBuckets" by (simp add: OrderLatency_def)
  ultimately have "collector_ok (OrderLatency defBuckets)" using assms by (simp add: collector_ok_def list_all_iff)
  with rest show ?thesis by (simp add: init_collectors_def)
qed

lemma init_collectors_names: "distinct (map cl_Name (init_collectors defBuckets))"
proof -
  have "map cl_Name (init_collectors defBuckets) = map cl_Name (init_collectors [])"
    by (simp add: init_collectors_def OrderLatency_def)
  also have "distinct \<dots>" by code_simp
  finally show ?thesis .
qed

text \<open>C33. The metrics are well declared. With a library that behaves as documented and strictly increasing
  default buckets, the registration at start-up panics exactly if the registry already knows one of
  the thirteen names, and otherwise adds exactly these; and every call of \<open>WithLabelValues\<close> in the
  gateway, in the Kafka wrappers and in the Binance connector passes one value for each label.\<close>

theorem metrics_well_declared:
  assumes "registry_contract Register names" "sorted_wrt (<) defBuckets"
  shows "(telemetry_init Register defBuckets reg = None \<longleftrightarrow> names reg \<inter> cl_Name ` set (init_collectors defBuckets) \<noteq> {}) \<and>
    (\<forall>reg'. telemetry_init Register defBuckets reg = Some reg' \<longrightarrow> names reg' = names reg \<union> cl_Name ` set (init_collectors defBuckets)) \<and>
    (\<forall>(c, vs)\<in>set (gateway_labels m @ kafka_labels (cs_processed cs) @ kafka_labels (pd_processed pd) @
        [(OrderLatency defBuckets, order_latency_labels operation instrument finalErr)]).
       c \<in> set (init_collectors defBuckets) \<and> length vs = length (cl_labels c))"
proof -
  note ok = init_collectors_ok [OF assms(2)]
  have "telemetry_init Register defBuckets reg = None \<longleftrightarrow> names reg \<inter> cl_Name ` set (init_collectors defBuckets) \<noteq> {}"
    using register_all_iff [OF assms(1) ok, of reg] init_collectors_names [of defBuckets] unfolding telemetry_init_def by auto
  moreover have "names reg' = names reg \<union> cl_Name ` set (init_collectors defBuckets)"
    if "telemetry_init Register defBuckets reg = Some reg'" for reg'
    using register_all_names [OF assms(1) ok] that unfolding telemetry_init_def .
  moreover have "\<forall>(c, vs)\<in>set (gateway_labels m @ kafka_labels (cs_processed cs) @ kafka_labels (pd_processed pd) @
        [(OrderLatency defBuckets, order_latency_labels operation instrument finalErr)]).
       c \<in> set (init_collectors defBuckets) \<and> length vs = length (cl_labels c)"
    by (auto simp: gateway_labels_def kafka_labels_def order_latency_labels_def init_collectors_def RiskRejections_def
          OrdersSubmitted_def OrdersFilled_def KafkaMessagesProcessed_def OrderLatency_def)
  ultimately show ?thesis by (intro conjI allI impI)
qed

text \<open>A registry in memory.\<close>

definition mem_register :: "Collector \<Rightarrow> string list \<Rightarrow> goerror option \<times> string list" where
  "mem_register c names = (if cl_Name c \<in> set names then (Some ''duplicate'', names) else (None, cl_Name c # names))"

theorem metrics_well_declared_witness:
  "\<exists>names. telemetry_init mem_register [1, 2] [] = Some names \<and> set names = cl_Name ` set (init_collectors [1, 2])"
proof -
  have "registry_contract mem_register set" by (simp add: registry_contract_def mem_register_def)
  moreover have "sorted_wrt (<) [1, 2 :: rat]" by simp
  note declared = metrics_well_declared [OF calculation this, of "[]"]
  obtain names where names: "telemetry_init mem_register [1, 2] [] = Some names"
    using conjunct1 [OF declared] by auto
  then have "set names = set [] \<union> cl_Name ` set (init_collectors [1, 2])"
    using conjunct1 [OF conjunct2 [OF declared]] by blast
  with names show ?thesis by simp
qed

section \<open>What the counters count\<close>

text \<open>The intents and the fills that a run has finished.\<close>

fun finished :: "'k event list \<Rightarrow> outcome list" where
  "finished [] = []"
| "finished (IntentDone i msg out # tr) = out # finished tr"
| "finished (_ # tr) = finished tr"

fun fills_done :: "'k event list \<Rightarrow> ExecutionFill list" where
  "fills_done [] = []"
| "fills_done (FillDone f r # tr) = f # fills_done tr"
| "fills_done (_ # tr) = fills_done tr"

lemma count_finished:
  "sum_list (map (\<lambda>out. of_bool (P out)) xs) = int (length (filter P xs))"
  by (induction xs) simp_all

text \<open>A metric that every step of either worker moves by a known amount: \<open>at_intent\<close> and \<open>at_fill\<close> are
  the part that the handling under way has contributed at a point, \<open>intent_done\<close> and \<open>fill_done\<close> what it
  contributes as a whole.\<close>

locale metric =
  fixes pt :: "('s, 'x, 'p, 'k, 'm) ports"
    and metric_value :: "Metrics \<Rightarrow> int"
    and at_intent :: "ipoint \<Rightarrow> int"
    and intent_done :: "outcome \<Rightarrow> int"
    and at_fill :: "ExecutionFill \<Rightarrow> fpoint \<Rightarrow> int"
    and fill_done :: "ExecutionFill \<Rightarrow> int"
  assumes starts: "at_intent PHalt = 0" "at_fill f FMark = 0"
    and intent_step_value: "istep pt uni env i msg p gw = Some (r, gw') \<Longrightarrow> point_ok (\<lambda>_. True) p \<Longrightarrow>
      metric_value (gw_metrics gw') + at_intent p = metric_value (gw_metrics gw) +
        (case r of Inl out \<Rightarrow> intent_done out | Inr p' \<Rightarrow> at_intent p')"
    and fill_step_value: "fstep pt fenv f q gw = (s, gw') \<Longrightarrow>
      metric_value (gw_metrics gw') + at_fill f q = metric_value (gw_metrics gw) +
        (case s of Inl e \<Rightarrow> fill_done f | Inr q' \<Rightarrow> at_fill f q')"
begin

primrec event_value :: "'k event \<Rightarrow> int" where
  "event_value (Submitted i) = 0"
| "event_value (IntentDone i msg out) = intent_done out"
| "event_value (FillDone f r) = fill_done f"
| "event_value Halted = 0"
| "event_value Resumed = 0"

lemma sent_events_value [simp]: "sum_list (map event_value (sent_events p i)) = 0"
  by (simp add: sent_events_def)

lemma work_value:
  assumes "work pt uni Q st0 tr st" "st0 = idle gw0"
  shows "metric_value (gw_metrics (wk_gw st)) = metric_value (gw_metrics gw0) + sum_list (map event_value tr) +
      (case wk_intent st of None \<Rightarrow> 0 | Some (env, i, msg, p) \<Rightarrow> at_intent p) +
      (case wk_fill st of None \<Rightarrow> 0 | Some (fenv, f, q) \<Rightarrow> at_fill f q) \<and>
    (\<forall>env i msg p. wk_intent st = Some (env, i, msg, p) \<longrightarrow> point_ok (\<lambda>_. True) p)"
  using assms
proof induction
  case start
  then show ?case by (simp add: idle_def)
next
  case (fetch tr st env c i msg m')
  then show ?case by (simp add: starts point_ok_def)
next
  case (fetch_error tr st c e m')
  then show ?case by simp
next
  case (intent_step tr st env i msg p p' gw')
  then have ok: "point_ok (\<lambda>_. True) p" by blast
  from intent_step_value [OF intent_step.hyps(3) ok] istep_point_ok [OF intent_step.hyps(3) ok] intent_step
  show ?case by simp
next
  case (intent_end tr st env i msg p out gw')
  then have ok: "point_ok (\<lambda>_. True) p" by blast
  from intent_step_value [OF intent_end.hyps(3) ok] intent_end show ?case by simp
next
  case (take_fill tr st fenv f)
  then show ?case by (simp add: starts)
next
  case (fill_step tr st fenv f p p' gw')
  from fill_step_value [OF fill_step.hyps(3)] fill_step show ?case by simp
next
  case (fill_end tr st fenv f p r gw')
  from fill_step_value [OF fill_end.hyps(3)] fill_end show ?case by simp
qed simp_all

lemma idle_value:
  "work pt uni Q (idle gw0) tr (idle gw) \<Longrightarrow>
     metric_value (gw_metrics gw) = metric_value (gw_metrics gw0) +
       (\<Sum>out\<leftarrow>finished tr. intent_done out) + (\<Sum>f\<leftarrow>fills_done tr. fill_done f)"
proof -
  assume w: "work pt uni Q (idle gw0) tr (idle gw)"
  have "sum_list (map event_value tr) = (\<Sum>out\<leftarrow>finished tr. intent_done out) + (\<Sum>f\<leftarrow>fills_done tr. fill_done f)" for tr
  proof (induction tr)
    case (Cons e tr)
    then show ?case by (cases e) simp_all
  qed simp
  then show ?thesis using work_value [OF w refl] by (simp add: idle_def)
qed

end

text \<open>Metrics after a step.\<close>

lemma publish_turn_metrics [simp]: "gw_metrics (snd (publish_turn pt io f k b le gw)) = gw_metrics gw"
  by (simp add: publish_turn_def split: prod.split option.split)

lemma submit_intent_metrics [simp]: "gw_metrics (snd (submit_intent pt env i gw)) = gw_metrics gw"
  by (simp add: submit_intent_def case_prod_beta split: bool.splits option.splits)

lemma fill_step_metrics:
  "fstep pt fenv f q gw = (s, gw') \<Longrightarrow> gw_metrics gw' = (case q of
     FMark \<Rightarrow> gw_metrics (count_filled f gw)
   | FWrite \<Rightarrow> if fill_ends f then gw_metrics (add_active (- 1) gw) else gw_metrics gw
   | _ \<Rightarrow> gw_metrics gw) \<and>
   (case q of FMark \<Rightarrow> s = Inr FWrite | FWrite \<Rightarrow> s = Inr FSlip | FSlip \<Rightarrow> (\<exists>x. s = Inr (FCosts x))
    | _ \<Rightarrow> (\<exists>e. s = Inl e) \<or> (\<exists>k b le. s = Inr (FPublish k b le)))"
proof (cases q)
  case (FPublish k b le)
  assume a: "fstep pt fenv f q gw = (s, gw')"
  have "gw' = snd (publish_turn pt (fe_pub fenv) f k b le gw)"
    using a FPublish by (auto split: prod.splits sum.splits)
  then show ?thesis using a FPublish by (auto split: prod.splits sum.splits)
qed (auto simp: gateway_simps)

definition is_rejection :: "outcome \<Rightarrow> bool" where
  "is_rejection out = (case out of RejHalted \<Rightarrow> True | RejInvalid _ \<Rightarrow> True | RejDuplicate \<Rightarrow> True | RejRisk _ \<Rightarrow> True | _ \<Rightarrow> False)"

definition is_accepted :: "outcome \<Rightarrow> bool" where
  "is_accepted out = (case out of Accepted \<Rightarrow> True | FillPublished _ \<Rightarrow> True | PublishFailed _ _ \<Rightarrow> True | _ \<Rightarrow> False)"

definition is_filled :: "outcome \<Rightarrow> bool" where
  "is_filled out = (case out of FillPublished _ \<Rightarrow> True | PublishFailed _ _ \<Rightarrow> True | _ \<Rightarrow> False)"

lemmas outcome_kinds = is_rejection_def is_accepted_def is_filled_def

text \<open>What the handling under way has counted at a point.\<close>

fun at_rejections :: "ipoint \<Rightarrow> int" where
  "at_rejections (PRejectSave out) = 1"
| "at_rejections (PCommit out) = of_bool (is_rejection out)"
| "at_rejections _ = 0"

fun at_submitted :: "ipoint \<Rightarrow> int" where
  "at_submitted (PBook f) = 1"
| "at_submitted (PBookWrite f q) = 1"
| "at_submitted (PCosts f) = 1"
| "at_submitted (PPublish f k b le) = 1"
| "at_submitted (PCommit out) = of_bool (is_accepted out)"
| "at_submitted _ = 0"

fun at_filled :: "ipoint \<Rightarrow> int" where
  "at_filled (PBookWrite f q) = 1"
| "at_filled (PCosts f) = 1"
| "at_filled (PPublish f k b le) = 1"
| "at_filled (PCommit out) = of_bool (is_filled out)"
| "at_filled _ = 0"

fun at_active :: "ipoint \<Rightarrow> int" where
  "at_active PSubmit = 1"
| "at_active (PMark res) = 1"
| "at_active (PWrite res q) = 1"
| "at_active (PBook f) = 1"
| "at_active (PCommit out) = of_bool (out = Accepted)"
| "at_active _ = 0"

fun fill_filled :: "fpoint \<Rightarrow> int" where
  "fill_filled FMark = 0"
| "fill_filled _ = 1"

fun fill_active :: "ExecutionFill \<Rightarrow> fpoint \<Rightarrow> int" where
  "fill_active f FMark = 0"
| "fill_active f FWrite = 0"
| "fill_active f _ = - of_bool (fill_ends f)"

abbreviation rejections :: "Metrics \<Rightarrow> int" where "rejections m \<equiv> int (length (m_RiskRejections m))"
abbreviation submissions :: "Metrics \<Rightarrow> int" where "submissions m \<equiv> int (length (m_OrdersSubmitted m))"
abbreviation filled_count :: "Metrics \<Rightarrow> int" where "filled_count m \<equiv> int (length (m_OrdersFilled m))"

lemma intent_step_metrics:
  assumes "istep pt uni env i msg p gw = Some (r, gw')" "point_ok (\<lambda>_. True) p"
  shows "rejections (gw_metrics gw') + at_rejections p = rejections (gw_metrics gw) +
      (case r of Inl out \<Rightarrow> of_bool (is_rejection out) | Inr p' \<Rightarrow> at_rejections p') \<and>
    submissions (gw_metrics gw') + at_submitted p = submissions (gw_metrics gw) +
      (case r of Inl out \<Rightarrow> of_bool (is_accepted out) | Inr p' \<Rightarrow> at_submitted p') \<and>
    filled_count (gw_metrics gw') + at_filled p = filled_count (gw_metrics gw) +
      (case r of Inl out \<Rightarrow> of_bool (is_filled out) | Inr p' \<Rightarrow> at_filled p') \<and>
    m_ActiveOrders (gw_metrics gw') + at_active p = m_ActiveOrders (gw_metrics gw) +
      (case r of Inl out \<Rightarrow> of_bool (out = Accepted) | Inr p' \<Rightarrow> at_active p')"
proof (cases p)
  case (PPublish f k b le)
  have "gw_metrics gw' = gw_metrics gw" and
    "(\<exists>e. r = Inl (PublishFailed f e)) \<or> r = Inr (PCommit (FillPublished f)) \<or> (\<exists>b' le'. r = Inr (PPublish f (Suc k) b' le'))"
    using istep_PPublish [OF assms(1) [unfolded PPublish]] by auto
  with PPublish show ?thesis by (auto simp: outcome_kinds)
next
  case PWait
  then show ?thesis using assms(1) by (auto simp: outcome_kinds split: option.splits)
next
  case PHalt
  then show ?thesis using assms(1) by (auto split: option.splits)
next
  case PRisk
  then show ?thesis using assms(1) by (auto split: prod.splits bool.splits)
next
  case PSubmit
  then show ?thesis using assms(1) submit_intent_metrics [of pt env i gw] by (auto split: prod.splits simp del: submit_intent_metrics)
next
  case (PWrite res q)
  then show ?thesis using assms(1) by (auto simp: Let_def gateway_simps outcome_kinds split: sum.splits)
next
  case (PReject out)
  then show ?thesis using assms
    by (cases out) (auto simp: gateway_simps point_ok_def reject_records_def outcome_kinds is_settled_def)
next
  case (PRejectSave out)
  then show ?thesis using assms
    by (cases out) (auto simp: gateway_simps point_ok_def outcome_kinds is_settled_def)
next
  case (PCommit out)
  then show ?thesis using assms(1) by (auto simp: gateway_simps)
qed (use assms(1) in \<open>auto simp: gateway_simps case_prod_beta split: if_splits\<close>)

interpretation rejection_metric: metric pt rejections at_rejections "\<lambda>out. of_bool (is_rejection out)" "\<lambda>f q. 0" "\<lambda>f. 0"
  for pt
proof unfold_locales
  show "rejections (gw_metrics gw') + at_rejections p = rejections (gw_metrics gw) +
      (case r of Inl out \<Rightarrow> of_bool (is_rejection out) | Inr p' \<Rightarrow> at_rejections p')"
    if "istep pt uni env i msg p gw = Some (r, gw')" "point_ok (\<lambda>_. True) p" for uni env i msg p gw r gw'
    using intent_step_metrics [OF that] by blast
qed (auto dest!: fill_step_metrics split: fpoint.splits sum.splits if_splits simp: gateway_simps)

interpretation submission_metric: metric pt submissions at_submitted "\<lambda>out. of_bool (is_accepted out)" "\<lambda>f q. 0" "\<lambda>f. 0"
  for pt
proof unfold_locales
  show "submissions (gw_metrics gw') + at_submitted p = submissions (gw_metrics gw) +
      (case r of Inl out \<Rightarrow> of_bool (is_accepted out) | Inr p' \<Rightarrow> at_submitted p')"
    if "istep pt uni env i msg p gw = Some (r, gw')" "point_ok (\<lambda>_. True) p" for uni env i msg p gw r gw'
    using intent_step_metrics [OF that] by blast
qed (auto dest!: fill_step_metrics split: fpoint.splits sum.splits if_splits simp: gateway_simps)

interpretation filled_metric: metric pt filled_count at_filled "\<lambda>out. of_bool (is_filled out)" "\<lambda>f q. fill_filled q" "\<lambda>f. 1"
  for pt
proof unfold_locales
  show "filled_count (gw_metrics gw') + at_filled p = filled_count (gw_metrics gw) +
      (case r of Inl out \<Rightarrow> of_bool (is_filled out) | Inr p' \<Rightarrow> at_filled p')"
    if "istep pt uni env i msg p gw = Some (r, gw')" "point_ok (\<lambda>_. True) p" for uni env i msg p gw r gw'
    using intent_step_metrics [OF that] by blast
qed (auto dest!: fill_step_metrics split: fpoint.splits sum.splits if_splits simp: gateway_simps)

interpretation active_metric: metric pt m_ActiveOrders at_active "\<lambda>out. of_bool (out = Accepted)" fill_active
    "\<lambda>f. - of_bool (fill_ends f)"
  for pt
proof unfold_locales
  show "m_ActiveOrders (gw_metrics gw') + at_active p = m_ActiveOrders (gw_metrics gw) +
      (case r of Inl out \<Rightarrow> of_bool (out = Accepted) | Inr p' \<Rightarrow> at_active p')"
    if "istep pt uni env i msg p gw = Some (r, gw')" "point_ok (\<lambda>_. True) p" for uni env i msg p gw r gw'
    using intent_step_metrics [OF that] by blast
qed (auto dest!: fill_step_metrics split: fpoint.splits sum.splits if_splits simp: gateway_simps)


text \<open>C32. The metrics account for what happened. Over any run that starts and ends with both workers at
  rest, \<open>RiskRejections\<close> grows by the number of rejected intents, \<open>OrdersSubmitted\<close> by the number of
  accepted submissions, \<open>OrdersFilled\<close> by the immediate fills and the fills of the stream, and the gauge
  \<open>ActiveOrders\<close> by the accepted orders without an immediate fill minus the stream's fills in a state
  FILLED, CANCELED or REJECTED. So the gauge is the number of open orders only if the stream reports a
  final state exactly once for each order that was accepted without an immediate fill: a fill that was
  booked on submission and is reported again lowers it once more, and an expired order never leaves it.\<close>

theorem metrics_account:
  assumes "work pt uni Q (idle gw0) tr (idle gw)"
  shows "rejections (gw_metrics gw) = rejections (gw_metrics gw0) + int (length (filter is_rejection (finished tr))) \<and>
    submissions (gw_metrics gw) = submissions (gw_metrics gw0) + int (length (filter is_accepted (finished tr))) \<and>
    filled_count (gw_metrics gw) = filled_count (gw_metrics gw0) + int (length (filter is_filled (finished tr))) +
      int (length (fills_done tr)) \<and>
    m_ActiveOrders (gw_metrics gw) = m_ActiveOrders (gw_metrics gw0) +
      int (length (filter (\<lambda>out. out = Accepted) (finished tr))) - int (length (filter fill_ends (fills_done tr)))"
proof -
  have "(\<Sum>f\<leftarrow>fs. - of_bool (P f)) = - int (length (filter P fs))" for P :: "ExecutionFill \<Rightarrow> bool" and fs
    by (induction fs) simp_all
  moreover have "(\<Sum>f\<leftarrow>fs. (c :: int)) = c * int (length fs)" for c and fs :: "ExecutionFill list"
    by (induction fs) (simp_all add: algebra_simps)
  ultimately show ?thesis
    using rejection_metric.idle_value [OF assms] submission_metric.idle_value [OF assms]
      filled_metric.idle_value [OF assms] active_metric.idle_value [OF assms]
    by (simp add: count_finished)
qed

lemma finished_submitted:
  "set tr \<subseteq> {Submitted i} \<Longrightarrow> finished (tr @ tr') = finished tr' \<and> fills_done (tr @ tr') = fills_done tr'"
  by (induction tr) auto

text \<open>An order filled on submission whose fill the stream reports again.\<close>

theorem metrics_account_witness:
  "\<exists>tr gw. work demo_ports (\<lambda>s. s) (\<lambda>_. True) (idle demo_gateway) tr (idle gw) \<and>
     fills_done tr = [demo_fill\<lparr> f_OrderStatus := StateFilled \<rparr>] \<and>
     submissions (gw_metrics gw) = 1 \<and> filled_count (gw_metrics gw) = 2 \<and> m_ActiveOrders (gw_metrics gw) = - 1"
proof -
  let ?f = "demo_fill\<lparr> f_OrderStatus := StateFilled \<rparr>"
  obtain tr gw where w: "work demo_ports (\<lambda>s. s) (\<lambda>_. True) (idle demo_gateway)
        (tr @ [IntentDone demo_order 1 (FillPublished demo_fill)]) (idle gw)" "set tr \<subseteq> {Submitted demo_order}"
    using demo_work [of "\<lambda>_. True" "\<lambda>s. s"] by blast
  let ?r = "fst (handle_fill demo_ports demo_fenv ?f gw)" and ?gw = "snd (handle_fill demo_ports demo_fenv ?f gw)"
  let ?tr = "tr @ [IntentDone demo_order 1 (FillPublished demo_fill), FillDone ?f ?r]"
  have w2: "work demo_ports (\<lambda>s. s) (\<lambda>_. True) (idle demo_gateway) ?tr (idle ?gw)"
    using work_fill [OF w(1), of ?f demo_fenv] by (simp add: idle_def)
  have "finished ?tr = [FillPublished demo_fill]" "fills_done ?tr = [?f]" using finished_submitted [OF w(2)] by simp_all
  moreover have "fill_ends ?f" by (simp add: fill_ends_def fill_target_def)
  moreover have "gw_metrics demo_gateway = zero_metrics" by (simp add: demo_gateway_def NewGateway_def)
  ultimately show ?thesis using metrics_account [OF w2] w2
    by (intro exI [of _ ?tr] exI [of _ ?gw]) (simp add: outcome_kinds zero_metrics_def)
qed

end
