(* ===== verification/Supervise.thy ===== *)
theory Supervise
  imports GatewayRun
begin

text \<open>
  \<open>Start\<close> of \<open>internal/gateway/gateway.go\<close>: the supervision of the two workers. \<open>Start\<close> derives a
  context from its parent and an intake context from that, opens the user-data stream, runs the
  fills worker and the intents worker and returns when both have ended. A run is the sequence of
  the turns the scheduler gives to the workers, to the parent and to the operator; a turn of a
  worker is one iteration of its loop.
\<close>

section \<open>The state of a start\<close>

record ('s, 'x, 'p, 'm) start_state =
  ss_gw :: "('s, 'x, 'p, 'm) Gateway"
  ss_parent :: bool
  ss_cancelLoops :: bool
  ss_fillsUp :: bool
  ss_intentsUp :: bool
  ss_exitErr :: "goerror option"

text \<open>\<open>ctx.Done()\<close> and \<open>intakeCtx.Done()\<close>.\<close>

definition ctx_done :: "('s, 'x, 'p, 'm) start_state \<Rightarrow> bool" where
  "ctx_done st = (ss_parent st \<or> ss_cancelLoops st)"

definition intake_done :: "('s, 'x, 'p, 'm) start_state \<Rightarrow> bool" where
  "intake_done st = (ctx_done st \<or> gw_intake (ss_gw st) = Some True)"

text \<open>The beginning of \<open>Start\<close>. \<open>stream\<close> is \<open>StartUserStream\<close> of the connector; when it fails, the
  deferred calls cancel both contexts.\<close>

definition start_begin :: "('x \<Rightarrow> goerror option \<times> 'x) \<Rightarrow> bool \<Rightarrow> ('s, 'x, 'p, 'm) Gateway \<Rightarrow>
    (goerror \<times> ('s, 'x, 'p, 'm) Gateway) + ('s, 'x, 'p, 'm) start_state" where
  "start_begin stream parent gw =
     (case stream (gw_connector gw) of
        (Some e, x') \<Rightarrow> Inl (''failed to start exchange websocket user stream: '' @ e,
                             gw\<lparr> gw_connector := x', gw_intake := Some True \<rparr>)
      | (None, x') \<Rightarrow> Inr \<lparr> ss_gw = gw\<lparr> gw_connector := x', gw_intake := Some False \<rparr>, ss_parent = parent,
                              ss_cancelLoops = False, ss_fillsUp = True, ss_intentsUp = True, ss_exitErr = None \<rparr>)"

section \<open>Turns\<close>

text \<open>\<open>recordAbnormalExit\<close>: the first cause is kept, and the sibling is wound down.\<close>

definition recordAbnormalExit :: "goerror \<Rightarrow> ('s, 'x, 'p, 'm) start_state \<Rightarrow> ('s, 'x, 'p, 'm) start_state" where
  "recordAbnormalExit e st =
     st\<lparr> ss_exitErr := (case ss_exitErr st of None \<Rightarrow> Some e | Some e0 \<Rightarrow> Some e0), ss_cancelLoops := True \<rparr>"

text \<open>What the fills worker finds in its \<open>select\<close>.\<close>

datatype fills_choice = ChooseDone | ChooseClosed | ChooseFill ExecutionFill

definition fills_turn :: "('s, 'x, 'p, 'k, 'm) ports \<Rightarrow> fill_env \<Rightarrow> fills_choice \<Rightarrow>
    ('s, 'x, 'p, 'm) start_state \<Rightarrow> ('s, 'x, 'p, 'm) start_state option" where
  "fills_turn pt env ch st =
     (if \<not> ss_fillsUp st \<or> (ch = ChooseDone \<and> \<not> ctx_done st) then None
      else
        let ev = (case ch of ChooseDone \<Rightarrow> FillsCtxDone | ChooseClosed \<Rightarrow> FillsClosed (\<not> ctx_done st)
                  | ChooseFill f \<Rightarrow> FillReceived f)
        in case fills_iteration pt env ev (ss_gw st) of
             (FillsStop, gw') \<Rightarrow> Some (st\<lparr> ss_gw := gw', ss_fillsUp := False \<rparr>)
           | (FillsAbnormal e, gw') \<Rightarrow> Some (recordAbnormalExit e (st\<lparr> ss_gw := gw', ss_fillsUp := False \<rparr>))
           | (FillHandled r, gw') \<Rightarrow> Some (st\<lparr> ss_gw := gw' \<rparr>))"

text \<open>A turn of the intents worker; \<open>None\<close> also while its rate limiter has not returned.\<close>

definition intents_turn :: "('s, 'x, 'p, 'k, 'm) ports \<Rightarrow> (string \<Rightarrow> string) \<Rightarrow> (goerror \<Rightarrow> bool) \<Rightarrow> call \<Rightarrow> intent_env \<Rightarrow>
    ('s, 'x, 'p, 'm) start_state \<Rightarrow> ('s, 'x, 'p, 'm) start_state option" where
  "intents_turn pt uni is_canceled fetch env st =
     (if \<not> ss_intentsUp st then None
      else case intake_iteration pt uni is_canceled (intake_done st) fetch env (ss_gw st) of
        None \<Rightarrow> None
      | Some (WorkerExit, gw') \<Rightarrow> Some (st\<lparr> ss_gw := gw', ss_intentsUp := False \<rparr>)
      | Some (_, gw') \<Rightarrow> Some (st\<lparr> ss_gw := gw' \<rparr>))"

text \<open>The parent cancels, \<open>Drain\<close> closes the intake, the operator moves the kill switch.\<close>

datatype turn =
    FillsTurn fill_env fills_choice
  | IntentsTurn call intent_env
  | ParentCancel
  | CloseIntake
  | SwitchHalt string
  | SwitchResume

fun start_turn :: "('s, 'x, 'p, 'k, 'm) ports \<Rightarrow> (string \<Rightarrow> string) \<Rightarrow> (goerror \<Rightarrow> bool) \<Rightarrow> turn \<Rightarrow>
    ('s, 'x, 'p, 'm) start_state \<Rightarrow> ('s, 'x, 'p, 'm) start_state option" where
  "start_turn pt uni ic (FillsTurn env ch) st = fills_turn pt env ch st"
| "start_turn pt uni ic (IntentsTurn c env) st = intents_turn pt uni ic c env st"
| "start_turn pt uni ic ParentCancel st = Some (st\<lparr> ss_parent := True \<rparr>)"
| "start_turn pt uni ic CloseIntake st = Some (st\<lparr> ss_gw := (ss_gw st)\<lparr> gw_intake := Some True \<rparr> \<rparr>)"
| "start_turn pt uni ic (SwitchHalt r) st =
     Some (st\<lparr> ss_gw := (ss_gw st)\<lparr> gw_halt := Halt_Set r (gw_halt (ss_gw st)) \<rparr> \<rparr>)"
| "start_turn pt uni ic SwitchResume st =
     Some (st\<lparr> ss_gw := (ss_gw st)\<lparr> gw_halt := Halt_Clear (gw_halt (ss_gw st)) \<rparr> \<rparr>)"

fun start_run :: "('s, 'x, 'p, 'k, 'm) ports \<Rightarrow> (string \<Rightarrow> string) \<Rightarrow> (goerror \<Rightarrow> bool) \<Rightarrow> turn list \<Rightarrow>
    ('s, 'x, 'p, 'm) start_state \<Rightarrow> ('s, 'x, 'p, 'm) start_state option" where
  "start_run pt uni ic [] st = Some st"
| "start_run pt uni ic (t # ts) st = (case start_turn pt uni ic t st of None \<Rightarrow> None | Some st' \<Rightarrow> start_run pt uni ic ts st')"

text \<open>\<open>wg.Wait()\<close> and the result of \<open>Start\<close>: \<open>None\<close> while a worker runs.\<close>

definition Start_result :: "('s, 'x, 'p, 'm) start_state \<Rightarrow> goerror option option" where
  "Start_result st = (if ss_fillsUp st \<or> ss_intentsUp st then None else Some (ss_exitErr st))"

section \<open>Invariants of a run\<close>

abbreviation stream_closed :: goerror where
  "stream_closed \<equiv> ''fills worker exited: user-data stream closed unexpectedly''"

text \<open>An error is that of the user-data stream, and the loops are cancelled then; without an error
  the fills worker has ended only on the parent's request.\<close>

definition start_inv :: "('s, 'x, 'p, 'm) start_state \<Rightarrow> bool" where
  "start_inv st \<longleftrightarrow> (case ss_exitErr st of
     None \<Rightarrow> \<not> ss_cancelLoops st \<and> (\<not> ss_fillsUp st \<longrightarrow> ss_parent st)
   | Some e \<Rightarrow> e = stream_closed \<and> ss_cancelLoops st \<and> \<not> ss_fillsUp st)"

lemma start_begin_Inr:
  "start_begin stream parent gw = Inr st \<Longrightarrow> start_inv st \<and> ss_parent st = parent \<and> gw_intake (ss_gw st) = Some False"
  by (auto simp: start_begin_def start_inv_def split: prod.splits option.splits)

lemma fills_turn_cases:
  assumes "fills_turn pt env ch st = Some st'"
  obtains (stop) "ch = ChooseDone \<or> ch = ChooseClosed" "ctx_done st" "st' = st\<lparr> ss_fillsUp := False \<rparr>" "ss_fillsUp st"
  | (abnormal) "ch = ChooseClosed" "\<not> ctx_done st" "st' = recordAbnormalExit stream_closed (st\<lparr> ss_fillsUp := False \<rparr>)" "ss_fillsUp st"
  | (handled) f where "ch = ChooseFill f" "st' = st\<lparr> ss_gw := snd (handle_fill pt env f (ss_gw st)) \<rparr>" "ss_fillsUp st"
  using assms
  by (cases ch) (auto simp: fills_turn_def fills_iteration_def Let_def split: if_splits prod.splits)

lemma start_inv_turn:
  assumes "start_inv st" "start_turn pt uni ic t st = Some st'"
  shows "start_inv st'"
proof (cases t)
  case (FillsTurn env ch)
  then have "fills_turn pt env ch st = Some st'" using assms(2) by simp
  then show ?thesis using assms(1)
    by (cases rule: fills_turn_cases)
       (auto simp: start_inv_def recordAbnormalExit_def ctx_done_def split: option.splits)
next
  case (IntentsTurn c env)
  then have "intents_turn pt uni ic c env st = Some st'" using assms(2) by simp
  then show ?thesis using assms(1)
    by (auto simp: intents_turn_def start_inv_def split: if_splits option.splits iteration.splits)
qed (use assms in \<open>auto simp: start_inv_def split: option.splits\<close>)

lemma start_inv_run:
  "start_inv st \<Longrightarrow> start_run pt uni ic ts st = Some st' \<Longrightarrow> start_inv st'"
proof (induction ts arbitrary: st)
  case (Cons t ts)
  then show ?case by (auto dest: start_inv_turn split: option.splits)
qed simp

text \<open>Once the intake is closed it stays closed, and nothing goes to the exchange any more.\<close>

lemma handle_fill_intake [simp]: "gw_intake (snd (handle_fill pt env f gw)) = gw_intake gw"
  by (simp add: handle_fill_def Let_def publishFillWithRetry_def case_prod_beta gateway_simps)

lemma closed_turn:
  assumes "intake_done st" "start_turn pt uni ic t st = Some st'"
  shows "intake_done st' \<and> gw_connector (ss_gw st') = gw_connector (ss_gw st) \<and> gw_consumer (ss_gw st') = gw_consumer (ss_gw st)"
proof (cases t)
  case (FillsTurn env ch)
  then have "fills_turn pt env ch st = Some st'" using assms(2) by simp
  then show ?thesis using assms(1)
    by (cases rule: fills_turn_cases) (auto simp: intake_done_def ctx_done_def recordAbnormalExit_def)
next
  case (IntentsTurn c env)
  then have "intents_turn pt uni ic c env st = Some st'" using assms(2) by simp
  then show ?thesis using assms(1)
    by (auto simp: intents_turn_def intake_iteration_def intake_done_def ctx_done_def split: if_splits)
qed (use assms in \<open>auto simp: intake_done_def ctx_done_def\<close>)

lemma closed_run:
  "intake_done st \<Longrightarrow> start_run pt uni ic ts st = Some st' \<Longrightarrow>
     intake_done st' \<and> gw_connector (ss_gw st') = gw_connector (ss_gw st) \<and> gw_consumer (ss_gw st') = gw_consumer (ss_gw st)"
proof (induction ts arbitrary: st)
  case (Cons t ts)
  then obtain st1 where st1: "start_turn pt uni ic t st = Some st1" "start_run pt uni ic ts st1 = Some st'"
    by (auto split: option.splits)
  from closed_turn [OF Cons.prems(1) st1(1)] Cons.IH [OF _ st1(2)] show ?case by simp
qed simp

text \<open>Once the context is done, one turn for each worker that still runs ends them.\<close>

definition last_turns :: "fill_env \<Rightarrow> call \<Rightarrow> intent_env \<Rightarrow> ('s, 'x, 'p, 'm) start_state \<Rightarrow> turn list" where
  "last_turns fenv c env st =
     (if ss_fillsUp st then [FillsTurn fenv ChooseDone] else []) @ (if ss_intentsUp st then [IntentsTurn c env] else [])"

lemma wind_down:
  assumes "ctx_done st"
  shows "start_run pt uni ic (last_turns fenv c env st) st = Some (st\<lparr> ss_fillsUp := False, ss_intentsUp := False \<rparr>)"
  using assms
  by (auto simp: last_turns_def fills_turn_def fills_iteration_def intents_turn_def intake_iteration_def intake_done_def
        ctx_done_def)

text \<open>The error comes from a closed channel.\<close>

lemma exit_error_cause:
  "start_run pt uni ic ts st = Some st' \<Longrightarrow> ss_exitErr st = None \<Longrightarrow> ss_exitErr st' \<noteq> None \<Longrightarrow>
     \<exists>env. FillsTurn env ChooseClosed \<in> set ts"
proof (induction ts arbitrary: st)
  case (Cons t ts)
  then obtain st1 where st1: "start_turn pt uni ic t st = Some st1" "start_run pt uni ic ts st1 = Some st'"
    by (auto split: option.splits)
  show ?case
  proof (cases "ss_exitErr st1 = None")
    case True
    then show ?thesis using Cons.IH [OF st1(2)] Cons.prems(3) by auto
  next
    case False
    then obtain env ch where t: "t = FillsTurn env ch" and f: "fills_turn pt env ch st = Some st1"
      using st1(1) Cons.prems(2)
      by (cases t) (auto simp: intents_turn_def split: if_splits option.splits iteration.splits)
    from f have "ch = ChooseClosed" using False Cons.prems(2) by (cases rule: fills_turn_cases) auto
    with t show ?thesis by auto
  qed
qed simp

section \<open>Properties\<close>

text \<open>C22. \<open>Start\<close> supervises its workers. Whatever turns the scheduler gives: \<open>Start\<close> returns nil only if
  its parent context was cancelled, and a non-nil error only if the user-data stream closed the
  channel of fills. In particular a dead stream always ends \<open>Start\<close>: the context is done then, and
  whenever it is done, one more turn of each running worker makes \<open>Start\<close> return without touching
  the gateway. Once the intake is closed, by \<open>Drain\<close> or with the context, no further turn fetches,
  commits or submits an intent, while fills are still handled.\<close>

theorem start_supervised:
  assumes "start_begin stream False gw = Inr st0" "start_run pt uni ic ts st0 = Some st"
  shows "(Start_result st = Some None \<longrightarrow> ss_parent st) \<and>
    (Start_result st = Some (Some e) \<longrightarrow> e = stream_closed \<and> (\<exists>fenv. FillsTurn fenv ChooseClosed \<in> set ts)) \<and>
    (ss_exitErr st \<noteq> None \<longrightarrow> ctx_done st) \<and>
    (ctx_done st \<longrightarrow> (\<exists>st'. start_run pt uni ic (last_turns fenv c env st) st = Some st' \<and>
       Start_result st' = Some (ss_exitErr st) \<and> ss_gw st' = ss_gw st)) \<and>
    (intake_done st \<longrightarrow> (\<forall>ts' st'. start_run pt uni ic ts' st = Some st' \<longrightarrow>
      gw_connector (ss_gw st') = gw_connector (ss_gw st) \<and> gw_consumer (ss_gw st') = gw_consumer (ss_gw st)))"
proof -
  have inv: "start_inv st" using start_begin_Inr [OF assms(1)] start_inv_run [OF _ assms(2)] by blast
  have "ss_exitErr st0 = None" using assms(1) by (auto simp: start_begin_def split: prod.splits option.splits)
  from exit_error_cause [OF assms(2) this] inv
  have "(Start_result st = Some None \<longrightarrow> ss_parent st) \<and>
    (Start_result st = Some (Some e) \<longrightarrow> e = stream_closed \<and> (\<exists>fenv. FillsTurn fenv ChooseClosed \<in> set ts))"
    by (auto simp: Start_result_def start_inv_def split: if_splits)
  moreover have "(ss_exitErr st \<noteq> None \<longrightarrow> ctx_done st) \<and>
    (ctx_done st \<longrightarrow> (\<exists>st'. start_run pt uni ic (last_turns fenv c env st) st = Some st' \<and>
       Start_result st' = Some (ss_exitErr st) \<and> ss_gw st' = ss_gw st))"
    using inv wind_down [of st pt uni ic fenv c env] by (auto simp: start_inv_def ctx_done_def Start_result_def)
  ultimately show ?thesis using closed_run by blast
qed

text \<open>The user-data stream dies while the gateway runs.\<close>

theorem start_supervised_witness:
  "\<exists>st0 st st'. start_begin (\<lambda>x. (None, x)) False demo_gateway = Inr st0 \<and>
     start_run demo_ports id (\<lambda>_. True) [FillsTurn demo_fenv ChooseClosed] st0 = Some st \<and>
     start_run demo_ports id (\<lambda>_. True) (last_turns demo_fenv demo_call demo_ienv st) st = Some st' \<and>
     Start_result st' = Some (Some stream_closed)"
proof -
  obtain st0 where st0: "start_begin (\<lambda>x. (None, x)) False demo_gateway = Inr st0" "ss_fillsUp st0" "\<not> ctx_done st0" "ss_exitErr st0 = None"
    by (simp add: start_begin_def ctx_done_def)
  then obtain st where st: "start_run demo_ports id (\<lambda>_. True) [FillsTurn demo_fenv ChooseClosed] st0 = Some st"
      "ss_exitErr st = Some stream_closed"
    by (simp add: fills_turn_def fills_iteration_def recordAbnormalExit_def)
  with start_supervised [OF st0(1) st(1), where fenv = demo_fenv and c = demo_call and env = demo_ienv and e = stream_closed] st0(1) show ?thesis by auto
qed

end
