(* ===== verification/Shutdown.thy ===== *)
theory Shutdown
  imports Supervise Kafka
begin

text \<open>
  The end of \<open>main\<close> (\<open>cmd/sleipnir/main.go\<close>, steps 7 and 8): the goroutine that waits for a signal,
  drains the gateway, cancels the root context and shuts the HTTP server down, beside the main
  goroutine, which runs \<open>Start\<close> and then closes Kafka or exits with an error. A run interleaves the
  steps of that goroutine, the turns of \<open>Start\<close>'s workers, and the return of \<open>Start\<close>.
\<close>

section \<open>The state of the process\<close>

text \<open>\<open>pr_closed\<close> says whether Kafka has been closed. Where the signal goroutine is: \<open>SigDraining\<close> has the deadline of \<open>Drain\<close> and what its polls saw;
  the later phases keep them with the number of orders that \<open>Drain\<close> returned.\<close>

datatype 's sig_phase =
    SigWaiting
  | SigDraining time "('s OrderTracker \<times> time) list"
  | SigCancel time "('s OrderTracker \<times> time) list" nat
  | SigShutdown time "('s OrderTracker \<times> time) list" nat
  | SigEnded time "('s OrderTracker \<times> time) list" nat

datatype process_exit = ExitClean | ExitError goerror

record ('s, 'x, 'w, 'r) main_state =
  pr_start :: "('s, 'x, 'w Producer, 'r Consumer) start_state"
  pr_sig :: "'s sig_phase"
  pr_http :: bool
  pr_closed :: bool
  pr_exit :: "process_exit option"

definition process_begin :: "('s, 'x, 'w Producer, 'r Consumer) start_state \<Rightarrow> ('s, 'x, 'w, 'r) main_state" where
  "process_begin st = \<lparr> pr_start = st, pr_sig = SigWaiting, pr_http = True, pr_closed = False, pr_exit = None \<rparr>"

section \<open>The return of Start\<close>

text \<open>\<open>Start\<close> has returned \<open>r\<close>: nil and the cancellation of the context go on to the teardown, which
  closes the consumer, then the producer; any other error is \<open>os.Exit(1)\<close> on the spot. \<open>closeR\<close> and
  \<open>closeW\<close> close the reader and the writer of the Kafka client; their errors are only logged.\<close>

definition main_return :: "(goerror \<Rightarrow> bool) \<Rightarrow> ('r \<Rightarrow> goerror option \<times> 'r) \<Rightarrow> ('w \<Rightarrow> goerror option \<times> 'w) \<Rightarrow>
    goerror option \<Rightarrow> ('s, 'x, 'w, 'r) main_state \<Rightarrow> ('s, 'x, 'w, 'r) main_state" where
  "main_return is_canceled closeR closeW r pr =
     (let teardown = (\<lambda>gw. gw\<lparr> gw_consumer := snd (consumer_Close closeR (gw_consumer gw)), gw_producer := snd (producer_Close closeW (gw_producer gw)) \<rparr>);
          clean = pr\<lparr> pr_start := (pr_start pr)\<lparr> ss_gw := teardown (ss_gw (pr_start pr)) \<rparr>,
                       pr_closed := True, pr_exit := Some ExitClean \<rparr>
      in case r of
           None \<Rightarrow> clean
         | Some e \<Rightarrow> if is_canceled e then clean else pr\<lparr> pr_exit := Some (ExitError e) \<rparr>)"

section \<open>The steps\<close>

text \<open>\<open>Worker\<close> is a turn of \<open>Start\<close> (of a worker or of the operator); the parent's cancellation and the
  closing of the intake belong to the signal goroutine here. Times are the readings of the clock.\<close>

datatype main_step = Worker turn | Signal time | Poll time | Cancel | StopHttp | StartReturns

definition drain_begin :: "duration \<Rightarrow> time \<Rightarrow> ('s, 'x, 'w, 'r) main_state \<Rightarrow> ('s, 'x, 'w, 'r) main_state" where
  "drain_begin timeout now pr =
     (let gw = ss_gw (pr_start pr) in
      case gw_intake gw of
        None \<Rightarrow> pr\<lparr> pr_sig := SigCancel (now + timeout) [] 0 \<rparr>
      | Some _ \<Rightarrow> pr\<lparr> pr_start := (pr_start pr)\<lparr> ss_gw := gw\<lparr> gw_intake := Some True \<rparr> \<rparr>,
                     pr_sig := SigDraining (now + timeout) [] \<rparr>)"

fun process_step :: "('s, 'x, 'w Producer, 'k, 'r Consumer) ports \<Rightarrow> (string \<Rightarrow> string) \<Rightarrow> (goerror \<Rightarrow> bool) \<Rightarrow>
    ('r \<Rightarrow> goerror option \<times> 'r) \<Rightarrow> ('w \<Rightarrow> goerror option \<times> 'w) \<Rightarrow> duration \<Rightarrow> main_step \<Rightarrow>
    ('s, 'x, 'w, 'r) main_state \<Rightarrow> ('s, 'x, 'w, 'r) main_state option" where
  "process_step pt uni ic closeR closeW timeout (Worker t) pr =
     (if t = ParentCancel \<or> t = CloseIntake then None
      else map_option (\<lambda>st. pr\<lparr> pr_start := st \<rparr>) (start_turn pt uni ic t (pr_start pr)))"
| "process_step pt uni ic closeR closeW timeout (Signal now) pr =
     (case pr_sig pr of SigWaiting \<Rightarrow> Some (drain_begin timeout now pr) | _ \<Rightarrow> None)"
| "process_step pt uni ic closeR closeW timeout (Poll now) pr =
     (case pr_sig pr of
        SigDraining deadline rounds \<Rightarrow>
          (let rounds' = rounds @ [(gw_tracker (ss_gw (pr_start pr)), now)] in
           case drain_loop deadline rounds' of
             None \<Rightarrow> Some (pr\<lparr> pr_sig := SigDraining deadline rounds' \<rparr>)
           | Some n \<Rightarrow> Some (pr\<lparr> pr_sig := SigCancel deadline rounds' n \<rparr>))
      | _ \<Rightarrow> None)"
| "process_step pt uni ic closeR closeW timeout Cancel pr =
     (case pr_sig pr of
        SigCancel deadline rounds n \<Rightarrow>
          Some (pr\<lparr> pr_start := (pr_start pr)\<lparr> ss_parent := True \<rparr>, pr_sig := SigShutdown deadline rounds n \<rparr>)
      | _ \<Rightarrow> None)"
| "process_step pt uni ic closeR closeW timeout StopHttp pr =
     (case pr_sig pr of
        SigShutdown deadline rounds n \<Rightarrow> Some (pr\<lparr> pr_http := False, pr_sig := SigEnded deadline rounds n \<rparr>)
      | _ \<Rightarrow> None)"
| "process_step pt uni ic closeR closeW timeout StartReturns pr =
     map_option (\<lambda>r. main_return ic closeR closeW r pr) (Start_result (pr_start pr))"

text \<open>Nothing runs once the process has exited.\<close>

fun process_run :: "('s, 'x, 'w Producer, 'k, 'r Consumer) ports \<Rightarrow> (string \<Rightarrow> string) \<Rightarrow> (goerror \<Rightarrow> bool) \<Rightarrow>
    ('r \<Rightarrow> goerror option \<times> 'r) \<Rightarrow> ('w \<Rightarrow> goerror option \<times> 'w) \<Rightarrow> duration \<Rightarrow> main_step list \<Rightarrow>
    ('s, 'x, 'w, 'r) main_state \<Rightarrow> ('s, 'x, 'w, 'r) main_state option" where
  "process_run pt uni ic closeR closeW timeout [] pr = Some pr"
| "process_run pt uni ic closeR closeW timeout (s # ss) pr =
     (if pr_exit pr \<noteq> None then None
      else case process_step pt uni ic closeR closeW timeout s pr of
        None \<Rightarrow> None
      | Some pr' \<Rightarrow> process_run pt uni ic closeR closeW timeout ss pr')"

section \<open>Invariant\<close>

lemma drain_loop_snoc:
  "drain_loop dl rounds = None \<Longrightarrow> drain_loop dl (rounds @ [(t, now)]) =
     (if GetAllActiveOrders t = [] then Some 0 else if now < dl then None else Some (length (GetAllActiveOrders t)))"
  by (induction dl rounds rule: drain_loop.induct) (auto simp: Let_def split: if_splits)

text \<open>The root context is cancelled only after \<open>Drain\<close> has returned, and the intake is closed from the
  signal on.\<close>

definition sig_inv :: "('s, 'x, 'w, 'r) main_state \<Rightarrow> bool" where
  "sig_inv pr \<longleftrightarrow> (let st = pr_start pr; closed = (gw_intake (ss_gw st) = Some True) in
     gw_intake (ss_gw st) \<noteq> None \<and>
     (case pr_sig pr of
        SigWaiting \<Rightarrow> \<not> ss_parent st
      | SigDraining dl rounds \<Rightarrow> \<not> ss_parent st \<and> closed \<and> drain_loop dl rounds = None
      | SigCancel dl rounds n \<Rightarrow> \<not> ss_parent st \<and> closed \<and> drain_loop dl rounds = Some n
      | SigShutdown dl rounds n \<Rightarrow> ss_parent st \<and> closed \<and> drain_loop dl rounds = Some n
      | SigEnded dl rounds n \<Rightarrow> ss_parent st \<and> closed \<and> drain_loop dl rounds = Some n))"

definition exit_inv :: "(goerror \<Rightarrow> bool) \<Rightarrow> ('s, 'x, 'w, 'r) main_state \<Rightarrow> bool" where
  "exit_inv ic pr \<longleftrightarrow> (case pr_exit pr of
     None \<Rightarrow> \<not> pr_closed pr
   | Some ExitClean \<Rightarrow> pr_closed pr \<and> \<not> ss_fillsUp (pr_start pr) \<and> \<not> ss_intentsUp (pr_start pr) \<and>
       (\<forall>e. ss_exitErr (pr_start pr) = Some e \<longrightarrow> ic e)
   | Some (ExitError e) \<Rightarrow> \<not> pr_closed pr \<and> ss_exitErr (pr_start pr) = Some e)"

definition process_inv :: "(goerror \<Rightarrow> bool) \<Rightarrow> ('s, 'x, 'w, 'r) main_state \<Rightarrow> bool" where
  "process_inv ic pr \<longleftrightarrow> start_inv (pr_start pr) \<and> sig_inv pr \<and> exit_inv ic pr"

text \<open>A turn of a worker leaves the parent and the intake alone.\<close>

lemma intake_frame [simp]:
  "gw_intake (reject pt env i msg out gw) = gw_intake gw"
  "gw_intake (snd (publishFillWithRetry pt io f gw)) = gw_intake gw"
  "gw_intake (snd (submit_intent pt env i gw)) = gw_intake gw"
  "gw_intake (register pt env i gw) = gw_intake gw"
proof -
  show "gw_intake (reject pt env i msg out gw) = gw_intake gw" by (cases out) (simp_all add: gateway_simps)
  show "gw_intake (snd (publishFillWithRetry pt io f gw)) = gw_intake gw"
    by (simp add: publishFillWithRetry_def case_prod_beta)
  show "gw_intake (snd (submit_intent pt env i gw)) = gw_intake gw"
    by (simp add: submit_intent_def case_prod_beta split: bool.splits option.splits)
  show "gw_intake (register pt env i gw) = gw_intake gw" by (simp add: register_def gateway_simps)
qed

lemma settle_intake: "gw_intake (snd (settle pt env i msg res gw)) = gw_intake gw"
proof -
  have "gw_intake (book_immediate pt env i f g) = gw_intake g" for f g
    by (simp add: book_immediate_def gateway_simps)
  then show ?thesis
    by (simp add: settle_def Let_def case_prod_beta commit_msg_def add_active_def track_def count_submitted_def
        split: sum.split option.split)
qed

lemma handle_intent_intake:
  assumes "handle_intent pt uni env i msg gw = Some (out, gw')"
  shows "gw_intake gw' = gw_intake gw"
  using assms
proof (cases rule: handle_intent_cases)
  case (processed tb res gw1)
  then have "gw_intake gw1 = gw_intake gw"
    using intake_frame(3) [of pt env i "register pt env i (gw\<lparr> gw_ready := True, gw_limiter := tb \<rparr>)"] by simp
  with settle_intake [of pt env i msg res gw1] processed(4) show ?thesis by simp
qed simp_all

lemma worker_turn_frame:
  assumes "start_turn pt uni ic t st = Some st'" "t \<noteq> ParentCancel" "t \<noteq> CloseIntake"
  shows "ss_parent st' = ss_parent st \<and> gw_intake (ss_gw st') = gw_intake (ss_gw st)"
proof (cases t)
  case (FillsTurn env ch)
  then have "fills_turn pt env ch st = Some st'" using assms(1) by simp
  then show ?thesis by (cases rule: fills_turn_cases) (auto simp: recordAbnormalExit_def)
next
  case (IntentsTurn c env)
  then show ?thesis using assms(1) handle_intent_intake
    by (fastforce simp: intents_turn_def intake_iteration_def split: if_splits option.splits sum.splits prod.splits)
qed (use assms in auto)

lemma sig_inv_same:
  assumes "sig_inv pr" "ss_parent (pr_start pr') = ss_parent (pr_start pr)"
    and "gw_intake (ss_gw (pr_start pr')) = gw_intake (ss_gw (pr_start pr))" "pr_sig pr' = pr_sig pr"
  shows "sig_inv pr'"
  using assms by (cases "pr_sig pr") (auto simp: sig_inv_def Let_def)

lemma start_inv_gw [simp]: "start_inv (st\<lparr> ss_gw := gw \<rparr>) = start_inv st"
  by (simp add: start_inv_def split: option.split)

lemma process_inv_step:
  assumes "process_inv ic pr" "pr_exit pr = None" "process_step pt uni ic closeR closeW timeout s pr = Some pr'"
  shows "process_inv ic pr'"
proof -
  have inv: "start_inv (pr_start pr)" "sig_inv pr" "\<not> pr_closed pr"
    using assms(1,2) by (simp_all add: process_inv_def exit_inv_def)
  show ?thesis
  proof (cases s)
    case (Worker t)
    then obtain st where t: "start_turn pt uni ic t (pr_start pr) = Some st" "pr' = pr\<lparr> pr_start := st \<rparr>"
        "t \<noteq> ParentCancel" "t \<noteq> CloseIntake"
      using assms(3) by (auto split: if_splits)
    then show ?thesis using start_inv_turn [OF inv(1) t(1)] worker_turn_frame [OF t(1,3,4)] sig_inv_same [OF inv(2), of pr'] inv(3) assms(2)
      by (simp add: process_inv_def exit_inv_def)
  next
    case (Signal now)
    then show ?thesis using assms inv
      by (auto simp: process_inv_def exit_inv_def sig_inv_def drain_begin_def Let_def split: sig_phase.splits option.splits)
  next
    case (Poll now)
    then show ?thesis using assms inv
      by (auto simp: process_inv_def exit_inv_def sig_inv_def Let_def split: sig_phase.splits option.splits)
  next
    case Cancel
    then obtain dl rounds n where c: "pr_sig pr = SigCancel dl rounds n"
        "pr' = pr\<lparr> pr_start := (pr_start pr)\<lparr> ss_parent := True \<rparr>, pr_sig := SigShutdown dl rounds n \<rparr>"
      using assms(3) by (auto split: sig_phase.splits)
    moreover have "start_inv ((pr_start pr)\<lparr> ss_parent := True \<rparr>)" using inv(1) by (auto simp: start_inv_def split: option.splits)
    ultimately show ?thesis using inv assms(2) by (auto simp: process_inv_def exit_inv_def sig_inv_def Let_def)
  next
    case StopHttp
    then show ?thesis using assms inv
      by (auto simp: process_inv_def exit_inv_def sig_inv_def Let_def split: sig_phase.splits)
  next
    case StartReturns
    then obtain r where r: "Start_result (pr_start pr) = Some r" "pr' = main_return ic closeR closeW r pr" using assms(3) by auto
    from r(1) have up: "\<not> ss_fillsUp (pr_start pr)" "\<not> ss_intentsUp (pr_start pr)" "ss_exitErr (pr_start pr) = r"
      by (auto simp: Start_result_def split: if_splits)
    have "start_inv (pr_start pr')" "sig_inv pr'"
      using inv unfolding r(2) by (auto simp: main_return_def Let_def sig_inv_def split: option.splits sig_phase.splits)
    moreover have "exit_inv ic pr'"
      using inv up unfolding r(2) by (auto simp: main_return_def Let_def exit_inv_def split: option.splits)
    ultimately show ?thesis by (simp add: process_inv_def)
  qed
qed

lemma process_inv_run:
  "process_inv ic pr \<Longrightarrow> process_run pt uni ic closeR closeW timeout ss pr = Some pr' \<Longrightarrow> process_inv ic pr'"
proof (induction ss arbitrary: pr)
  case (Cons s ss)
  then show ?case using process_inv_step [of ic pr pt uni closeR closeW timeout s] by (auto split: if_splits option.splits)
qed simp

lemma process_begin_inv:
  "start_begin stream False gw = Inr st \<Longrightarrow> process_inv ic (process_begin st)"
  using start_begin_Inr [of stream False gw st] by (auto simp: process_inv_def sig_inv_def exit_inv_def process_begin_def)

text \<open>The error of \<open>Start\<close> comes from a closed channel.\<close>

lemma process_error_cause:
  assumes "process_run pt uni ic closeR closeW timeout ss pr = Some pr'" "ss_exitErr (pr_start pr) = None"
    "ss_exitErr (pr_start pr') \<noteq> None"
  shows "\<exists>fenv. Worker (FillsTurn fenv ChooseClosed) \<in> set ss"
  using assms
proof (induction ss arbitrary: pr)
  case (Cons s ss)
  then obtain pr1 where s: "process_step pt uni ic closeR closeW timeout s pr = Some pr1"
      "process_run pt uni ic closeR closeW timeout ss pr1 = Some pr'" by (auto split: if_splits option.splits)
  show ?case
  proof (cases "ss_exitErr (pr_start pr1) = None")
    case True
    then show ?thesis using Cons.IH [OF s(2)] Cons.prems(3) by auto
  next
    case False
    then obtain t where t: "s = Worker t" "start_turn pt uni ic t (pr_start pr) = Some (pr_start pr1)"
      using s(1) Cons.prems(2)
      by (cases s) (auto simp: drain_begin_def main_return_def Let_def split: if_splits option.splits sig_phase.splits)
    have "start_run pt uni ic [t] (pr_start pr) = Some (pr_start pr1)" using t(2) by simp
    from exit_error_cause [OF this Cons.prems(2) False] show ?thesis using t(1) by auto
  qed
qed simp

text \<open>No turn that begins after the signal submits anything.\<close>

lemma no_submission_after_signal:
  assumes "process_inv ic pr" "pr_sig pr \<noteq> SigWaiting" "process_run pt uni ic closeR closeW timeout ss pr = Some pr'"
  shows "gw_connector (ss_gw (pr_start pr')) = gw_connector (ss_gw (pr_start pr))"
  using assms
proof (induction ss arbitrary: pr)
  case (Cons s ss)
  then obtain pr1 where s: "pr_exit pr = None" "process_step pt uni ic closeR closeW timeout s pr = Some pr1"
      "process_run pt uni ic closeR closeW timeout ss pr1 = Some pr'" by (auto split: if_splits option.splits)
  have inv: "process_inv ic pr1" using process_inv_step [OF Cons.prems(1) s(1,2)] .
  have "intake_done (pr_start pr)" using Cons.prems(1,2)
    by (auto simp: process_inv_def sig_inv_def intake_done_def Let_def split: sig_phase.splits)
  then have "gw_connector (ss_gw (pr_start pr1)) = gw_connector (ss_gw (pr_start pr)) \<and> pr_sig pr1 \<noteq> SigWaiting"
  proof (cases s)
    case (Worker t)
    then obtain st where w: "start_turn pt uni ic t (pr_start pr) = Some st" "pr1 = pr\<lparr> pr_start := st \<rparr>"
      using s(2) by (auto split: if_splits)
    then show ?thesis using closed_turn [OF \<open>intake_done (pr_start pr)\<close> w(1)] Cons.prems(2) by simp
  qed (use s(2) Cons.prems(2) in \<open>auto simp: main_return_def Let_def split: if_splits option.splits sig_phase.splits\<close>)
  then show ?case using Cons.IH [OF inv _ s(3)] by simp
qed simp

text \<open>The deadline of the drain is the time of the signal plus the drain timeout.\<close>

fun sig_deadline :: "'s sig_phase \<Rightarrow> time option" where
  "sig_deadline SigWaiting = None"
| "sig_deadline (SigDraining dl rounds) = Some dl"
| "sig_deadline (SigCancel dl rounds n) = Some dl"
| "sig_deadline (SigShutdown dl rounds n) = Some dl"
| "sig_deadline (SigEnded dl rounds n) = Some dl"

lemma drain_deadline:
  "process_run pt uni ic closeR closeW timeout ss pr = Some pr' \<Longrightarrow> sig_deadline (pr_sig pr') = Some dl \<Longrightarrow>
     sig_deadline (pr_sig pr) = Some dl \<or> (\<exists>now. Signal now \<in> set ss \<and> dl = now + timeout)"
proof (induction ss arbitrary: pr)
  case (Cons s ss)
  then obtain pr1 where s: "process_step pt uni ic closeR closeW timeout s pr = Some pr1"
      "process_run pt uni ic closeR closeW timeout ss pr1 = Some pr'" by (auto split: if_splits option.splits)
  have "sig_deadline (pr_sig pr1) = Some dl \<Longrightarrow>
      sig_deadline (pr_sig pr) = Some dl \<or> (\<exists>now. s = Signal now \<and> dl = now + timeout)"
    using s(1)
    by (cases s) (auto simp: drain_begin_def main_return_def Let_def split: if_splits option.splits sig_phase.splits)
  with Cons.IH [OF s(2) Cons.prems(2)] show ?case by auto
qed simp

text \<open>The turns of workers within a run of the process.\<close>

lemma process_run_workers:
  assumes "ParentCancel \<notin> set ts" "CloseIntake \<notin> set ts"
  shows "pr_exit pr = None \<Longrightarrow> start_run pt uni ic ts (pr_start pr) = Some st \<Longrightarrow>
     process_run pt uni ic closeR closeW timeout (map Worker ts @ ss) pr =
     process_run pt uni ic closeR closeW timeout ss (pr\<lparr> pr_start := st \<rparr>)"
  using assms
proof (induction ts arbitrary: pr)
  case (Cons t ts)
  then obtain st1 where st1: "start_turn pt uni ic t (pr_start pr) = Some st1" "start_run pt uni ic ts st1 = Some st"
    by (auto split: option.splits)
  then show ?case using Cons.IH [of "pr\<lparr> pr_start := st1 \<rparr>"] Cons.prems by auto
next
  case Nil
  then have "pr\<lparr> pr_start := st \<rparr> = pr" by (cases pr) simp
  then show ?case by simp
qed

text \<open>The steps that end the process from the last poll of \<open>Drain\<close> on.\<close>

definition last_steps :: "time \<Rightarrow> fill_env \<Rightarrow> call \<Rightarrow> intent_env \<Rightarrow> ('s, 'x, 'w, 'r) main_state \<Rightarrow> main_step list" where
  "last_steps now fenv c env pr =
     [Poll now, Cancel] @ map Worker (last_turns fenv c env (pr_start pr)) @ [StartReturns]"

lemma last_steps_exit:
  assumes "process_inv ic pr" "pr_exit pr = None" "pr_sig pr = SigDraining dl rounds" "dl \<le> now"
  shows "\<exists>pr'. process_run pt uni ic closeR closeW timeout (last_steps now fenv c env pr) pr = Some pr' \<and> pr_exit pr' \<noteq> None"
proof -
  let ?rounds = "rounds @ [(gw_tracker (ss_gw (pr_start pr)), now)]"
  let ?st = "(pr_start pr)\<lparr> ss_parent := True \<rparr>"
  have "drain_loop dl rounds = None" using assms(1,3) by (simp add: process_inv_def sig_inv_def Let_def)
  from drain_loop_snoc [OF this, of "gw_tracker (ss_gw (pr_start pr))" now] assms(4)
  have "drain_loop dl ?rounds \<noteq> None" by simp
  then obtain n where n: "drain_loop dl ?rounds = Some n" by blast
  let ?pr = "pr\<lparr> pr_start := ?st, pr_sig := SigShutdown dl ?rounds n \<rparr>"
  have last: "last_turns fenv c env (pr_start pr) = last_turns fenv c env ?st" by (simp add: last_turns_def)
  have frame: "ParentCancel \<notin> set (last_turns fenv c env ?st)" "CloseIntake \<notin> set (last_turns fenv c env ?st)"
    by (simp_all add: last_turns_def)
  have run: "start_run pt uni ic (last_turns fenv c env ?st) (pr_start ?pr) = Some (?st\<lparr> ss_fillsUp := False, ss_intentsUp := False \<rparr>)"
    using wind_down [of ?st pt uni ic fenv c env] by (simp add: ctx_done_def)
  have "process_run pt uni ic closeR closeW timeout (last_steps now fenv c env pr) pr =
      process_run pt uni ic closeR closeW timeout (map Worker (last_turns fenv c env ?st) @ [StartReturns]) ?pr"
    using assms(2,3) n by (simp add: last_steps_def last)
  also have "\<dots> = process_run pt uni ic closeR closeW timeout [StartReturns]
      (?pr\<lparr> pr_start := ?st\<lparr> ss_fillsUp := False, ss_intentsUp := False \<rparr> \<rparr>)"
    by (rule process_run_workers [OF frame _ run]) (use assms(2) in simp)
  finally show ?thesis using assms(2) by (simp add: Start_result_def main_return_def Let_def split: option.split)
qed

section \<open>Properties\<close>

text \<open>C9. Shutdown is orderly. Whatever the interleaving of the signal, the drain, the workers and the
  main goroutine: a clean exit means that a drain of the gateway had returned, that its deadline was the
  drain timeout after the signal, that both workers had stopped before Kafka was closed, and that
  Kafka is closed; an exit with an error happens only because the user-data stream closed the channel of
  fills, and leaves Kafka open; no turn of a worker that begins after the signal submits anything to
  the exchange; and a drain cannot hang the process: once its deadline has passed, one more poll, the cancellation and one
  turn of each running worker end the process.\<close>

theorem graceful_shutdown:
  assumes "start_begin stream False gw = Inr st0" "\<not> ic stream_closed"
    and "process_run pt uni ic closeR closeW timeout ss (process_begin st0) = Some pr"
  shows "(pr_exit pr = Some ExitClean \<longrightarrow> pr_closed pr \<and> \<not> ss_fillsUp (pr_start pr) \<and> \<not> ss_intentsUp (pr_start pr) \<and>
      (\<exists>sent rounds n. Signal sent \<in> set ss \<and> drain_loop (sent + timeout) rounds = Some n \<and>
         pr_sig pr \<in> {SigShutdown (sent + timeout) rounds n, SigEnded (sent + timeout) rounds n})) \<and>
    (pr_exit pr = Some (ExitError e) \<longrightarrow> e = stream_closed \<and> \<not> pr_closed pr \<and>
      (\<exists>fenv. Worker (FillsTurn fenv ChooseClosed) \<in> set ss)) \<and>
    (pr_sig pr \<noteq> SigWaiting \<longrightarrow>
      (\<forall>ss' pr'. process_run pt uni ic closeR closeW timeout ss' pr = Some pr' \<longrightarrow>
         gw_connector (ss_gw (pr_start pr')) = gw_connector (ss_gw (pr_start pr)))) \<and>
    (\<forall>dl rounds now fenv c env. pr_exit pr = None \<and> pr_sig pr = SigDraining dl rounds \<and> dl \<le> now \<longrightarrow>
      (\<exists>pr'. process_run pt uni ic closeR closeW timeout (last_steps now fenv c env pr) pr = Some pr' \<and> pr_exit pr' \<noteq> None))"
proof -
  have inv: "process_inv ic pr" by (rule process_inv_run [OF process_begin_inv [OF assms(1)] assms(3)])
  then have parts: "start_inv (pr_start pr)" "sig_inv pr" "exit_inv ic pr" by (simp_all add: process_inv_def)
  have clean: "pr_closed pr \<and> \<not> ss_fillsUp (pr_start pr) \<and> \<not> ss_intentsUp (pr_start pr) \<and>
      (\<exists>sent rounds n. Signal sent \<in> set ss \<and> drain_loop (sent + timeout) rounds = Some n \<and>
         pr_sig pr \<in> {SigShutdown (sent + timeout) rounds n, SigEnded (sent + timeout) rounds n})"
    if "pr_exit pr = Some ExitClean"
  proof -
    have up: "pr_closed pr" "\<not> ss_fillsUp (pr_start pr)" "\<not> ss_intentsUp (pr_start pr)" "ss_parent (pr_start pr)"
      using parts(1,3) that assms(2) by (auto simp: exit_inv_def start_inv_def split: option.splits)
    then obtain dl rounds n where d: "pr_sig pr \<in> {SigShutdown dl rounds n, SigEnded dl rounds n}" "drain_loop dl rounds = Some n"
      using parts(2) by (auto simp: sig_inv_def Let_def split: sig_phase.splits)
    then have "sig_deadline (pr_sig pr) = Some dl" by auto
    from drain_deadline [OF assms(3) this] obtain sent where "Signal sent \<in> set ss" "dl = sent + timeout"
      by (auto simp: process_begin_def)
    with d up show ?thesis by blast
  qed
  have error: "e = stream_closed \<and> \<not> pr_closed pr \<and> (\<exists>fenv. Worker (FillsTurn fenv ChooseClosed) \<in> set ss)"
    if "pr_exit pr = Some (ExitError e)"
  proof -
    have x: "\<not> pr_closed pr" "ss_exitErr (pr_start pr) = Some e" using parts(3) that by (simp_all add: exit_inv_def)
    have "ss_exitErr (pr_start (process_begin st0)) = None"
      using assms(1) by (auto simp: start_begin_def process_begin_def split: prod.splits option.splits)
    from process_error_cause [OF assms(3) this] x parts(1) show ?thesis by (simp add: start_inv_def)
  qed
  show ?thesis using clean error no_submission_after_signal [OF inv] last_steps_exit [OF inv] by blast
qed

text \<open>A signal finds an idle gateway, assembled with a topic in memory.\<close>

definition sd_ports :: "(table, SimulatorConnector, kafka_message list Producer, kafka_message,
    (kafka_message list \<times> kafka_message list) Consumer) ports" where
  "sd_ports = \<lparr> pt_store = sqlite_store (\<lambda>_. 0), pt_connector = simulator,
     pt_producer = kafka_producer mem_env (\<lambda>_. []) mem_write, pt_consumer = kafka_consumer mem_env mem_reader \<rparr>"

definition sd_gateway :: "(table, SimulatorConnector, kafka_message list Producer,
    (kafka_message list \<times> kafka_message list) Consumer) Gateway" where
  "sd_gateway = NewGateway (NewConsumer (\<lambda>_. ([], [])) [''kafka:9092''] ''executions.intents.v1'' ''sleipnir'')
     (NewProducer (\<lambda>_. []) [''kafka:9092''] ''executions.fills.v1'') demo_sim (NewOrderTracker\<lparr> tr_store := Some [] \<rparr>)
     (NewTokenBucketLimiter 0 (Fin 4)) None None 100"

theorem graceful_shutdown_witness:
  "\<exists>st0 pr. start_begin (\<lambda>x. (None, x)) False sd_gateway = Inr st0 \<and>
     process_run sd_ports id (\<lambda>_. False) (Pair None) (Pair None) 8
       [Signal 100, Poll 100, Cancel, Worker (FillsTurn demo_fenv ChooseDone),
        Worker (IntentsTurn demo_call demo_ienv), StartReturns] (process_begin st0) = Some pr \<and>
     pr_exit pr = Some ExitClean \<and> pr_closed pr \<and> sig_deadline (pr_sig pr) = Some 108"
proof -
  obtain st0 where st0: "start_begin (\<lambda>x. (None, x)) False sd_gateway = Inr st0"
      "st0 = \<lparr> ss_gw = sd_gateway\<lparr> gw_intake := Some False \<rparr>, ss_parent = False, ss_cancelLoops = False,
                ss_fillsUp = True, ss_intentsUp = True, ss_exitErr = None \<rparr>"
    by (simp add: start_begin_def sd_gateway_def NewGateway_def)
  have idle: "GetAllActiveOrders (gw_tracker sd_gateway) = []"
    by (simp add: sd_gateway_def NewGateway_def GetAllActiveOrders_def NewOrderTracker_def)
  obtain pr where pr: "process_run sd_ports id (\<lambda>_. False) (Pair None) (Pair None) 8
       [Signal 100, Poll 100, Cancel, Worker (FillsTurn demo_fenv ChooseDone),
        Worker (IntentsTurn demo_call demo_ienv), StartReturns] (process_begin st0) = Some pr"
      "pr_exit pr = Some ExitClean"
    by (simp add: st0(2) process_begin_def drain_begin_def Let_def idle fills_turn_def fills_iteration_def ctx_done_def
        intents_turn_def intake_iteration_def intake_done_def Start_result_def main_return_def)
  from graceful_shutdown [OF st0(1) _ pr(1), where e = stream_closed] pr(2) have "pr_closed pr"
      "sig_deadline (pr_sig pr) = Some 108" by auto
  with st0(1) pr show ?thesis by blast
qed

end
