(* ===== verification/Backoff.thy ===== *)
theory Backoff
  imports Golib
begin

text \<open>
  The reconnect backoff that the exchange's user-data stream (\<open>internal/exchange/binance.go\<close>,
  \<open>StartUserStream\<close>) and the feature stream (\<open>internal/feed/sse.go\<close>, \<open>Run\<close>) share: a pause with ten
  per cent of jitter, a delay that doubles up to a maximum, and a reset after a connection that
  lived for more than 30 seconds. The arithmetic is the float64 arithmetic of the code.
\<close>

definition jitterPercent :: float64 where
  "jitterPercent = fround (1 / 10)"

text \<open>The pause for the random number \<open>r\<close> of \<open>[0, 1)\<close>.\<close>

definition jitter_pause :: "(float64 \<Rightarrow> int) \<Rightarrow> duration \<Rightarrow> float64 \<Rightarrow> duration \<Rightarrow> duration" where
  "jitter_pause oor maxDelay r retryDelay =
     (let jitterVal = float_sub (float_mul (float_mul r (Fin 2)) jitterPercent) jitterPercent;
          d = int64_of_float oor (float_mul (float_of_int retryDelay) (float_add (Fin 1) jitterVal))
      in if maxDelay < d then maxDelay else d)"

definition next_delay :: "(float64 \<Rightarrow> int) \<Rightarrow> duration \<Rightarrow> duration \<Rightarrow> duration" where
  "next_delay oor maxDelay retryDelay =
     (let d = int64_of_float oor (float_mul (float_of_int retryDelay) (Fin 2))
      in if maxDelay < d then maxDelay else d)"

definition stable_reset :: "duration \<Rightarrow> duration \<Rightarrow> duration \<Rightarrow> duration" where
  "stable_reset baseDelay alive retryDelay = (if 30 * Second < alive then baseDelay else retryDelay)"

text \<open>\<open>rand.Float64\<close> returns a number of \<open>[0, 1)\<close>.\<close>

definition unit_random :: "float64 \<Rightarrow> bool" where
  "unit_random r = (float_le (Fin 0) r \<and> float_lt r (Fin 1))"

section \<open>Exactness of the arithmetic\<close>

lemma jitterPercent_range: "\<exists>p. jitterPercent = Fin p \<and> 51 / 512 \<le> p \<and> p \<le> 13 / 128"
  using fround_between [of "51 / 512" "13 / 128" "1 / 10"] fround_dyadic [of 51 9] fround_dyadic [of 13 7]
  by (simp add: jitterPercent_def)

lemma int64_of_float_floor:
  assumes "0 \<le> x" "x < 2 ^ 63"
  shows "int64_of_float oor (Fin x) = \<lfloor>x\<rfloor>"
proof -
  have "\<lfloor>x\<rfloor> < 2 ^ 63" "0 \<le> \<lfloor>x\<rfloor>" using assms by (simp_all add: floor_less_iff)
  then show ?thesis using assms by (simp add: int64_of_float_def trunc_rat_def)
qed

lemma next_delay_eq:
  assumes "0 \<le> d" "d \<le> maxDelay" "maxDelay \<le> 2 ^ 49"
  shows "next_delay oor maxDelay d = min maxDelay (2 * d)"
proof -
  have "float_mul (float_of_int d) (Fin 2) = Fin (of_int (2 * d))"
    using assms fround_of_int [of "2 * d"] by (simp add: float_of_int_small mult.commute)
  moreover have "int64_of_float oor (Fin (of_int (2 * d))) = 2 * d"
    using assms int64_of_float_floor [of "of_int (2 * d)" oor] of_int_less_iff [of "2 * d" "2 ^ 63", where 'a = rat]
      floor_of_int [of "2 * d", where 'a = rat] by simp
  ultimately show ?thesis by (simp add: next_delay_def min_def Let_def)
qed

lemma jitter_range:
  assumes "0 \<le> r" "r < 1"
  shows "\<exists>j. float_add (Fin 1) (float_sub (float_mul (float_mul (Fin r) (Fin 2)) jitterPercent)
                jitterPercent) = Fin j \<and> 7 / 8 \<le> j \<and> j \<le> 9 / 8"
proof -
  obtain p where p: "jitterPercent = Fin p" "51 / 512 \<le> p" "p \<le> 13 / 128"
    using jitterPercent_range by blast
  obtain a where a: "fround (r * 2) = Fin a" "0 \<le> a" "a \<le> 2"
    using fround_between [of 0 2 "r * 2"] assms by (auto simp: float_simps)
  have ex: "fround (13 / 64) = Fin (13 / 64)" "fround (53 / 512) = Fin (53 / 512)"
      "fround (- (13 / 128)) = Fin (- (13 / 128))" "fround (7 / 8) = Fin (7 / 8)" "fround (9 / 8) = Fin (9 / 8)"
    using fround_dyadic [of 13 6] fround_dyadic [of 53 9] fround_dyadic [of "- 13" 7] fround_dyadic [of 7 3]
      fround_dyadic [of 9 3] by simp_all
  have "0 \<le> a * p" "a * p \<le> 2 * (13 / 128)" using a(2,3) p(2,3) by (simp, intro mult_mono) simp_all
  then obtain b where b: "fround (a * p) = Fin b" "0 \<le> b" "b \<le> 13 / 64"
    using fround_between [of 0 "13 / 64" "a * p"] ex(1) by auto
  have "- (13 / 128) \<le> b + - p" "b + - p \<le> 53 / 512" using b(2,3) p(2,3) by linarith+
  then obtain c where c: "fround (b + - p) = Fin c" "- (13 / 128) \<le> c" "c \<le> 53 / 512"
    using fround_between [of "- (13 / 128)" "53 / 512" "b + - p"] ex(2,3) by auto
  have "7 / 8 \<le> 1 + c" "1 + c \<le> 9 / 8" using c(2,3) by linarith+
  then obtain j where "fround (1 + c) = Fin j" "7 / 8 \<le> j" "j \<le> 9 / 8"
    using fround_between [of "7 / 8" "9 / 8" "1 + c"] ex(4,5) by auto
  then show ?thesis using a(1) b(1) c(1) unfolding p(1) by (simp add: float_sub_def)
qed

lemma jitter_pause_bounds:
  assumes "unit_random r" "0 \<le> d" "d \<le> maxDelay" "maxDelay \<le> 2 ^ 49"
  shows "7 * d div 8 \<le> jitter_pause oor maxDelay r d" and "jitter_pause oor maxDelay r d \<le> min maxDelay (9 * d div 8)"
proof -
  obtain q where r: "r = Fin q" "0 \<le> q" "q < 1" using assms(1) by (cases r) (auto simp: unit_random_def)
  then obtain j where j: "float_add (Fin 1) (float_sub (float_mul (float_mul r (Fin 2)) jitterPercent)
        jitterPercent) = Fin j" "7 / 8 \<le> j" "j \<le> 9 / 8" using jitter_range by blast
  have "fround (of_int (7 * d) / 8) = Fin (of_int (7 * d) / 8)" "fround (of_int (9 * d) / 8) = Fin (of_int (9 * d) / 8)"
    using fround_dyadic [of "7 * d" 3] fround_dyadic [of "9 * d" 3] assms(2,3,4) by simp_all
  moreover have "of_int (7 * d) / 8 \<le> of_int d * j" "of_int d * j \<le> of_int (9 * d) / 8"
    using mult_left_mono [OF j(2), of "of_int d"] mult_left_mono [OF j(3), of "of_int d"] assms(2) by simp_all
  ultimately obtain x where x: "fround (of_int d * j) = Fin x" "of_int (7 * d) / 8 \<le> x" "x \<le> of_int (9 * d) / 8"
    using fround_between by blast
  have up: "\<lfloor>x\<rfloor> \<le> 9 * d div 8" "7 * d div 8 \<le> \<lfloor>x\<rfloor>"
    using floor_mono [OF x(3)] floor_mono [OF x(2)] floor_divide_of_int_eq [of "9 * d" 8, where 'a = rat]
      floor_divide_of_int_eq [of "7 * d" 8, where 'a = rat] by simp_all
  have "of_int (7 * d) / 8 \<ge> (0::rat)" "of_int (9 * d) / 8 < (2 ^ 63 :: rat)"
    using assms(2,3,4) of_int_less_iff [of "9 * d" "8 * 2 ^ 63", where 'a = rat] by simp_all
  then have "int64_of_float oor (Fin x) = \<lfloor>x\<rfloor>" using x(2,3) by (intro int64_of_float_floor) linarith+
  then have "jitter_pause oor maxDelay r d = min maxDelay \<lfloor>x\<rfloor>"
    using x(1) j(1) assms(2,3,4) by (simp add: jitter_pause_def float_of_int_small min_def Let_def)
  then show "7 * d div 8 \<le> jitter_pause oor maxDelay r d" and "jitter_pause oor maxDelay r d \<le> min maxDelay (9 * d div 8)"
    using up assms(2,3) by simp_all
qed

section \<open>The discipline of a reconnect loop\<close>

text \<open>What a loop relies on when it keeps its delay between a base and a maximum.\<close>

locale backoff =
  fixes baseDelay maxDelay :: duration
  assumes base_pos: "0 < baseDelay"
    and base_le_max: "baseDelay \<le> maxDelay"
    and max_small: "maxDelay \<le> 2 ^ 49"
begin

lemma next_in_range:
  "baseDelay \<le> d \<Longrightarrow> d \<le> maxDelay \<Longrightarrow>
     baseDelay \<le> next_delay oor maxDelay d \<and> next_delay oor maxDelay d \<le> maxDelay"
  using next_delay_eq [of d maxDelay oor] base_pos max_small by simp

lemma pause_in_range:
  assumes "unit_random r" "baseDelay \<le> d" "d \<le> maxDelay"
  shows "7 * baseDelay div 8 \<le> jitter_pause oor maxDelay r d \<and> jitter_pause oor maxDelay r d \<le> maxDelay"
proof -
  have "7 * baseDelay div 8 \<le> 7 * d div 8" using assms(2) by (intro zdiv_mono1) simp_all
  then show ?thesis
    using jitter_pause_bounds [OF assms(1) _ assms(3) max_small, of oor] assms(2) base_pos by simp
qed

lemma reset_in_range:
  "baseDelay \<le> d \<Longrightarrow> d \<le> maxDelay \<Longrightarrow>
     baseDelay \<le> stable_reset baseDelay alive d \<and> stable_reset baseDelay alive d \<le> maxDelay"
  using base_le_max by (simp add: stable_reset_def)

lemma doublings: "(next_delay oor maxDelay ^^ k) baseDelay = min maxDelay (baseDelay * 2 ^ k)"
proof (induction k)
  case (Suc k)
  have "0 \<le> min maxDelay (baseDelay * 2 ^ k)" using base_pos base_le_max by simp
  then have "(next_delay oor maxDelay ^^ Suc k) baseDelay = min maxDelay (2 * min maxDelay (baseDelay * 2 ^ k))"
    using next_delay_eq [of "min maxDelay (baseDelay * 2 ^ k)" maxDelay oor] max_small Suc.IH by simp
  also have "\<dots> = min maxDelay (baseDelay * 2 ^ Suc k)" using base_pos base_le_max by (auto simp: min_def)
  finally show ?case .
qed (use base_le_max in simp)

end

end
