(* ===== verification/Feed.thy ===== *)
theory Feed
  imports Backoff
begin

text \<open>
  \<open>internal/feed/sse.go\<close>: the client of the feature stream. The line scanner of package \<open>bufio\<close>,
  the incremental decoder of Server-Sent Events, one connect-and-read cycle, the reconnect loop
  and the store of the latest value per feature. The HTTP client and the decoding of a JSON
  text into a \<open>FeatureEvent\<close> are parameters.
\<close>

section \<open>Data\<close>

abbreviation streamPath :: string where "streamPath \<equiv> ''/api/v1/features/stream''"
abbreviation featureEventName :: string where "featureEventName \<equiv> ''feature''"

record FeatureEvent =
  fe_EventID :: string
  fe_EventTime :: time
  fe_FeatureName :: string
  fe_FeatureVersion :: string
  fe_Value :: "float64 option"
  fe_Values :: "(string \<times> float64) list option"
  fe_WindowStart :: time
  fe_WindowEnd :: time

record FeedConfig =
  fd_BaseURL :: string
  fd_Feature :: string
  fd_BaseDelay :: duration
  fd_MaxDelay :: duration

record StreamClient =
  sc_url :: string
  sc_baseDelay :: duration
  sc_maxDelay :: duration

definition NewStreamClient :: "FeedConfig \<Rightarrow> StreamClient" where
  "NewStreamClient cfg =
     \<lparr> sc_url = TrimRight (CHR ''/'') (fd_BaseURL cfg) @ streamPath @
         (if fd_Feature cfg \<noteq> '''' then ''?feature='' @ fd_Feature cfg else ''''),
       sc_baseDelay = (if fd_BaseDelay cfg \<le> 0 then 500 * Millisecond else fd_BaseDelay cfg),
       sc_maxDelay = (if fd_MaxDelay cfg \<le> 0 then 60 * Second else fd_MaxDelay cfg) \<rparr>"

section \<open>The line scanner\<close>

text \<open>\<open>bufio.Scanner\<close> with \<open>ScanLines\<close> on the bytes of the body: lines without their end-of-line
  (a final carriage return is dropped), a last line without newline if it is not empty. A line
  of at least \<open>maxTok\<close> bytes fills the buffer, and the scan ends there (\<open>True\<close>).\<close>

definition maxTokenSize :: nat where
  "maxTokenSize = 1024 * 1024"

definition dropCR :: "string \<Rightarrow> string" where
  "dropCR l = (if l \<noteq> [] \<and> last l = CHR 0x0D then butlast l else l)"

function scan_lines :: "nat \<Rightarrow> string \<Rightarrow> string list \<times> bool" where
  "scan_lines maxTok s =
     (if s = [] then ([], False)
      else case split_at (CHR 0x0A) s of
        (l, None) \<Rightarrow> if maxTok \<le> length l then ([], True) else ([dropCR l], False)
      | (l, Some rest) \<Rightarrow>
          if maxTok \<le> length l then ([], True)
          else (case scan_lines maxTok rest of (ls, e) \<Rightarrow> (dropCR l # ls, e)))"
  by pat_completeness auto

lemma split_at_shorter: "split_at c s = (l, Some rest) \<Longrightarrow> length rest < length s"
  by (auto simp: split_at_def Let_def split: if_splits)

termination scan_lines
  by (relation "measure (\<lambda>(_, s). length s)") (auto intro: split_at_shorter [OF sym])

declare scan_lines.simps [simp del]

section \<open>The event decoder\<close>

record sseFrame =
  fr_event :: string
  fr_data :: string

record sseDecoder =
  sd_event :: string
  sd_data :: "string list"

definition new_decoder :: sseDecoder where
  "new_decoder = \<lparr> sd_event = '''', sd_data = [] \<rparr>"

definition push :: "string \<Rightarrow> sseDecoder \<Rightarrow> sseFrame option \<times> sseDecoder" where
  "push line d =
     (if line = '''' then
        (if sd_data d = [] then (None, d\<lparr> sd_event := '''' \<rparr>)
         else (Some \<lparr> fr_event = (if sd_event d = '''' then ''message'' else sd_event d),
                      fr_data = Join [CHR 0x0A] (sd_data d) \<rparr>,
               d\<lparr> sd_event := '''', sd_data := [] \<rparr>))
      else if HasPrefix line '':'' then (None, d)
      else (case split_at (CHR '':'') line of (field, after) \<Rightarrow>
        let val = TrimPrefix (case after of None \<Rightarrow> '''' | Some v \<Rightarrow> v) '' '' in
        if field = ''event'' then (None, d\<lparr> sd_event := val \<rparr>)
        else if field = ''data'' then (None, d\<lparr> sd_data := sd_data d @ [val] \<rparr>)
        else (None, d)))"

section \<open>One connection\<close>

text \<open>The frames that a scanner's lines complete.\<close>

fun push_all :: "string list \<Rightarrow> sseDecoder \<Rightarrow> sseFrame list" where
  "push_all [] d = []"
| "push_all (l # ls) d = (case push l d of
     (None, d') \<Rightarrow> push_all ls d'
   | (Some f, d') \<Rightarrow> f # push_all ls d')"

text \<open>What the network gives to one cycle: an error of the request, an error of the exchange, or
  a response with its status, the bytes of its body and the error that ended them (\<open>None\<close>: end of
  file). \<open>unmarshal\<close> decodes the data of a frame.\<close>

datatype sse_answer = BadRequest goerror | NoAnswer goerror | Answer int string "goerror option"

definition feature_of_frame :: "(string \<Rightarrow> goerror + FeatureEvent) \<Rightarrow> sseFrame \<Rightarrow> FeatureEvent option" where
  "feature_of_frame unmarshal f =
     (if fr_event f \<noteq> featureEventName then None
      else (case unmarshal (fr_data f) of Inl _ \<Rightarrow> None | Inr ev \<Rightarrow> Some ev))"

definition streamOnce :: "(string \<Rightarrow> goerror + FeatureEvent) \<Rightarrow> (string \<Rightarrow> string) \<Rightarrow> (FeatureEvent \<Rightarrow> 'h \<Rightarrow> 'h) \<Rightarrow>
    sse_answer \<Rightarrow> 'h \<Rightarrow> goerror option \<times> 'h" where
  "streamOnce unmarshal uni handler ans h = (case ans of
     BadRequest e \<Rightarrow> (Some e, h)
   | NoAnswer e \<Rightarrow> (Some e, h)
   | Answer status body readErr \<Rightarrow>
       if 300 \<le> status
       then (Some (''unexpected status '' @ itoa status @ '': '' @ TrimSpace uni (take 512 body)), h)
       else (case scan_lines maxTokenSize body of (lines, tooLong) \<Rightarrow>
         (if tooLong then Some ''bufio.Scanner: token too long'' else readErr,
          fold handler (List.map_filter (feature_of_frame unmarshal) (push_all lines new_decoder)) h)))"

section \<open>The reconnect loop\<close>

text \<open>One pass of the loop of \<open>Run\<close>: \<open>ctx.Done()\<close> at its head, the cycle, \<open>ctx.Err()\<close> after it, the
  time the connection lived, the random number, and \<open>ctx.Done()\<close> during the pause.\<close>

record feed_pass =
  fp_doneHead :: bool
  fp_answer :: sse_answer
  fp_doneAfter :: bool
  fp_alive :: duration
  fp_random :: float64
  fp_donePause :: bool

record 'h feed_state =
  fs_retryDelay :: duration
  fs_pauses :: "duration list"
  fs_drops :: nat
  fs_stopped :: bool
  fs_handled :: 'h

definition feed_start :: "StreamClient \<Rightarrow> 'h \<Rightarrow> 'h feed_state" where
  "feed_start c h = \<lparr> fs_retryDelay = sc_baseDelay c, fs_pauses = [], fs_drops = 0, fs_stopped = False, fs_handled = h \<rparr>"

definition Run_pass :: "(string \<Rightarrow> goerror + FeatureEvent) \<Rightarrow> (string \<Rightarrow> string) \<Rightarrow> (float64 \<Rightarrow> int) \<Rightarrow>
    (FeatureEvent \<Rightarrow> 'h \<Rightarrow> 'h) \<Rightarrow> StreamClient \<Rightarrow> feed_pass \<Rightarrow> 'h feed_state \<Rightarrow> 'h feed_state" where
  "Run_pass unmarshal uni oor handler c p st =
     (if fp_doneHead p then st\<lparr> fs_stopped := True \<rparr>
      else let st1 = st\<lparr> fs_handled := snd (streamOnce unmarshal uni handler (fp_answer p) (fs_handled st)) \<rparr> in
        if fp_doneAfter p then st1\<lparr> fs_stopped := True \<rparr>
        else let d = stable_reset (sc_baseDelay c) (fp_alive p) (fs_retryDelay st);
                 st2 = st1\<lparr> fs_drops := Suc (fs_drops st1), fs_retryDelay := d,
                            fs_pauses := fs_pauses st1 @ [jitter_pause oor (sc_maxDelay c) (fp_random p) d] \<rparr>
             in if fp_donePause p then st2\<lparr> fs_stopped := True \<rparr>
                else st2\<lparr> fs_retryDelay := next_delay oor (sc_maxDelay c) d \<rparr>)"

fun Run :: "(string \<Rightarrow> goerror + FeatureEvent) \<Rightarrow> (string \<Rightarrow> string) \<Rightarrow> (float64 \<Rightarrow> int) \<Rightarrow>
    (FeatureEvent \<Rightarrow> 'h \<Rightarrow> 'h) \<Rightarrow> StreamClient \<Rightarrow> feed_pass list \<Rightarrow> 'h feed_state \<Rightarrow> 'h feed_state" where
  "Run unmarshal uni oor handler c [] st = st"
| "Run unmarshal uni oor handler c (p # ps) st =
     (if fs_stopped st then st
      else Run unmarshal uni oor handler c ps (Run_pass unmarshal uni oor handler c p st))"

section \<open>The latest value per feature\<close>

type_synonym LatestStore = "string \<rightharpoonup> FeatureEvent"

definition NewLatestStore :: LatestStore where
  "NewLatestStore = (\<lambda>_. None)"

definition Record :: "FeatureEvent \<Rightarrow> LatestStore \<Rightarrow> LatestStore" where
  "Record ev s = s(fe_FeatureName ev \<mapsto> ev)"

definition Snapshot :: "LatestStore \<Rightarrow> LatestStore" where
  "Snapshot s = s"

section \<open>The decoder against the event-stream format\<close>

text \<open>The format, stated on the whole stream: a blank line ends a block, a line that starts with a
  colon is a comment, other lines are fields, and a block with at least one data field is a frame
  whose data are the data lines and whose type is the last event field, or \<open>message\<close>.\<close>

fun blocks_from :: "string list \<Rightarrow> string list \<Rightarrow> string list list" where
  "blocks_from acc [] = []"
| "blocks_from acc (l # ls) = (if l = '''' then acc # blocks_from [] ls else blocks_from (acc @ [l]) ls)"

definition complete_blocks :: "string list \<Rightarrow> string list list" where
  "complete_blocks ls = blocks_from [] ls"

definition field_of :: "string \<Rightarrow> (string \<times> string) option" where
  "field_of line = (if HasPrefix line '':'' then None
     else case split_at (CHR '':'') line of
       (f, None) \<Rightarrow> Some (f, '''') | (f, Some v) \<Rightarrow> Some (f, TrimPrefix v '' ''))"

definition field_values :: "string \<Rightarrow> string list \<Rightarrow> string list" where
  "field_values name b = map snd (filter (\<lambda>fv. fst fv = name) (List.map_filter field_of b))"

definition block_event :: "string list \<Rightarrow> string" where
  "block_event b = last ('''' # field_values ''event'' b)"

definition frame_of_block :: "string list \<Rightarrow> sseFrame option" where
  "frame_of_block b = (case field_values ''data'' b of
     [] \<Rightarrow> None
   | ds \<Rightarrow> Some \<lparr> fr_event = (if block_event b = '''' then ''message'' else block_event b),
                  fr_data = Join [CHR 0x0A] ds \<rparr>)"

definition decoder_after :: "string list \<Rightarrow> sseDecoder" where
  "decoder_after b = \<lparr> sd_event = block_event b, sd_data = field_values ''data'' b \<rparr>"

lemma field_values_snoc:
  "field_values name (b @ [l]) =
     field_values name b @ (case field_of l of Some (f, v) \<Rightarrow> if f = name then [v] else [] | None \<Rightarrow> [])"
  by (auto simp: field_values_def map_filter_def split: option.splits)

lemma push_blank: "push '''' (decoder_after b) = (frame_of_block b, decoder_after [])"
  by (auto simp: push_def decoder_after_def frame_of_block_def block_event_def field_values_def
           List.map_filter_simps split: list.splits)

lemma push_field:
  assumes "l \<noteq> ''''"
  shows "push l (decoder_after b) = (None, decoder_after (b @ [l]))"
proof (cases "HasPrefix l '':''")
  case True
  then show ?thesis using assms
    by (simp add: push_def decoder_after_def block_event_def field_values_snoc field_of_def)
next
  case False
  obtain f a where fa: "split_at (CHR '':'') l = (f, a)" by fastforce
  then have "field_of l = Some (f, TrimPrefix (case a of None \<Rightarrow> '''' | Some v \<Rightarrow> v) '' '')"
    using False by (auto simp: field_of_def TrimPrefix_def HasPrefix_def split: option.splits)
  then show ?thesis using assms False fa
    by (auto simp: push_def decoder_after_def block_event_def field_values_snoc Let_def split: list.splits)
qed

lemma push_all_blocks: "push_all ls (decoder_after acc) = List.map_filter frame_of_block (blocks_from acc ls)"
proof (induction ls arbitrary: acc)
  case (Cons l ls)
  then show ?case
    by (cases "l = ''''") (auto simp: push_blank push_field List.map_filter_simps split: option.splits)
qed (simp add: List.map_filter_simps)

text \<open>C39. The incremental decoder of Server-Sent Events implements the format: fed any sequence of
  lines one at a time, it returns exactly the frames of the completed blocks of that sequence, in
  order, with comments and unknown fields ignored, the data lines joined by newlines and the type
  taken from the last event field. A block that the stream leaves unfinished yields nothing.\<close>

theorem decoder_implements_format:
  "push_all lines new_decoder = List.map_filter frame_of_block (complete_blocks lines)"
  using push_all_blocks [of lines "[]"]
  by (simp add: complete_blocks_def decoder_after_def new_decoder_def block_event_def field_values_def
        List.map_filter_simps)

section \<open>From bytes to the latest value\<close>

text \<open>The bytes a server sends for one frame.\<close>

definition encode_frame :: "string \<Rightarrow> string \<Rightarrow> string" where
  "encode_frame ev data = ''event: '' @ ev @ [CHR 0x0A] @ ''data: '' @ data @ [CHR 0x0A, CHR 0x0A]"

text \<open>Text that is one line for the scanner, short enough for its buffer with the field name.\<close>

definition one_line :: "string \<Rightarrow> bool" where
  "one_line s = (CHR 0x0A \<notin> set s \<and> CHR 0x0D \<notin> set s \<and> length s + 7 < maxTokenSize)"

lemma scan_lines_line:
  assumes "CHR 0x0A \<notin> set l" "CHR 0x0D \<notin> set l" "length l < maxTok"
  shows "scan_lines maxTok (l @ CHR 0x0A # rest) =
           (l # fst (scan_lines maxTok rest), snd (scan_lines maxTok rest))"
proof -
  have "dropCR l = l" using assms(2) by (metis dropCR_def last_in_set)
  then show ?thesis using assms split_at_append [OF assms(1), of rest]
    by (subst scan_lines.simps) (auto split: prod.splits)
qed

lemma scan_lines_blank:
  "0 < maxTok \<Longrightarrow> scan_lines maxTok (CHR 0x0A # rest) =
     ('''' # fst (scan_lines maxTok rest), snd (scan_lines maxTok rest))"
  using scan_lines_line [of "''''" maxTok rest] by simp

lemma scan_lines_encode_frame:
  assumes "one_line ev" "one_line data"
  shows "scan_lines maxTokenSize (encode_frame ev data @ rest) =
           ([''event: '' @ ev, ''data: '' @ data, ''''] @ fst (scan_lines maxTokenSize rest),
            snd (scan_lines maxTokenSize rest))"
proof -
  have "scan_lines maxTokenSize ((''event: '' @ ev) @ CHR 0x0A # t) =
      ((''event: '' @ ev) # fst (scan_lines maxTokenSize t), snd (scan_lines maxTokenSize t))" for t
    using assms(1) by (intro scan_lines_line) (auto simp: one_line_def)
  moreover have "scan_lines maxTokenSize ((''data: '' @ data) @ CHR 0x0A # t) =
      ((''data: '' @ data) # fst (scan_lines maxTokenSize t), snd (scan_lines maxTokenSize t))" for t
    using assms(2) by (intro scan_lines_line) (auto simp: one_line_def)
  moreover have "0 < maxTokenSize" by (simp add: maxTokenSize_def)
  ultimately show ?thesis by (simp add: encode_frame_def scan_lines_blank)
qed

lemma frame_of_encoded:
  "frame_of_block [''event: '' @ ev, ''data: '' @ data] =
     Some \<lparr> fr_event = (if ev = '''' then ''message'' else ev), fr_data = data \<rparr>"
proof -
  have "split_at (CHR '':'') (''event'' @ CHR '':'' # '' '' @ ev) = (''event'', Some ('' '' @ ev))"
    "split_at (CHR '':'') (''data'' @ CHR '':'' # '' '' @ data) = (''data'', Some ('' '' @ data))"
    by (rule split_at_append, simp)+
  then have "field_of (''event: '' @ ev) = Some (''event'', ev)" "field_of (''data: '' @ data) = Some (''data'', data)"
    by (simp_all add: field_of_def HasPrefix_def TrimPrefix_def)
  then show ?thesis
    by (simp add: frame_of_block_def block_event_def field_values_def List.map_filter_simps)
qed

lemma push_all_encoded:
  assumes "list_all one_line datas"
  shows "push_all (fst (scan_lines maxTokenSize (concat (map (encode_frame featureEventName) datas)))) new_decoder =
           map (\<lambda>d. \<lparr> fr_event = featureEventName, fr_data = d \<rparr>) datas"
    and "snd (scan_lines maxTokenSize (concat (map (encode_frame featureEventName) datas))) = False"
  using assms
proof (induction datas)
  case Nil
  { case 1 show ?case by (simp add: scan_lines.simps) }
  { case 2 show ?case by (simp add: scan_lines.simps) }
next
  case (Cons d datas)
  have nm: "one_line featureEventName" by (simp add: one_line_def maxTokenSize_def)
  { case 1
    then show ?case using Cons.IH(1) frame_of_encoded [of featureEventName d]
      by (simp add: scan_lines_encode_frame [OF nm] decoder_implements_format complete_blocks_def
            List.map_filter_simps) }
  { case 2 then show ?case using Cons.IH(2) by (simp add: scan_lines_encode_frame [OF nm]) }
qed

lemma fold_Record:
  "fold Record evs s k =
     (case filter (\<lambda>ev. fe_FeatureName ev = k) evs of [] \<Rightarrow> s k | es \<Rightarrow> Some (last es))"
  by (induction evs rule: rev_induct) (auto simp: Record_def split: list.splits)

lemma streamOnce_encoded:
  assumes "\<forall>ev\<in>set evs. one_line (ser ev) \<and> unmarshal (ser ev) = Inr ev" and "status < 300"
  shows "streamOnce unmarshal uni handler
           (Answer status (concat (map (\<lambda>ev. encode_frame featureEventName (ser ev)) evs)) e) h = (e, fold handler evs h)"
proof -
  let ?body = "concat (map (encode_frame featureEventName) (map ser evs))"
  have one: "list_all one_line (map ser evs)" using assms(1) by (simp add: list_all_iff)
  have "List.map_filter (feature_of_frame unmarshal) (map (\<lambda>d. \<lparr> fr_event = featureEventName, fr_data = d \<rparr>) (map ser evs)) = evs"
    using assms(1) by (induction evs) (simp_all add: feature_of_frame_def List.map_filter_simps)
  then have "streamOnce unmarshal uni handler (Answer status ?body e) h = (e, fold handler evs h)"
    using push_all_encoded [OF one] assms(2) by (auto simp: streamOnce_def split: prod.splits)
  then show ?thesis by (simp add: comp_def)
qed

text \<open>The feature view shows the latest value. When the server sends any sequence of feature
  events, each serialised to one line within the scanner's limit, one cycle of the client returns
  the error that ended the body, and afterwards the snapshot maps every feature name to the last
  event of that name in the sequence, and keeps what it had for the other names.\<close>

theorem feed_latest_value:
  assumes "\<forall>ev\<in>set evs. one_line (ser ev) \<and> unmarshal (ser ev) = Inr ev" and "status < 300"
  shows "\<exists>s'. streamOnce unmarshal uni Record
           (Answer status (concat (map (\<lambda>ev. encode_frame featureEventName (ser ev)) evs)) e) s = (e, s') \<and>
         (\<forall>k. Snapshot s' k =
            (case filter (\<lambda>ev. fe_FeatureName ev = k) evs of [] \<Rightarrow> s k | es \<Rightarrow> Some (last es)))"
  using streamOnce_encoded [OF assms, of uni Record e s] by (simp add: Snapshot_def fold_Record)

text \<open>Two values of one feature, serialised as their ids.\<close>

definition fd_demo_event :: "string \<Rightarrow> FeatureEvent" where
  "fd_demo_event i = \<lparr> fe_EventID = i, fe_EventTime = 0, fe_FeatureName = ''spread'', fe_FeatureVersion = ''1'',
     fe_Value = Some (Fin 1), fe_Values = None, fe_WindowStart = 0, fe_WindowEnd = 0 \<rparr>"

theorem feed_latest_value_witness:
  "\<exists>s'. streamOnce (\<lambda>d. Inr (fd_demo_event d)) id Record
      (Answer 200 (concat (map (\<lambda>ev. encode_frame featureEventName (fe_EventID ev)) [fd_demo_event ''a'', fd_demo_event ''b''])) None)
      NewLatestStore = (None, s') \<and>
    Snapshot s' ''spread'' = Some (fd_demo_event ''b'') \<and> Snapshot s' ''other'' = None"
proof -
  let ?evs = "[fd_demo_event ''a'', fd_demo_event ''b'']"
  have h: "\<forall>ev\<in>set ?evs. one_line (fe_EventID ev) \<and> (\<lambda>d. Inr (fd_demo_event d)) (fe_EventID ev) = (Inr ev :: goerror + FeatureEvent)"
    by (simp add: fd_demo_event_def one_line_def maxTokenSize_def)
  have "(200::int) < 300" by simp
  from feed_latest_value [OF h this, of id None NewLatestStore] show ?thesis
    by (auto simp: fd_demo_event_def NewLatestStore_def)
qed

section \<open>The reconnect loop\<close>

text \<open>The delays of a client without its own, as the program builds it.\<close>

interpretation feed: backoff "500 * Millisecond" "60 * Second"
  by unfold_locales simp_all

definition feed_ok :: "'h feed_state \<Rightarrow> bool" where
  "feed_ok st = (500 * Millisecond \<le> fs_retryDelay st \<and> fs_retryDelay st \<le> 60 * Second \<and>
     list_all (\<lambda>p. 7 * (500 * Millisecond) div 8 \<le> p \<and> p \<le> 60 * Second) (fs_pauses st))"

lemma Run_pass_ok:
  assumes "feed_ok st" "unit_random (fp_random p)" "sc_baseDelay c = 500 * Millisecond" "sc_maxDelay c = 60 * Second"
  shows "feed_ok (Run_pass unmarshal uni oor handler c p st)"
proof -
  let ?d = "stable_reset (500 * Millisecond) (fp_alive p) (fs_retryDelay st)"
  have d: "500 * Millisecond \<le> ?d" "?d \<le> 60 * Second"
    using assms(1) feed.reset_in_range [of "fs_retryDelay st" "fp_alive p"] by (simp_all add: feed_ok_def)
  show ?thesis
    using assms d feed.pause_in_range [OF assms(2) d, of oor] feed.next_in_range [OF d, of oor]
    by (simp add: feed_ok_def Run_pass_def Let_def)
qed

lemma Run_ok:
  "feed_ok st \<Longrightarrow> \<forall>p\<in>set ps. unit_random (fp_random p) \<Longrightarrow> sc_baseDelay c = 500 * Millisecond \<Longrightarrow>
     sc_maxDelay c = 60 * Second \<Longrightarrow> feed_ok (Run unmarshal uni oor handler c ps st)"
  by (induction ps arbitrary: st) (simp_all add: Run_pass_ok)

lemma NewStreamClient_delays:
  "fd_BaseDelay cfg \<le> 0 \<Longrightarrow> fd_MaxDelay cfg \<le> 0 \<Longrightarrow>
     sc_baseDelay (NewStreamClient cfg) = 500 * Millisecond \<and> sc_maxDelay (NewStreamClient cfg) = 60 * Second"
  by (simp add: NewStreamClient_def)

lemma Run_count:
  "fs_drops st = length (fs_pauses st) \<Longrightarrow>
     fs_drops (Run unmarshal uni oor handler c ps st) = length (fs_pauses (Run unmarshal uni oor handler c ps st)) \<and>
     (\<not> fs_stopped (Run unmarshal uni oor handler c ps st) \<longrightarrow>
        fs_drops (Run unmarshal uni oor handler c ps st) = fs_drops st + length ps)"
proof (induction ps arbitrary: st)
  case (Cons p ps)
  have stop: "fs_stopped st' \<Longrightarrow> Run unmarshal uni oor handler c qs st' = st'" for qs st' by (cases qs) auto
  let ?s = "Run_pass unmarshal uni oor handler c p st"
  have "fs_drops ?s = length (fs_pauses ?s)" "\<not> fs_stopped ?s \<Longrightarrow> fs_drops ?s = Suc (fs_drops st)"
    using Cons.prems by (auto simp: Run_pass_def Let_def split: if_splits)
  then show ?case using Cons.IH [of ?s] Cons.prems stop [of ?s ps] by (cases "fs_stopped ?s") auto
qed simp

text \<open>The client of the feature stream never gives up and never hammers the server. Built
  without delays of its own, as the program builds it, and whatever the server does, its delay
  stays between half a second and a minute, every pause lasts at least seven eighths of half a
  second and at most a minute, there is one pause for each lost connection, and unless the
  context ends every pass of the loop is followed by another attempt.\<close>

theorem feed_reconnects:
  assumes "fd_BaseDelay cfg \<le> 0" "fd_MaxDelay cfg \<le> 0" and "\<forall>p\<in>set ps. unit_random (fp_random p)"
    and "st = Run unmarshal uni oor handler (NewStreamClient cfg) ps (feed_start (NewStreamClient cfg) h)"
  shows "500 * Millisecond \<le> fs_retryDelay st \<and> fs_retryDelay st \<le> 60 * Second"
    and "p \<in> set (fs_pauses st) \<Longrightarrow> 7 * (500 * Millisecond) div 8 \<le> p \<and> p \<le> 60 * Second"
    and "length (fs_pauses st) = fs_drops st"
    and "\<not> fs_stopped st \<Longrightarrow> fs_drops st = length ps"
proof -
  note del = NewStreamClient_delays [OF assms(1,2)]
  have "feed_ok (feed_start (NewStreamClient cfg) h)" using del by (simp add: feed_ok_def feed_start_def)
  then have "feed_ok st" unfolding assms(4) using assms(3) del by (intro Run_ok) simp_all
  then show "500 * Millisecond \<le> fs_retryDelay st \<and> fs_retryDelay st \<le> 60 * Second"
    and "p \<in> set (fs_pauses st) \<Longrightarrow> 7 * (500 * Millisecond) div 8 \<le> p \<and> p \<le> 60 * Second"
    by (auto simp: feed_ok_def list_all_iff)
  have "fs_drops (feed_start (NewStreamClient cfg) h) = length (fs_pauses (feed_start (NewStreamClient cfg) h))"
    by (simp add: feed_start_def)
  from Run_count [OF this, of unmarshal uni oor handler "NewStreamClient cfg" ps]
  show "length (fs_pauses st) = fs_drops st" "\<not> fs_stopped st \<Longrightarrow> fs_drops st = length ps"
    unfolding assms(4) [symmetric] by (simp_all add: feed_start_def)
qed

definition fd_demo_pass :: feed_pass where
  "fd_demo_pass = \<lparr> fp_doneHead = False, fp_answer = NoAnswer ''refused'', fp_doneAfter = False, fp_alive = 0,
     fp_random = Fin 0, fp_donePause = False \<rparr>"

theorem feed_reconnects_witness:
  "\<exists>st. st = Run (\<lambda>d. Inr (fd_demo_event d)) id (\<lambda>_. 0) Record
      (NewStreamClient \<lparr> fd_BaseURL = ''http://m'', fd_Feature = '''', fd_BaseDelay = 0, fd_MaxDelay = 0 \<rparr>)
      [fd_demo_pass, fd_demo_pass]
      (feed_start (NewStreamClient \<lparr> fd_BaseURL = ''http://m'', fd_Feature = '''', fd_BaseDelay = 0, fd_MaxDelay = 0 \<rparr>)
         NewLatestStore) \<and>
    \<not> fs_stopped st \<and> fs_drops st = 2 \<and> fs_retryDelay st \<le> 60 * Second"
proof -
  define cfg where "cfg = \<lparr> fd_BaseURL = ''http://m'', fd_Feature = '''', fd_BaseDelay = 0, fd_MaxDelay = 0 \<rparr>"
  define st where "st = Run (\<lambda>d. Inr (fd_demo_event d)) id (\<lambda>_. 0) Record (NewStreamClient cfg) [fd_demo_pass, fd_demo_pass]
      (feed_start (NewStreamClient cfg) NewLatestStore)"
  have h: "fd_BaseDelay cfg \<le> 0" "fd_MaxDelay cfg \<le> 0" "\<forall>p\<in>set [fd_demo_pass, fd_demo_pass]. unit_random (fp_random p)"
    by (simp_all add: cfg_def fd_demo_pass_def unit_random_def)
  have "\<not> fs_stopped st" by (simp add: st_def Run_pass_def fd_demo_pass_def feed_start_def Let_def)
  with feed_reconnects(1,4) [OF h st_def] show ?thesis by (auto simp: st_def cfg_def)
qed

end
