(* ===== verification/Admin.thy ===== *)
theory Admin
  imports Gateway Feed
begin

text \<open>
  The HTTP API of \<open>cmd/sleipnir/main.go\<close> (\<open>healthHandler\<close>): probes, telemetry, the operator kill
  switch behind its bearer token, and the read-only views. A request acts on the gateway, which
  holds the tracker and the kill switch the handler was given. Texts produced by other packages
  (the verb \<open>%q\<close>, JSON encodings, Prometheus) and the multiplexer's answer to a path that is not
  registered are parameters.
\<close>

section \<open>Requests and responses\<close>

record http_req =
  hr_Method :: string
  hr_Path :: string
  hr_Authorization :: string
  hr_Body :: string

record http_resp =
  rs_status :: int
  rs_body :: string

record Info =
  vi_Version :: string
  vi_GitSHA :: string
  vi_BuildTime :: string

text \<open>The build identity, unless the linker sets it, and \<open>version.Get\<close>.\<close>

definition version_vars :: "string \<times> string \<times> string" where
  "version_vars = (''dev'', ''unknown'', ''unknown'')"

definition version_Get :: "string \<times> string \<times> string \<Rightarrow> Info" where
  "version_Get vars = (case vars of (version, sha, built) \<Rightarrow>
     \<lparr> vi_Version = version, vi_GitSHA = sha, vi_BuildTime = built \<rparr>)"

record http_env =
  he_decodeReason :: "string \<Rightarrow> string"
  he_quote :: "string \<Rightarrow> string"
  he_encodeFeatures :: "LatestStore \<Rightarrow> goerror + string"
  he_encodeVersion :: "Info \<Rightarrow> goerror + string"
  he_metrics :: string
  he_unregistered :: "http_req \<Rightarrow> http_resp"

definition respond :: "int \<Rightarrow> string \<Rightarrow> http_resp" where
  "respond status body = \<lparr> rs_status = status, rs_body = body \<rparr>"

definition show_bool :: "bool \<Rightarrow> string" where
  "show_bool b = (if b then ''true'' else ''false'')"

section \<open>Authorisation\<close>

text \<open>The header after as many bytes as \<open>Bearer\<close> and a space have must be the token; the prefix itself
  is not looked at.\<close>

abbreviation bearer_prefix :: string where "bearer_prefix \<equiv> ''Bearer ''"

definition adminAuth :: "string \<Rightarrow> http_req \<Rightarrow> http_resp option" where
  "adminAuth adminToken r =
     (if adminToken = ''''
      then Some (respond 503 ''{\"error\":\"admin endpoints disabled: SLEIPNIR_ADMIN_TOKEN not set\"}'')
      else if length (hr_Authorization r) \<le> length bearer_prefix \<or>
              drop (length bearer_prefix) (hr_Authorization r) \<noteq> adminToken
      then Some (respond 401 ''{\"error\":\"unauthorized\"}'')
      else None)"

section \<open>The endpoints\<close>

definition IsReady :: "('s, 'x, 'p, 'm) Gateway \<Rightarrow> bool" where
  "IsReady gw = gw_ready gw"

definition readyz :: "('s, 'x, 'p, 'm) Gateway \<Rightarrow> http_resp" where
  "readyz gw = (if IsReady gw then respond 200 ''{\"status\":\"READY\"}'' else respond 503 ''{\"status\":\"NOT_READY\"}'')"

definition telemetry_view :: "('s, 'x, 'p, 'm) Gateway \<Rightarrow> http_resp" where
  "telemetry_view gw = respond 200
     (''{\"status\":\"HEALTHY\",\"active_tracked_orders\":'' @ itoa (int (length (GetAllActiveOrders (gw_tracker gw)))) @
      '',\"halted\":'' @ show_bool (IsHalted (gw_halt gw)) @ ''}'')"

definition halt_get :: "http_env \<Rightarrow> ('s, 'x, 'p, 'm) Gateway \<Rightarrow> http_resp" where
  "halt_get he gw = respond 200
     (''{\"halted\":'' @ show_bool (IsHalted (gw_halt gw)) @ '',\"reason\":'' @ he_quote he (Halt_Reason (gw_halt gw)) @ ''}'')"

definition halt_post :: "http_env \<Rightarrow> http_req \<Rightarrow> ('s, 'x, 'p, 'm) Gateway \<Rightarrow> http_resp \<times> ('s, 'x, 'p, 'm) Gateway" where
  "halt_post he r gw =
     (let h = Halt_Set (he_decodeReason he (hr_Body r)) (gw_halt gw)
      in (respond 200 (''{\"halted\":true,\"reason\":'' @ he_quote he (Halt_Reason h) @ ''}''), gw\<lparr> gw_halt := h \<rparr>))"

definition resume :: "http_req \<Rightarrow> ('s, 'x, 'p, 'm) Gateway \<Rightarrow> http_resp \<times> ('s, 'x, 'p, 'm) Gateway" where
  "resume r gw =
     (if hr_Method r \<noteq> ''POST'' then (respond 405 '''', gw)
      else (respond 200 ''{\"halted\":false}'', gw\<lparr> gw_halt := Halt_Clear (gw_halt gw) \<rparr>))"

text \<open>Encoding errors are reported after the status 200 has been written.\<close>

definition feature_latest :: "http_env \<Rightarrow> LatestStore option \<Rightarrow> http_resp" where
  "feature_latest he fstore = (case fstore of
     None \<Rightarrow> respond 503 ''{\"enabled\":false,\"features\":{}}''
   | Some s \<Rightarrow> (case he_encodeFeatures he (Snapshot s) of
       Inr t \<Rightarrow> respond 200 t | Inl e \<Rightarrow> respond 200 (e @ [CHR 0x0A])))"

definition version_view :: "http_env \<Rightarrow> Info \<Rightarrow> http_resp" where
  "version_view he v = (case he_encodeVersion he v of
     Inr t \<Rightarrow> respond 200 t | Inl e \<Rightarrow> respond 500 (e @ [CHR 0x0A]))"

definition admin_halt :: "http_env \<Rightarrow> string \<Rightarrow> http_req \<Rightarrow> ('s, 'x, 'p, 'm) Gateway \<Rightarrow> http_resp \<times> ('s, 'x, 'p, 'm) Gateway" where
  "admin_halt he adminToken r gw =
     (if hr_Method r = ''GET'' then (halt_get he gw, gw)
      else if hr_Method r = ''POST'' then
        (case adminAuth adminToken r of Some resp \<Rightarrow> (resp, gw) | None \<Rightarrow> halt_post he r gw)
      else (respond 405 '''', gw))"

definition healthHandler :: "http_env \<Rightarrow> string \<Rightarrow> Info \<Rightarrow> LatestStore option \<Rightarrow> http_req \<Rightarrow>
    ('s, 'x, 'p, 'm) Gateway \<Rightarrow> http_resp \<times> ('s, 'x, 'p, 'm) Gateway" where
  "healthHandler he adminToken v fstore r gw =
     (if hr_Path r = ''/healthz'' then (respond 200 ''{\"status\":\"OK\",\"service\":\"sleipnir\"}'', gw)
      else if hr_Path r = ''/readyz'' then (readyz gw, gw)
      else if hr_Path r = ''/telemetry'' then (telemetry_view gw, gw)
      else if hr_Path r = ''/admin/halt'' then admin_halt he adminToken r gw
      else if hr_Path r = ''/admin/resume'' then
        (case adminAuth adminToken r of Some resp \<Rightarrow> (resp, gw) | None \<Rightarrow> resume r gw)
      else if hr_Path r = ''/feature/latest'' then (feature_latest he fstore, gw)
      else if hr_Path r = ''/version'' then (version_view he v, gw)
      else if hr_Path r = ''/metrics'' then (respond 200 (he_metrics he), gw)
      else (he_unregistered he r, gw))"

section \<open>Properties\<close>

text \<open>A request carries the token.\<close>

definition authorised :: "string \<Rightarrow> http_req \<Rightarrow> bool" where
  "authorised adminToken r \<longleftrightarrow> adminToken \<noteq> '''' \<and> (\<exists>p. length p = 7 \<and> hr_Authorization r = p @ adminToken)"

lemma adminAuth_None: "adminAuth adminToken r = None \<longleftrightarrow> authorised adminToken r"
proof -
  have len: "length bearer_prefix = 7" by simp
  show ?thesis unfolding adminAuth_def authorised_def len
    by (auto intro!: exI [of _ "take 7 (hr_Authorization r)"])
qed

lemma adminAuth_Some:
  "adminAuth adminToken r = Some resp \<Longrightarrow> rs_status resp = (if adminToken = '''' then 503 else 401)"
  by (auto simp: adminAuth_def respond_def split: if_splits)

lemma handler_paths:
  "hr_Path r = ''/admin/halt'' \<Longrightarrow> healthHandler he tok v fstore r gw = admin_halt he tok r gw"
  "hr_Path r = ''/admin/resume'' \<Longrightarrow> healthHandler he tok v fstore r gw =
     (case adminAuth tok r of Some resp \<Rightarrow> (resp, gw) | None \<Rightarrow> resume r gw)"
  "hr_Path r \<noteq> ''/admin/halt'' \<Longrightarrow> hr_Path r \<noteq> ''/admin/resume'' \<Longrightarrow> snd (healthHandler he tok v fstore r gw) = gw"
  by (simp_all add: healthHandler_def)

lemma admin_halt_gateway:
  "snd (admin_halt he tok r gw) = (if authorised tok r \<and> hr_Method r = ''POST''
     then gw\<lparr> gw_halt := Halt_Set (he_decodeReason he (hr_Body r)) (gw_halt gw) \<rparr> else gw)"
  using adminAuth_None [of tok r]
  by (cases "adminAuth tok r") (simp_all add: admin_halt_def halt_post_def Let_def)

lemma admin_resume_gateway:
  "snd (case adminAuth tok r of Some resp \<Rightarrow> (resp, gw) | None \<Rightarrow> resume r gw) =
     (if authorised tok r \<and> hr_Method r = ''POST'' then gw\<lparr> gw_halt := Halt_Clear (gw_halt gw) \<rparr> else gw)"
  using adminAuth_None [of tok r] by (cases "adminAuth tok r") (simp_all add: resume_def)

text \<open>C35. The kill switch is guarded. Whatever request arrives, the gateway after it differs from the
  gateway before it in the kill switch at most, and there exactly as follows: an authorised POST to
  \<open>/admin/halt\<close> sets it with the given reason, an authorised POST to \<open>/admin/resume\<close> clears it, and
  nothing else changes it. A request is authorised when a token is configured and the header is
  seven bytes, whichever, followed by that token. An unauthorised request to mutate is answered
  503 without a configured token and 401 otherwise.\<close>

theorem admin_guarded:
  shows "snd (healthHandler he adminToken v fstore r gw) =
     (if authorised adminToken r \<and> hr_Method r = ''POST'' \<and> hr_Path r = ''/admin/halt''
      then gw\<lparr> gw_halt := Halt_Set (he_decodeReason he (hr_Body r)) (gw_halt gw) \<rparr>
      else if authorised adminToken r \<and> hr_Method r = ''POST'' \<and> hr_Path r = ''/admin/resume''
      then gw\<lparr> gw_halt := Halt_Clear (gw_halt gw) \<rparr>
      else gw) \<and>
    (hr_Method r = ''POST'' \<and> hr_Path r \<in> {''/admin/halt'', ''/admin/resume''} \<and> \<not> authorised adminToken r \<longrightarrow>
      rs_status (fst (healthHandler he adminToken v fstore r gw)) = (if adminToken = '''' then 503 else 401))"
proof (intro conjI impI)
  show "snd (healthHandler he adminToken v fstore r gw) =
     (if authorised adminToken r \<and> hr_Method r = ''POST'' \<and> hr_Path r = ''/admin/halt''
      then gw\<lparr> gw_halt := Halt_Set (he_decodeReason he (hr_Body r)) (gw_halt gw) \<rparr>
      else if authorised adminToken r \<and> hr_Method r = ''POST'' \<and> hr_Path r = ''/admin/resume''
      then gw\<lparr> gw_halt := Halt_Clear (gw_halt gw) \<rparr>
      else gw)"
    by (cases "hr_Path r = ''/admin/halt''"; cases "hr_Path r = ''/admin/resume''")
       (simp_all add: handler_paths admin_halt_gateway admin_resume_gateway)
  assume post: "hr_Method r = ''POST'' \<and> hr_Path r \<in> {''/admin/halt'', ''/admin/resume''} \<and> \<not> authorised adminToken r"
  then obtain resp where "adminAuth adminToken r = Some resp" using adminAuth_None [of adminToken r] by fastforce
  with post show "rs_status (fst (healthHandler he adminToken v fstore r gw)) = (if adminToken = '''' then 503 else 401)"
    using adminAuth_Some [of adminToken r resp] by (auto simp: handler_paths admin_halt_def)
qed

text \<open>A request to halt, with the token under a scheme that is not \<open>Bearer\<close>, and one without it.\<close>

definition ad_env :: http_env where
  "ad_env = \<lparr> he_decodeReason = id, he_quote = id, he_encodeFeatures = (\<lambda>_. Inr ''{}''), he_encodeVersion = (\<lambda>_. Inr ''{}''),
     he_metrics = '''', he_unregistered = (\<lambda>_. respond 404 '''') \<rparr>"

definition ad_request :: "string \<Rightarrow> http_req" where
  "ad_request auth = \<lparr> hr_Method = ''POST'', hr_Path = ''/admin/halt'', hr_Authorization = auth, hr_Body = ''drill'' \<rparr>"

definition ad_info :: Info where
  "ad_info = \<lparr> vi_Version = ''dev'', vi_GitSHA = ''unknown'', vi_BuildTime = ''unknown'' \<rparr>"

definition ad_gateway :: "(unit, unit, unit, unit) Gateway" where
  "ad_gateway = NewGateway () () () NewOrderTracker (NewTokenBucketLimiter 0 (Fin 1)) None None 0"

theorem admin_guarded_witness:
  "IsHalted (gw_halt (snd (healthHandler ad_env ''key'' ad_info None (ad_request ''xxxxxxxkey'') ad_gateway))) \<and>
   rs_status (fst (healthHandler ad_env ''key'' ad_info None (ad_request ''Bearer kez'') ad_gateway)) = 401"
proof -
  have "authorised ''key'' (ad_request ''xxxxxxxkey'')"
    unfolding authorised_def by (auto simp: ad_request_def intro!: exI [of _ "''xxxxxxx''"])
  moreover have "\<not> authorised ''key'' (ad_request ''Bearer kez'')"
    unfolding adminAuth_None [symmetric] by (simp add: adminAuth_def ad_request_def)
  ultimately show ?thesis
    using admin_guarded [of ad_env "''key''" ad_info None "ad_request ''xxxxxxxkey''" ad_gateway]
      admin_guarded [of ad_env "''key''" ad_info None "ad_request ''Bearer kez''" ad_gateway]
    by (simp add: ad_request_def IsHalted_def Halt_Set_def)
qed

end
