(* ===== verification/Binance.thy ===== *)
theory Binance
  imports Json Backoff "HOL-Library.Char_ord" "HOL-Library.List_Lexorder"
begin

text \<open>
  \<open>internal/exchange/binance.go\<close>: symbol translation, the construction of signed requests,
  the handling of the exchange's answers and of the events of the user-data stream, and the
  reconnect backoff. The HTTP client, the HMAC and the decoding of JSON text are parameters;
  decoded values (\<open>interface{}\<close>) are the trees of theory \<open>Json\<close>.
\<close>

section \<open>Symbols and statuses\<close>

definition remove_dashes :: "string \<Rightarrow> string" where
  "remove_dashes s = filter (\<lambda>c. c \<noteq> CHR ''-'') s"

definition TranslateToExchange :: "(string \<Rightarrow> string) \<Rightarrow> string \<Rightarrow> string" where
  "TranslateToExchange uni instrument =
     (let s = ToUpper uni (remove_dashes instrument)
      in if HasSuffix s ''USD'' then s @ ''T'' else s)"

definition TranslateToDownstream :: "string \<Rightarrow> string" where
  "TranslateToDownstream symbol =
     (if HasSuffix symbol ''USDT'' then TrimSuffix symbol ''USDT'' @ ''-USD''
      else if HasSuffix symbol ''BUSD'' then TrimSuffix symbol ''BUSD'' @ ''-USD''
      else symbol)"

definition mapBinanceStatus :: "string \<Rightarrow> OrderState" where
  "mapBinanceStatus status =
     (if status = ''NEW'' then StateSubmitted
      else if status = ''PARTIALLY_FILLED'' then StatePartiallyFilled
      else if status = ''FILLED'' then StateFilled
      else if status = ''CANCELED'' then StateCanceled
      else if status = ''REJECTED'' then StateRejected
      else if status = ''EXPIRED'' then StateExpired
      else StatePending)"

section \<open>Numbers as text\<close>

text \<open>\<open>strconv.FormatFloat(x, 'f', prec, 64)\<close>: the exact value rounded to \<open>prec\<close> decimals, ties
  to even.\<close>

definition pad_zeros :: "nat \<Rightarrow> string \<Rightarrow> string" where
  "pad_zeros n s = replicate (n - length s) (CHR ''0'') @ s"

definition format_fixed :: "nat \<Rightarrow> rat \<Rightarrow> string" where
  "format_fixed prec q =
     (let m = nat (rne (\<bar>q\<bar> * 10 ^ prec)) in
      (if q < 0 then ''-'' else '''') @ nat_digits (m div 10 ^ prec) @
      (if prec = 0 then '''' else ''.'' @ pad_zeros prec (nat_digits (m mod 10 ^ prec))))"

definition FormatFloat :: "nat \<Rightarrow> float64 \<Rightarrow> string" where
  "FormatFloat prec x = (case x of
     NaN \<Rightarrow> ''NaN'' | PosInf \<Rightarrow> ''+Inf'' | NegInf \<Rightarrow> ''-Inf'' | Fin q \<Rightarrow> format_fixed prec q)"

text \<open>\<open>strconv.ParseFloat(s, 64)\<close> with its error dropped, on plain decimals: the nearest float64.
  Other syntax (exponents, infinities, hexadecimal, malformed text) is the parameter \<open>other\<close>.\<close>

definition parse_decimal :: "string \<Rightarrow> rat option" where
  "parse_decimal s =
     (let neg = HasPrefix s ''-'';
          t = (if neg then drop 1 s else s)
      in case split_at (CHR ''.'') t of
           (ip, None) \<Rightarrow>
             if ip \<noteq> '''' \<and> list_all is_digit ip
             then Some ((if neg then - 1 else 1) * of_nat (digits_value ip)) else None
         | (ip, Some fp) \<Rightarrow>
             if ip @ fp \<noteq> '''' \<and> list_all is_digit (ip @ fp)
             then Some ((if neg then - 1 else 1) * of_nat (digits_value (ip @ fp)) / 10 ^ length fp) else None)"

definition ParseFloat :: "(string \<Rightarrow> float64) \<Rightarrow> string \<Rightarrow> float64" where
  "ParseFloat other s = (case parse_decimal s of Some q \<Rightarrow> fround q | None \<Rightarrow> other s)"

section \<open>Signed requests\<close>

text \<open>\<open>url.Values\<close> with one value per key; \<open>Encode\<close> sorts by key and escapes.\<close>

type_synonym url_values = "(string \<times> string) list"

definition hex_digit :: "nat \<Rightarrow> char" where
  "hex_digit d = (if d < 10 then char_of (48 + d) else char_of (55 + d))"

definition escape_char :: "char \<Rightarrow> string" where
  "escape_char c =
     (let n = (of_char c :: nat) in
      if (65 \<le> n \<and> n \<le> 90) \<or> (97 \<le> n \<and> n \<le> 122) \<or> (48 \<le> n \<and> n \<le> 57) \<or>
         c = CHR ''-'' \<or> c = CHR ''_'' \<or> c = CHR ''.'' \<or> c = CHR ''~'' then [c]
      else if c = CHR '' '' then ''+''
      else [CHR ''%'', hex_digit (n div 16), hex_digit (n mod 16)])"

definition QueryEscape :: "string \<Rightarrow> string" where
  "QueryEscape s = concat (map escape_char s)"

fun join_amp :: "string list \<Rightarrow> string" where
  "join_amp [] = ''''"
| "join_amp [s] = s"
| "join_amp (s # ss) = s @ ''&'' @ join_amp ss"

definition url_Encode :: "url_values \<Rightarrow> string" where
  "url_Encode vs =
     join_amp (map (\<lambda>(k, v). QueryEscape k @ ''='' @ QueryEscape v) (sort_key fst vs))"

record BinanceConnector =
  bc_apiKey :: string
  bc_apiSecret :: string
  bc_restURL :: string
  bc_wsURL :: string

definition NewBinanceConnector :: "string \<Rightarrow> string \<Rightarrow> string \<Rightarrow> string \<Rightarrow> BinanceConnector" where
  "NewBinanceConnector apiKey apiSecret restURL wsURL =
     \<lparr> bc_apiKey = apiKey, bc_apiSecret = apiSecret, bc_restURL = TrimSuffix restURL ''/'', bc_wsURL = TrimSuffix wsURL ''/'' \<rparr>"

text \<open>What the connector uses of the outside: the hex HMAC-SHA256 of a secret and a text, the
  error of \<open>http.NewRequest\<close> for a URL, the HTTP exchange (status and body, or an error while
  sending or while reading the body), and the decoders.\<close>

record http_request =
  rq_method :: string
  rq_url :: string
  rq_apiKey :: string

datatype http_result = SendError goerror | BodyError goerror | HttpResponse int string

definition sign :: "(string \<Rightarrow> string \<Rightarrow> string) \<Rightarrow> BinanceConnector \<Rightarrow> string \<Rightarrow> string" where
  "sign hmac bc queryString = hmac (bc_apiSecret bc) queryString"

definition newSignedRequest :: "(string \<Rightarrow> string \<Rightarrow> string) \<Rightarrow> (string \<Rightarrow> goerror option) \<Rightarrow> time \<Rightarrow>
    BinanceConnector \<Rightarrow> string \<Rightarrow> string \<Rightarrow> url_values \<Rightarrow> goerror + http_request" where
  "newSignedRequest hmac newReq now bc meth path params0 =
     (let params = AList.update ''recvWindow'' ''5000''
                     (AList.update ''timestamp'' (itoa (now div Millisecond)) params0);
          queryString = url_Encode params;
          fullURL = bc_restURL bc @ path @ ''?'' @ queryString @ ''&signature='' @ sign hmac bc queryString
      in case newReq fullURL of
           Some e \<Rightarrow> Inl (''failed to create http request: '' @ e)
         | None \<Rightarrow> Inr \<lparr> rq_method = meth, rq_url = fullURL, rq_apiKey = bc_apiKey bc \<rparr>)"

section \<open>Requests and answers\<close>

text \<open>The decoded answers of \<open>/api/v3/order\<close>; of each entry of \<open>fills\<close> the commission is used.\<close>

record OrderResp =
  or_Symbol :: string
  or_OrderID :: int
  or_ClientOrderID :: string
  or_TransactTime :: int
  or_Price :: string
  or_OrigQty :: string
  or_ExecutedQty :: string
  or_CummulativeQuoteQty :: string
  or_Status :: string
  or_FillCommissions :: "string list"

record StatusResp =
  sr_Status :: string
  sr_ExecutedQty :: string
  sr_CummulativeQuoteQty :: string
  sr_Price :: string
  sr_UpdateTime :: int

record 'h world =
  w_uni :: "string \<Rightarrow> string"
  w_parseOther :: "string \<Rightarrow> float64"
  w_hmac :: "string \<Rightarrow> string \<Rightarrow> string"
  w_newRequest :: "string \<Rightarrow> goerror option"
  w_http :: "call \<Rightarrow> http_request \<Rightarrow> 'h \<Rightarrow> http_result \<times> 'h"
  w_orderResp :: "string \<Rightarrow> goerror + OrderResp"
  w_statusResp :: "string \<Rightarrow> goerror + StatusResp"

definition order_params :: "'h world \<Rightarrow> Order \<Rightarrow> url_values" where
  "order_params W order =
     [(''symbol'', TranslateToExchange (w_uni W) (o_Instrument order)), (''side'', o_Side order),
      (''type'', o_Type order), (''quantity'', FormatFloat 8 (o_Quantity order)),
      (''newClientOrderId'', o_OrderID order)] @
     (if o_Type order = TypeLimit
      then [(''price'', FormatFloat 2 (o_Price order)), (''timeInForce'', ''GTC'')] else [])"

text \<open>Sending a request and reading its answer: the body of a 200 answer, or the error.\<close>

definition send_signed :: "'h world \<Rightarrow> BinanceConnector \<Rightarrow> call \<Rightarrow> string \<Rightarrow> url_values \<Rightarrow>
    string \<Rightarrow> string \<Rightarrow> 'h \<Rightarrow> (goerror + string) \<times> 'h" where
  "send_signed W bc c meth params what status_msg h =
     (case newSignedRequest (w_hmac W) (w_newRequest W) (c_now c) bc meth ''/api/v3/order'' params of
        Inl e \<Rightarrow> (Inl (''failed to build '' @ what @ '' request: '' @ e), h)
      | Inr req \<Rightarrow>
          (case w_http W c req h of
             (SendError e, h') \<Rightarrow> (Inl (''failed to send '' @ what @ '' request: '' @ e), h')
           | (BodyError e, h') \<Rightarrow> (Inl (''failed to read response body: '' @ e), h')
           | (HttpResponse code body, h') \<Rightarrow>
               (if code \<noteq> 200 then (Inl (status_msg @ '' returned non-ok status '' @ itoa code @ '': '' @ body), h')
                else (Inr body, h'))))"

definition rest_execution_id :: "string \<Rightarrow> int \<Rightarrow> string" where
  "rest_execution_id cid oid = cid @ ''-rest-'' @ itoa oid"

definition submit_price :: "'h world \<Rightarrow> Order \<Rightarrow> OrderResp \<Rightarrow> float64" where
  "submit_price W order r =
     (let executedQty = ParseFloat (w_parseOther W) (or_ExecutedQty r) in
      if float_gt executedQty (Fin 0)
      then float_div (ParseFloat (w_parseOther W) (or_CummulativeQuoteQty r)) executedQty
      else if o_Type order = TypeLimit then ParseFloat (w_parseOther W) (or_Price r) else Fin 0)"

definition submit_fill :: "'h world \<Rightarrow> Order \<Rightarrow> OrderResp \<Rightarrow> ExecutionFill" where
  "submit_fill W order r =
     \<lparr> f_OrderID = or_ClientOrderID r,
       f_ExecutionID = rest_execution_id (or_ClientOrderID r) (or_OrderID r),
       f_Instrument = TranslateToDownstream (or_Symbol r), f_Side = o_Side order,
       f_OrderStatus = mapBinanceStatus (or_Status r),
       f_Quantity = ParseFloat (w_parseOther W) (or_ExecutedQty r),
       f_FillPrice = submit_price W order r,
       f_TransactionCost =
         foldl (\<lambda>acc cm. float_add acc (ParseFloat (w_parseOther W) cm)) (Fin 0) (or_FillCommissions r),
       f_Timestamp = UnixMilli (or_TransactTime r) \<rparr>"

definition binance_SubmitOrder :: "'h world \<Rightarrow> BinanceConnector \<Rightarrow> call \<Rightarrow> Order \<Rightarrow> 'h \<Rightarrow>
    (goerror + ExecutionFill) \<times> 'h" where
  "binance_SubmitOrder W bc c order h =
     (case send_signed W bc c ''POST'' (order_params W order) ''order'' ''exchange'' h of
        (Inl e, h') \<Rightarrow> (Inl e, h')
      | (Inr body, h') \<Rightarrow>
          (case w_orderResp W body of
             Inl e \<Rightarrow> (Inl (''failed to parse order response: '' @ e), h')
           | Inr r \<Rightarrow> (Inr (submit_fill W order r), h')))"

definition id_params :: "'h world \<Rightarrow> string \<Rightarrow> string \<Rightarrow> url_values" where
  "id_params W orderID instrument =
     [(''symbol'', TranslateToExchange (w_uni W) instrument), (''origClientOrderId'', orderID)]"

definition binance_CancelOrder :: "'h world \<Rightarrow> BinanceConnector \<Rightarrow> call \<Rightarrow> string \<Rightarrow> string \<Rightarrow> 'h \<Rightarrow>
    goerror option \<times> 'h" where
  "binance_CancelOrder W bc c orderID instrument h =
     (case send_signed W bc c ''DELETE'' (id_params W orderID instrument) ''cancel'' ''cancel'' h of
        (Inl e, h') \<Rightarrow> (Some e, h')
      | (Inr body, h') \<Rightarrow> (None, h'))"

text \<open>On an error \<open>GetOrderState\<close> also returns a PENDING result, which its caller ignores.\<close>

definition status_result :: "'h world \<Rightarrow> StatusResp \<Rightarrow> OrderStatusResult" where
  "status_result W r =
     (let executedQty = ParseFloat (w_parseOther W) (sr_ExecutedQty r) in
      \<lparr> r_State = mapBinanceStatus (sr_Status r), r_ExecutedQty = executedQty,
        r_FillPrice = (if float_gt executedQty (Fin 0)
          then float_div (ParseFloat (w_parseOther W) (sr_CummulativeQuoteQty r)) executedQty
          else ParseFloat (w_parseOther W) (sr_Price r)),
        r_TransactTime = UnixMilli (sr_UpdateTime r) \<rparr>)"

definition binance_GetOrderState :: "'h world \<Rightarrow> BinanceConnector \<Rightarrow> call \<Rightarrow> string \<Rightarrow> string \<Rightarrow> 'h \<Rightarrow>
    (goerror + OrderStatusResult) \<times> 'h" where
  "binance_GetOrderState W bc c orderID instrument h =
     (case send_signed W bc c ''GET'' (id_params W orderID instrument) ''get-order'' ''get order state'' h of
        (Inl e, h') \<Rightarrow> (Inl e, h')
      | (Inr body, h') \<Rightarrow>
          (case w_statusResp W body of
             Inl e \<Rightarrow> (Inl (''failed to parse status payload: '' @ e), h')
           | Inr r \<Rightarrow> (Inr (status_result W r), h')))"

definition binance :: "'h world \<Rightarrow> BinanceConnector \<Rightarrow> 'h ExchangeConnector" where
  "binance W bc = \<lparr> SubmitOrder = binance_SubmitOrder W bc, CancelOrder = binance_CancelOrder W bc,
                    GetOrderState = binance_GetOrderState W bc \<rparr>"

section \<open>The user-data stream\<close>

definition ws_execution_id :: "string \<Rightarrow> int \<Rightarrow> int \<Rightarrow> string \<Rightarrow> string" where
  "ws_execution_id cid tradeID transTime qtyStr =
     (if tradeID \<noteq> 0 then cid @ ''-ws-'' @ itoa tradeID
      else cid @ ''-ws-'' @ itoa transTime @ ''-'' @ qtyStr)"

datatype ws_event = WsIgnored | WsSubscribed | WsSubscribeError | WsFill ExecutionFill

text \<open>The fill of an execution report, if it reports a trade with a positive quantity. \<open>oor\<close> is
  the conversion of an out-of-range float to \<open>int64\<close>.\<close>

definition execution_report :: "(string \<Rightarrow> float64) \<Rightarrow> (float64 \<Rightarrow> int) \<Rightarrow> time \<Rightarrow>
    (string \<times> jvalue) list \<Rightarrow> ExecutionFill option" where
  "execution_report other oor now payload =
     (let cid = str_or_empty payload ''c'';
          tradeID = int64_of_float oor (case num_field payload ''t'' of None \<Rightarrow> Fin 0 | Some x \<Rightarrow> x);
          transTime = (case num_field payload ''T'' of Some x \<Rightarrow> int64_of_float oor x
                       | None \<Rightarrow> now div Millisecond);
          status = str_or_empty payload ''X'';
          qty = ParseFloat other (str_or_empty payload ''l'')
      in if (str_or_empty payload ''x'' = ''TRADE'' \<or> status = ''FILLED'' \<or> status = ''PARTIALLY_FILLED'')
            \<and> float_gt qty (Fin 0)
         then Some \<lparr> f_OrderID = cid,
                f_ExecutionID = ws_execution_id cid tradeID transTime (str_or_empty payload ''l''),
                f_Instrument = TranslateToDownstream (str_or_empty payload ''s''),
                f_Side = str_or_empty payload ''S'', f_OrderStatus = mapBinanceStatus status,
                f_Quantity = qty, f_FillPrice = ParseFloat other (str_or_empty payload ''L''),
                f_TransactionCost = ParseFloat other (str_or_empty payload ''n''),
                f_Timestamp = UnixMilli transTime \<rparr>
         else None)"

definition ws_message :: "(string \<Rightarrow> float64) \<Rightarrow> (float64 \<Rightarrow> int) \<Rightarrow> time \<Rightarrow>
    (string \<times> jvalue) list option \<Rightarrow> ws_event" where
  "ws_message other oor now msg =
     (case msg of
        None \<Rightarrow> WsIgnored
      | Some payload \<Rightarrow>
          if map_of payload ''id'' \<noteq> None
          then (case map_of payload ''error'' of Some (JObj _) \<Rightarrow> WsSubscribeError | _ \<Rightarrow> WsSubscribed)
          else if str_field payload ''e'' = Some ''executionReport''
          then (case execution_report other oor now payload of Some f \<Rightarrow> WsFill f | None \<Rightarrow> WsIgnored)
          else WsIgnored)"

text \<open>The bounds of the reconnect backoff.\<close>

abbreviation ws_baseDelay :: duration where "ws_baseDelay \<equiv> 500 * Millisecond"
abbreviation ws_maxDelay :: duration where "ws_maxDelay \<equiv> 60 * Second"

text \<open>The goroutine of \<open>StartUserStream\<close> as a machine. An input is one thing that happens to it:
  \<open>ctx.Done()\<close> seen at the head of the loop, a failed dial, a failed or a successful write of the
  subscription after a successful dial, a message, a failed read. The \<open>bool\<close> says that
  \<open>ctx.Done()\<close> wins the \<open>select\<close> the input leads to; \<open>alive\<close> is the time since the dial.\<close>

datatype ws_input =
    WsDone
  | DialFails float64 bool
  | WriteFails duration float64 bool
  | Dialed time
  | Message time "(string \<times> jvalue) list option" bool
  | ReadFails duration float64 bool

datatype ws_phase = Dialing | Reading | Stopped

record subscribe_request =
  sq_id :: string
  sq_method :: string
  sq_apiKey :: string
  sq_timestamp :: int
  sq_signature :: string

definition subscribeReq :: "(string \<Rightarrow> string \<Rightarrow> string) \<Rightarrow> BinanceConnector \<Rightarrow> time \<Rightarrow> subscribe_request" where
  "subscribeReq hmac bc now =
     (let timestamp = now div Millisecond;
          queryString = ''apiKey='' @ bc_apiKey bc @ ''&timestamp='' @ itoa timestamp
      in \<lparr> sq_id = ''sleipnir-sub-1'', sq_method = ''userDataStream.subscribe.signature'',
           sq_apiKey = bc_apiKey bc, sq_timestamp = timestamp, sq_signature = sign hmac bc queryString \<rparr>)"

record user_stream =
  us_phase :: ws_phase
  us_retryDelay :: duration
  us_pauses :: "duration list"
  us_subscribed :: "subscribe_request list"
  us_fills :: "ExecutionFill list"
  us_drops :: nat
  us_connected :: bool

definition us_start :: user_stream where
  "us_start = \<lparr> us_phase = Dialing, us_retryDelay = ws_baseDelay, us_pauses = [], us_subscribed = [],
     us_fills = [], us_drops = 0, us_connected = False \<rparr>"

text \<open>A lost connection: the gauge and the counter, the pause (which \<open>ctx.Done()\<close> may end), the
  next delay. The delay in force is given: a connection that lived for more than 30 s resets it.\<close>

definition ws_lost :: "(float64 \<Rightarrow> int) \<Rightarrow> float64 \<Rightarrow> bool \<Rightarrow> duration \<Rightarrow> user_stream \<Rightarrow> user_stream" where
  "ws_lost oor r done retryDelay st =
     st\<lparr> us_drops := Suc (us_drops st), us_connected := False,
         us_pauses := us_pauses st @ [jitter_pause oor ws_maxDelay r retryDelay],
         us_retryDelay := (if done then retryDelay else next_delay oor ws_maxDelay retryDelay),
         us_phase := (if done then Stopped else Dialing) \<rparr>"

definition ws_deliver :: "ws_event \<Rightarrow> bool \<Rightarrow> user_stream \<Rightarrow> user_stream" where
  "ws_deliver ev done st = (case ev of
     WsIgnored \<Rightarrow> st
   | WsSubscribeError \<Rightarrow> st
   | WsSubscribed \<Rightarrow> st\<lparr> us_connected := True \<rparr>
   | WsFill f \<Rightarrow> if done then st\<lparr> us_phase := Stopped \<rparr> else st\<lparr> us_fills := us_fills st @ [f] \<rparr>)"

text \<open>One step; \<open>None\<close> for an input that cannot happen in the phase.\<close>

fun ws_step :: "'h world \<Rightarrow> (float64 \<Rightarrow> int) \<Rightarrow> BinanceConnector \<Rightarrow> ws_phase \<Rightarrow> ws_input \<Rightarrow> user_stream \<Rightarrow>
    user_stream option" where
  "ws_step W oor bc Dialing WsDone st = Some (st\<lparr> us_phase := Stopped \<rparr>)"
| "ws_step W oor bc Dialing (DialFails r done) st = Some (ws_lost oor r done (us_retryDelay st) st)"
| "ws_step W oor bc Dialing (WriteFails alive r done) st =
     Some (ws_lost oor r done (stable_reset ws_baseDelay alive (us_retryDelay st)) st)"
| "ws_step W oor bc Dialing (Dialed now) st =
     Some (st\<lparr> us_phase := Reading, us_subscribed := us_subscribed st @ [subscribeReq (w_hmac W) bc now] \<rparr>)"
| "ws_step W oor bc Reading (Message now msg done) st =
     Some (ws_deliver (ws_message (w_parseOther W) oor now msg) done st)"
| "ws_step W oor bc Reading (ReadFails alive r done) st =
     Some (ws_lost oor r done (stable_reset ws_baseDelay alive (us_retryDelay st)) st)"
| "ws_step W oor bc _ _ st = None"

fun StartUserStream :: "'h world \<Rightarrow> (float64 \<Rightarrow> int) \<Rightarrow> BinanceConnector \<Rightarrow> ws_input list \<Rightarrow> user_stream \<Rightarrow>
    user_stream option" where
  "StartUserStream W oor bc [] st = Some st"
| "StartUserStream W oor bc (i # is) st =
     (case ws_step W oor bc (us_phase st) i st of
        None \<Rightarrow> None
      | Some st' \<Rightarrow> StartUserStream W oor bc is st')"

section \<open>Runs of the user-data stream\<close>

lemma StartUserStream_append:
  "StartUserStream W oor bc (is @ js) st =
     (case StartUserStream W oor bc is st of None \<Rightarrow> None | Some st' \<Rightarrow> StartUserStream W oor bc js st')"
  by (induction "is" arbitrary: st) (auto split: option.splits)

text \<open>Whatever a step keeps, a run keeps.\<close>

lemma StartUserStream_invariant:
  assumes "StartUserStream W oor bc is st = Some st'" "P st"
    and "\<And>i s s'. i \<in> set is \<Longrightarrow> P s \<Longrightarrow> ws_step W oor bc (us_phase s) i s = Some s' \<Longrightarrow> P s'"
  shows "P st'"
  using assms
proof (induction "is" arbitrary: st)
  case (Cons i "is")
  from Cons.prems(1) obtain s where s: "ws_step W oor bc (us_phase st) i st = Some s"
      "StartUserStream W oor bc is s = Some st'" by (auto split: option.splits)
  show ?case using Cons.IH [OF s(2)] Cons.prems(2,3) s(1) by (meson list.set_intros)
qed simp

interpretation ws: backoff ws_baseDelay ws_maxDelay
  by unfold_locales simp_all

fun input_random_ok :: "ws_input \<Rightarrow> bool" where
  "input_random_ok (DialFails r _) = unit_random r"
| "input_random_ok (WriteFails _ r _) = unit_random r"
| "input_random_ok (ReadFails _ r _) = unit_random r"
| "input_random_ok _ = True"

definition stream_ok :: "user_stream \<Rightarrow> bool" where
  "stream_ok st = (ws_baseDelay \<le> us_retryDelay st \<and> us_retryDelay st \<le> ws_maxDelay \<and>
     list_all (\<lambda>p. 7 * ws_baseDelay div 8 \<le> p \<and> p \<le> ws_maxDelay) (us_pauses st) \<and>
     (us_connected st \<longrightarrow> us_phase st \<noteq> Dialing))"

lemma ws_lost_ok:
  assumes "stream_ok st" "unit_random r" "ws_baseDelay \<le> d" "d \<le> ws_maxDelay"
  shows "stream_ok (ws_lost oor r done d st)"
  using assms ws.pause_in_range [OF assms(2,3,4), of oor] ws.next_in_range [OF assms(3,4), of oor]
  by (auto simp: stream_ok_def ws_lost_def)

lemma ws_deliver_ok: "stream_ok st \<Longrightarrow> us_phase st = Reading \<Longrightarrow> stream_ok (ws_deliver ev done st)"
  by (cases ev) (auto simp: stream_ok_def ws_deliver_def)

lemma ws_step_ok:
  assumes "stream_ok s" "input_random_ok i" "ws_step W oor bc (us_phase s) i s = Some s'"
  shows "stream_ok s'"
proof -
  have range: "ws_baseDelay \<le> us_retryDelay s" "us_retryDelay s \<le> ws_maxDelay"
    using assms(1) by (simp_all add: stream_ok_def)
  show ?thesis using assms range ws.reset_in_range [OF range]
    by (cases "us_phase s"; cases i) (auto intro!: ws_lost_ok ws_deliver_ok, auto simp: stream_ok_def)
qed

lemma failed_dials:
  "StartUserStream W oor bc (map (\<lambda>r. DialFails r False) rs) st = Some st' \<Longrightarrow>
     us_retryDelay st' = (next_delay oor ws_maxDelay ^^ length rs) (us_retryDelay st)"
proof (induction rs arbitrary: st)
  case (Cons r rs)
  have ph: "us_phase st = Dialing" using Cons.prems by (cases "us_phase st") auto
  then show ?case
    using Cons.IH [of "ws_lost oor r False (us_retryDelay st) st"] Cons.prems
    by (simp add: ws_lost_def funpow_Suc_right del: funpow.simps)
qed simp

text \<open>The fill an input carries to the channel.\<close>

fun delivered_fill :: "'h world \<Rightarrow> (float64 \<Rightarrow> int) \<Rightarrow> ws_input \<Rightarrow> ExecutionFill option" where
  "delivered_fill W oor (Message now msg done) =
     (if done then None
      else case ws_message (w_parseOther W) oor now msg of WsFill f \<Rightarrow> Some f | _ \<Rightarrow> None)"
| "delivered_fill W oor _ = None"

lemma ws_step_fills:
  "ws_step W oor bc (us_phase s) i s = Some s' \<Longrightarrow>
     us_fills s' = us_fills s @ (case delivered_fill W oor i of None \<Rightarrow> [] | Some f \<Rightarrow> [f])"
  by (cases "us_phase s"; cases i; cases "delivered_fill W oor i")
     (auto simp: ws_lost_def ws_deliver_def split: ws_event.splits if_splits bool.splits)

lemma StartUserStream_fills:
  "StartUserStream W oor bc is st = Some st' \<Longrightarrow>
     us_fills st' = us_fills st @ List.map_filter (delivered_fill W oor) is"
proof (induction "is" arbitrary: st)
  case (Cons i "is")
  from Cons.prems obtain s where s: "ws_step W oor bc (us_phase st) i st = Some s"
      "StartUserStream W oor bc is s = Some st'" by (auto split: option.splits)
  show ?case using Cons.IH [OF s(2)] ws_step_fills [OF s(1)]
    by (auto simp: List.map_filter_simps split: option.splits)
qed (simp add: List.map_filter_simps)

lemma execution_report_positive:
  "execution_report other oor now payload = Some f \<Longrightarrow> float_gt (f_Quantity f) (Fin 0)"
  by (auto simp: execution_report_def Let_def split: if_splits)

lemma delivered_fill_positive:
  "delivered_fill W oor i = Some f \<Longrightarrow> float_gt (f_Quantity f) (Fin 0)"
  by (cases "(W, oor, i)" rule: delivered_fill.cases)
     (auto simp: ws_message_def dest: execution_report_positive
           split: ws_event.splits option.splits if_splits jvalue.splits)

section \<open>Query strings\<close>

text \<open>What a server reads from a query string: the pairs between ampersands, split at the equals
  sign and unescaped.\<close>

fun split_on :: "char \<Rightarrow> string \<Rightarrow> string list" where
  "split_on c [] = [[]]"
| "split_on c (x # xs) =
     (if x = c then [] # split_on c xs
      else case split_on c xs of [] \<Rightarrow> [[x]] | w # ws \<Rightarrow> (x # w) # ws)"

definition hex_value :: "char \<Rightarrow> nat" where
  "hex_value c = (let n = of_char c in if n < 58 then n - 48 else n - 55)"

fun unescape :: "string \<Rightarrow> string" where
  "unescape [] = []"
| "unescape (c # cs) =
     (if c = CHR ''+'' then CHR '' '' # unescape cs
      else if c = CHR ''%''
      then (case cs of a # b # cs' \<Rightarrow> char_of (16 * hex_value a + hex_value b) # unescape cs' | _ \<Rightarrow> [])
      else c # unescape cs)"

definition query_decode :: "string \<Rightarrow> url_values" where
  "query_decode q = map (\<lambda>w. case split_at (CHR ''='') w of
     (k, v) \<Rightarrow> (unescape k, unescape (case v of None \<Rightarrow> '''' | Some t \<Rightarrow> t))) (split_on (CHR ''&'') q)"

lemma split_on_none: "c \<notin> set w \<Longrightarrow> split_on c w = [w]"
  by (induction w) auto

lemma split_on_append: "c \<notin> set w \<Longrightarrow> split_on c (w @ c # s) = w # split_on c s"
  by (induction w) auto

lemma hex_value_digit [simp]: "d < 16 \<Longrightarrow> hex_value (hex_digit d) = d"
  by (auto simp: hex_value_def hex_digit_def of_char_of Let_def)

lemma hex_digit_plain: "d < 16 \<Longrightarrow> hex_digit d \<noteq> CHR ''&'' \<and> hex_digit d \<noteq> CHR ''=''"
proof -
  assume "d < 16"
  then have "(of_char (hex_digit d) :: nat) = (if d < 10 then 48 + d else 55 + d)"
    by (simp add: hex_digit_def of_char_of)
  then have "(of_char (hex_digit d) :: nat) \<noteq> of_char (CHR ''&'') \<and> (of_char (hex_digit d) :: nat) \<noteq> of_char (CHR ''='')"
    using \<open>d < 16\<close> by (auto split: if_splits)
  then show ?thesis by auto
qed

lemma of_char_split: "of_char c div 16 < (16::nat)"
  using of_char_mod_256 [of c, where 'a = nat] mod_less_divisor [of 256 "of_char c :: nat"]
  by (simp add: less_mult_imp_div_less)

lemma unescape_escape_char: "unescape (escape_char c @ s) = c # unescape s"
proof -
  have inv: "char_of (16 * (of_char c div 16) + of_char c mod (16::nat)) = c"
    by (metis char_of_char mult_div_mod_eq)
  have "escape_char c = [c] \<and> c \<noteq> CHR ''+'' \<and> c \<noteq> CHR ''%'' \<or> c = CHR '' '' \<and> escape_char c = ''+'' \<or>
      escape_char c = [CHR ''%'', hex_digit (of_char c div 16), hex_digit (of_char c mod 16)]"
    by (auto simp: escape_char_def Let_def)
  then show ?thesis using of_char_split [of c] inv by (elim disjE conjE) simp_all
qed

lemma unescape_QueryEscape [simp]: "unescape (QueryEscape s) = s"
  by (induction s) (simp_all add: QueryEscape_def unescape_escape_char)

lemma QueryEscape_plain: "CHR ''&'' \<notin> set (QueryEscape s)" "CHR ''='' \<notin> set (QueryEscape s)"
proof -
  have "CHR ''&'' \<notin> set (escape_char c) \<and> CHR ''='' \<notin> set (escape_char c)" for c
    using hex_digit_plain [of "of_char c div 16"] hex_digit_plain [of "of_char c mod 16"] of_char_split [of c]
    by (auto simp: escape_char_def Let_def)
  then show "CHR ''&'' \<notin> set (QueryEscape s)" "CHR ''='' \<notin> set (QueryEscape s)"
    by (auto simp: QueryEscape_def)
qed

lemma split_on_join_amp:
  "ws \<noteq> [] \<Longrightarrow> \<forall>w\<in>set ws. CHR ''&'' \<notin> set w \<Longrightarrow> split_on (CHR ''&'') (join_amp ws) = ws"
proof (induction ws rule: join_amp.induct)
  case (3 s v va)
  then show ?case using split_on_append [of "CHR ''&''" s "join_amp (v # va)"] by simp
qed (simp_all add: split_on_none)

lemma query_decode_url_Encode:
  assumes "vs \<noteq> []"
  shows "query_decode (url_Encode vs) = sort_key fst vs"
proof -
  let ?enc = "\<lambda>(k, v). QueryEscape k @ ''='' @ QueryEscape v"
  have "split_on (CHR ''&'') (url_Encode vs) = map ?enc (sort_key fst vs)"
    unfolding url_Encode_def using assms QueryEscape_plain(1)
    by (intro split_on_join_amp) (auto dest!: arg_cong [of _ _ length])
  then show ?thesis using QueryEscape_plain(2)
    by (auto simp: query_decode_def split_at_append comp_def case_prod_beta intro!: map_idI)
qed

section \<open>Decimal text\<close>

lemma digits_value_append:
  "digits_value (s @ t) = digits_value s * 10 ^ length t + digits_value t"
proof (induction t rule: rev_induct)
  case (snoc c t)
  have "digits_value (u @ [c]) = 10 * digits_value u + (of_char c - 48)" for u
    by (simp add: digits_value_def)
  from this [of "s @ t"] this [of t] snoc show ?case by (simp add: algebra_simps)
qed (simp add: digits_value_def)

lemma digits_value_zeros [simp]: "digits_value (replicate n (CHR ''0'')) = 0"
  by (induction n) (simp_all add: digits_value_def)

lemma length_nat_digits: "n < 10 ^ k \<Longrightarrow> 0 < k \<Longrightarrow> length (nat_digits n) \<le> k"
proof (induction n arbitrary: k rule: nat_digits.induct)
  case (1 n)
  show ?case
  proof (cases "n < 10")
    case True
    then show ?thesis using 1(3) by (subst nat_digits.simps) simp
  next
    case False
    with 1(2) obtain j where k: "k = Suc j" "0 < j"
      by (cases k; cases "k - 1") auto
    then have "length (nat_digits (n div 10)) \<le> j" using 1 False by (simp add: less_mult_imp_div_less)
    then show ?thesis using False k by (subst nat_digits.simps) simp
  qed
qed

lemma parse_digits:
  assumes "list_all is_digit ip" "list_all is_digit fp" "ip \<noteq> []"
  shows "parse_decimal ((if neg then ''-'' else '''') @ ip @ ''.'' @ fp) =
           Some ((if neg then - 1 else 1) * of_nat (digits_value (ip @ fp)) / 10 ^ length fp)"
proof -
  have "CHR ''-'' \<notin> set ip" "CHR ''.'' \<notin> set ip"
    using assms(1) by (auto simp: list_all_iff is_digit_def)
  then show ?thesis using assms split_at_append [of "CHR ''.''" ip fp]
    by (cases ip) (auto simp: parse_decimal_def HasPrefix_def Let_def)
qed

lemma parse_format_fixed:
  assumes "0 < prec"
  shows "\<exists>p. parse_decimal (format_fixed prec q) = Some p \<and> \<bar>p - q\<bar> \<le> 1 / (2 * 10 ^ prec)"
proof -
  define m where "m = nat (rne (\<bar>q\<bar> * 10 ^ prec))"
  let ?fp = "pad_zeros prec (nat_digits (m mod 10 ^ prec))"
  have len: "length ?fp = prec"
    using length_nat_digits [of "m mod 10 ^ prec" prec] assms by (simp add: pad_zeros_def)
  have dig: "list_all is_digit (nat_digits n)" "is_digit (CHR ''0'')" for n
    using nat_digits_all_digits by (auto simp: list_all_iff is_digit_def)
  have "digits_value (nat_digits (m div 10 ^ prec) @ ?fp) = m"
    unfolding digits_value_append len by (simp add: pad_zeros_def digits_value_append div_mult_mod_eq)
  moreover have "list_all is_digit ?fp" using dig by (auto simp: pad_zeros_def list_all_iff)
  ultimately have p: "parse_decimal (format_fixed prec q) =
      Some ((if q < 0 then - 1 else 1) * of_nat m / 10 ^ prec)"
    using parse_digits [OF dig(1) _ nat_digits_not_Nil, of ?fp "q < 0"] assms len
    by (simp add: format_fixed_def Let_def m_def [symmetric])
  have "0 \<le> rne (\<bar>q\<bar> * 10 ^ prec)" using rne_ge_int [of 0 "\<bar>q\<bar> * 10 ^ prec"] by simp
  then have "(of_nat m :: rat) = of_int (rne (\<bar>q\<bar> * 10 ^ prec))" by (simp add: m_def)
  then have "\<bar>of_nat m - \<bar>q\<bar> * 10 ^ prec\<bar> \<le> 1 / 2" using rne_error [of "\<bar>q\<bar> * 10 ^ prec"] by simp
  then have "\<bar>of_nat m - \<bar>q\<bar> * 10 ^ prec\<bar> / 10 ^ prec \<le> 1 / 2 / 10 ^ prec"
    by (rule divide_right_mono) simp
  moreover have "of_nat m / 10 ^ prec - \<bar>q\<bar> = (of_nat m - \<bar>q\<bar> * 10 ^ prec) / 10 ^ prec"
    by (simp add: diff_divide_distrib)
  ultimately have "\<bar>of_nat m / 10 ^ prec - \<bar>q\<bar>\<bar> \<le> 1 / (2 * 10 ^ prec)" by simp
  then show ?thesis using p by (auto simp: abs_if split: if_splits)
qed

section \<open>Properties\<close>

text \<open>An instrument or asset name in capitals: ASCII without dashes and lower-case letters.\<close>

definition capital_name :: "string \<Rightarrow> bool" where
  "capital_name s = list_all (\<lambda>c. (of_char c :: nat) < 128 \<and> c \<noteq> CHR ''-'' \<and> upper_char c = c) s"

lemma capital_name_append [simp]: "capital_name (s @ t) \<longleftrightarrow> capital_name s \<and> capital_name t"
  by (simp add: capital_name_def)

lemma capital_name_literals [simp]: "capital_name ''USD''" "capital_name ''USDT''" "capital_name ''BUSD''"
  by (simp_all add: capital_name_def upper_char_def)

lemma ToUpper_capital: "capital_name s \<Longrightarrow> ToUpper uni s = s"
  by (auto simp: capital_name_def ToUpper_def is_ascii_def list_all_iff intro: map_idI)

lemma remove_dashes_capital: "capital_name s \<Longrightarrow> remove_dashes s = s"
  by (simp add: capital_name_def remove_dashes_def list_all_iff filter_id_conv)

lemma remove_dashes_append [simp]: "remove_dashes (s @ t) = remove_dashes s @ remove_dashes t"
  by (simp add: remove_dashes_def)

lemma TranslateToExchange_capital:
  "capital_name s \<Longrightarrow> TranslateToExchange uni (s @ ''-USD'') = s @ ''USDT''"
  "capital_name s \<Longrightarrow> TranslateToExchange uni s = (if HasSuffix s ''USD'' then s @ ''T'' else s)"
proof -
  assume s: "capital_name s"
  have "remove_dashes ''-USD'' = ''USD''" by (simp add: remove_dashes_def)
  then show "TranslateToExchange uni (s @ ''-USD'') = s @ ''USDT''"
    using s by (simp add: TranslateToExchange_def remove_dashes_capital ToUpper_capital)
  show "TranslateToExchange uni s = (if HasSuffix s ''USD'' then s @ ''T'' else s)"
    using s by (simp add: TranslateToExchange_def remove_dashes_capital ToUpper_capital)
qed

lemma not_HasSuffix_USDT_BUSD [simp]: "\<not> HasSuffix (s @ ''BUSD'') ''USDT''"
  by (simp add: HasSuffix_def)

text \<open>The translation of symbols. For an asset name in capitals a downstream instrument
  \<open>X-USD\<close> survives the way to the exchange and back, and a Tether market \<open>XUSDT\<close> survives the way
  downstream and back. A market \<open>XBUSD\<close> does not: its fills are reported for \<open>X-USD\<close>, which is
  traded as \<open>XUSDT\<close>; and an instrument written \<open>X-USDT\<close> is reported as \<open>X-USD\<close>.\<close>

theorem symbol_round_trip:
  assumes "capital_name s"
  shows "TranslateToDownstream (TranslateToExchange uni (s @ ''-USD'')) = s @ ''-USD''"
    and "TranslateToExchange uni (TranslateToDownstream (s @ ''USDT'')) = s @ ''USDT''"
    and "TranslateToExchange uni (TranslateToDownstream (s @ ''BUSD'')) = s @ ''USDT''"
    and "TranslateToDownstream (TranslateToExchange uni (s @ ''-USDT'')) = s @ ''-USD''"
proof -
  have "remove_dashes ''-USDT'' = ''USDT''" by (simp add: remove_dashes_def)
  then have "TranslateToExchange uni (s @ ''-USDT'') = s @ ''USDT''"
    using assms by (simp add: TranslateToExchange_def remove_dashes_capital ToUpper_capital HasSuffix_def)
  then show "TranslateToDownstream (TranslateToExchange uni (s @ ''-USDT'')) = s @ ''-USD''"
    by (simp add: TranslateToDownstream_def)
qed (use assms in \<open>simp_all add: TranslateToExchange_capital TranslateToDownstream_def\<close>)

theorem symbol_round_trip_witness:
  "capital_name ''BTC'' \<and>
   TranslateToDownstream (TranslateToExchange id (''BTC'' @ ''-USD'')) = ''BTC'' @ ''-USD''"
  using symbol_round_trip(1) [of "''BTC''" id] by (simp add: capital_name_def upper_char_def)

lemma map_of_sort_key: "distinct (map fst vs) \<Longrightarrow> map_of (sort_key fst vs) = map_of vs"
proof -
  assume d: "distinct (map fst vs)"
  have "distinct (map fst (sort_key fst vs))"
    using d by (simp add: distinct_map distinct_sort)
  with d show ?thesis by (intro map_of_eqI) (force simp: map_of_eq_Some_iff)+
qed

definition stamped :: "time \<Rightarrow> url_values \<Rightarrow> url_values" where
  "stamped now params =
     AList.update ''recvWindow'' ''5000'' (AList.update ''timestamp'' (itoa (now div Millisecond)) params)"

lemma newSignedRequest_url:
  assumes "newSignedRequest hmac newReq now bc meth path params = Inr req"
  shows "rq_url req = bc_restURL bc @ path @ ''?'' @ url_Encode (stamped now params) @ ''&signature='' @
           hmac (bc_apiSecret bc) (url_Encode (stamped now params))"
    and "rq_apiKey req = bc_apiKey bc" and "rq_method req = meth"
  using assms by (auto simp: newSignedRequest_def stamped_def sign_def Let_def split: option.splits)

lemma decode_stamped:
  assumes "distinct (map fst params)"
  shows "map_of (query_decode (url_Encode (stamped now params))) =
           (map_of params)(''timestamp'' \<mapsto> itoa (now div Millisecond), ''recvWindow'' \<mapsto> ''5000'')"
proof -
  have "stamped now params \<noteq> []" "distinct (map fst (stamped now params))"
    using assms by (auto simp: stamped_def distinct_update dest: arg_cong [of _ _ "\<lambda>l. fst ` set l"] simp: dom_update)
  then show ?thesis by (simp add: query_decode_url_Encode map_of_sort_key stamped_def update_conv')
qed

text \<open>C27. What the exchange is asked to do. The URL of a signed order request carries a query
  string together with the keyed hash of exactly that string, and a server that decodes the
  query reads the order: its client id, its translated symbol, its side and type, its quantity
  to within half of \<open>10^-8\<close>, and, for a limit order only, its price to within half a cent.\<close>

theorem order_request_carries_order:
  assumes "newSignedRequest (w_hmac W) (w_newRequest W) now bc ''POST'' path (order_params W order) = Inr req"
    and "o_Quantity order = Fin qty" and "o_Price order = Fin price"
  shows "\<exists>q. rq_url req = bc_restURL bc @ path @ ''?'' @ q @ ''&signature='' @ w_hmac W (bc_apiSecret bc) q \<and>
    map_of (query_decode q) ''newClientOrderId'' = Some (o_OrderID order) \<and>
    map_of (query_decode q) ''symbol'' = Some (TranslateToExchange (w_uni W) (o_Instrument order)) \<and>
    map_of (query_decode q) ''side'' = Some (o_Side order) \<and>
    map_of (query_decode q) ''type'' = Some (o_Type order) \<and>
    (\<exists>x. Option.bind (map_of (query_decode q) ''quantity'') parse_decimal = Some x \<and> \<bar>x - qty\<bar> \<le> 1 / (2 * 10 ^ 8)) \<and>
    (if o_Type order = TypeLimit
     then \<exists>x. Option.bind (map_of (query_decode q) ''price'') parse_decimal = Some x \<and> \<bar>x - price\<bar> \<le> 1 / 200
     else map_of (query_decode q) ''price'' = None)"
proof -
  let ?q = "url_Encode (stamped now (order_params W order))"
  have "distinct (map fst (order_params W order))" by (auto simp: order_params_def)
  note dec = decode_stamped [OF this, of now]
  have "rq_url req = bc_restURL bc @ path @ ''?'' @ ?q @ ''&signature='' @ w_hmac W (bc_apiSecret bc) ?q"
    by (rule newSignedRequest_url(1) [OF assms(1)])
  moreover have "map_of (query_decode ?q) ''newClientOrderId'' = Some (o_OrderID order)"
       "map_of (query_decode ?q) ''symbol'' = Some (TranslateToExchange (w_uni W) (o_Instrument order))"
       "map_of (query_decode ?q) ''side'' = Some (o_Side order)"
       "map_of (query_decode ?q) ''type'' = Some (o_Type order)"
    unfolding dec by (simp_all add: order_params_def)
  moreover have "\<exists>x. Option.bind (map_of (query_decode ?q) ''quantity'') parse_decimal = Some x \<and> \<bar>x - qty\<bar> \<le> 1 / (2 * 10 ^ 8)"
    using parse_format_fixed [of 8 qty] assms(2) unfolding dec by (simp add: order_params_def FormatFloat_def)
  moreover have "if o_Type order = TypeLimit
     then \<exists>x. Option.bind (map_of (query_decode ?q) ''price'') parse_decimal = Some x \<and> \<bar>x - price\<bar> \<le> 1 / 200
     else map_of (query_decode ?q) ''price'' = None"
    using parse_format_fixed [of 2 price] assms(3) unfolding dec by (simp add: order_params_def FormatFloat_def)
  ultimately show ?thesis by (intro exI [of _ ?q] conjI)
qed

text \<open>A world for the concrete runs: an exchange that fills every order it can decode, and
  answers with the client id it read from the query. The connector talks to it at an empty
  base URL with an empty key, and the keyed hash is empty.\<close>

definition bn_demo_orderResp :: "string \<Rightarrow> goerror + OrderResp" where
  "bn_demo_orderResp body =
     (case map_of (query_decode (drop 14 body)) ''newClientOrderId'' of
        None \<Rightarrow> Inl ''no client id''
      | Some cid \<Rightarrow> Inr \<lparr> or_Symbol = ''BTCUSDT'', or_OrderID = 7, or_ClientOrderID = cid, or_TransactTime = 5,
          or_Price = ''0.00'', or_OrigQty = ''1'', or_ExecutedQty = ''1'', or_CummulativeQuoteQty = ''20'',
          or_Status = ''FILLED'', or_FillCommissions = [''0''] \<rparr>)"

definition bn_demo_world :: "unit world" where
  "bn_demo_world = \<lparr> w_uni = id, w_parseOther = (\<lambda>_. Fin 0), w_hmac = (\<lambda>_ _. ''''), w_newRequest = (\<lambda>_. None),
     w_http = (\<lambda>c req h. (HttpResponse 200 (rq_url req), h)), w_orderResp = bn_demo_orderResp,
     w_statusResp = (\<lambda>_. Inl ''none'') \<rparr>"

definition bn_demo_bc :: BinanceConnector where
  "bn_demo_bc = NewBinanceConnector '''' '''' '''' ''''"

definition bn_demo_order :: Order where
  "bn_demo_order = \<lparr> o_OrderID = ''o1'', o_Instrument = ''BTC-USD'', o_Side = SideBuy, o_Quantity = Fin 1,
     o_Price = Fin 20, o_Type = TypeLimit \<rparr>"

definition bn_demo_call :: call where
  "bn_demo_call = \<lparr> c_now = 0, c_done = False, c_ok = True, c_err = '''', c_rows = None, c_send = (\<lambda>_. Sent) \<rparr>"

lemma bn_demo_bc_restURL [simp]: "bc_restURL bn_demo_bc = ''''"
  by (simp add: bn_demo_bc_def NewBinanceConnector_def TrimSuffix_def HasSuffix_def)

lemma split_on_not_Nil [simp]: "split_on c s \<noteq> []"
  by (cases s) (auto split: list.splits)

lemma split_on_append_sep: "split_on c (s @ c # t) = split_on c s @ split_on c t"
  by (induction s) (auto split: list.splits)

lemma query_decode_signature:
  "query_decode (q @ ''&signature='') = query_decode q @ [(''signature'', '''')]"
  using split_on_append_sep [of "CHR ''&''" q "''signature=''"]
  by (simp add: query_decode_def split_at_def)

lemma bn_demo_answer:
  "bn_demo_orderResp (''/api/v3/order?'' @ q @ ''&signature='') = Inr r \<Longrightarrow>
     map_of (query_decode q) ''newClientOrderId'' = Some (or_ClientOrderID r)"
  by (auto simp: bn_demo_orderResp_def query_decode_signature map_add_def split: option.splits if_splits)

theorem order_request_carries_order_witness:
  "\<exists>req q. newSignedRequest (w_hmac bn_demo_world) (w_newRequest bn_demo_world) 0 bn_demo_bc ''POST'' ''/api/v3/order''
       (order_params bn_demo_world bn_demo_order) = Inr req \<and>
     rq_url req = ''/api/v3/order?'' @ q @ ''&signature='' \<and>
     map_of (query_decode q) ''newClientOrderId'' = Some ''o1''"
proof -
  obtain req where r: "newSignedRequest (w_hmac bn_demo_world) (w_newRequest bn_demo_world) 0 bn_demo_bc ''POST'' ''/api/v3/order''
       (order_params bn_demo_world bn_demo_order) = Inr req"
    by (simp add: newSignedRequest_def bn_demo_world_def Let_def)
  have "o_Quantity bn_demo_order = Fin 1" "o_Price bn_demo_order = Fin 20" by (simp_all add: bn_demo_order_def)
  from order_request_carries_order [OF r this] r show ?thesis
    by (fastforce simp: bn_demo_order_def bn_demo_world_def)
qed

lemma SubmitOrder_binance_cases:
  assumes "SubmitOrder (binance W bc) c ord h = (Inr fill, h')"
  obtains req body r where
    "newSignedRequest (w_hmac W) (w_newRequest W) (c_now c) bc ''POST'' ''/api/v3/order'' (order_params W ord) = Inr req"
    "w_http W c req h = (HttpResponse 200 body, h')" "w_orderResp W body = Inr r" "fill = submit_fill W ord r"
  using assms
  by (auto simp: binance_def binance_SubmitOrder_def send_signed_def
           split: sum.splits prod.splits http_result.splits if_splits)

text \<open>An exchange that answers an accepted order request with the client id it read from the query.\<close>

definition honest_exchange :: "'h world \<Rightarrow> BinanceConnector \<Rightarrow> bool" where
  "honest_exchange W bc \<longleftrightarrow> (\<forall>c req h body h' r q.
     w_http W c req h = (HttpResponse 200 body, h') \<longrightarrow> w_orderResp W body = Inr r \<longrightarrow>
     rq_url req = bc_restURL bc @ ''/api/v3/order'' @ ''?'' @ q @ ''&signature='' @ w_hmac W (bc_apiSecret bc) q \<longrightarrow>
     map_of (query_decode q) ''newClientOrderId'' = Some (or_ClientOrderID r))"

lemma echoed_id:
  assumes "honest_exchange W bc"
    and "SubmitOrder (binance W bc) c ord h = (Inr fill, h')"
  shows "f_OrderID fill = o_OrderID ord"
  using assms(2)
proof (cases rule: SubmitOrder_binance_cases)
  case (1 req body r)
  have "distinct (map fst (order_params W ord))" by (auto simp: order_params_def)
  then show ?thesis
    using assms(1) [unfolded honest_exchange_def, rule_format, OF 1(2,3) newSignedRequest_url(1) [OF 1(1)]] 1(4)
    by (simp add: decode_stamped submit_fill_def) (simp add: order_params_def)
qed


lemma bn_demo_world_honest: "honest_exchange bn_demo_world bn_demo_bc"
  unfolding honest_exchange_def by (auto simp: bn_demo_world_def intro!: bn_demo_answer)

lemma bn_demo_submit: "\<exists>fill. SubmitOrder (binance bn_demo_world bn_demo_bc) bn_demo_call bn_demo_order () = (Inr fill, ())"
proof -
  let ?q = "url_Encode (stamped 0 (order_params bn_demo_world bn_demo_order))"
  have "distinct (map fst (order_params bn_demo_world bn_demo_order))" by (auto simp: order_params_def)
  from decode_stamped [OF this, of 0] obtain cid where
    "map_of (query_decode (?q @ ''&signature='')) ''newClientOrderId'' = Some cid"
    by (auto simp: query_decode_signature map_add_def order_params_def)
  then obtain r where "bn_demo_orderResp (''/api/v3/order?'' @ ?q @ ''&signature='') = Inr r"
    by (simp add: bn_demo_orderResp_def)
  then show ?thesis
    by (simp add: binance_def binance_SubmitOrder_def send_signed_def newSignedRequest_def sign_def Let_def
          stamped_def bn_demo_call_def) (simp add: bn_demo_world_def)
qed


lemma execution_ids_differ: "rest_execution_id cid oid \<noteq> ws_execution_id cid tid tt l"
  by (simp add: rest_execution_id_def ws_execution_id_def)

lemma execution_report_id:
  "execution_report other oor now payload = Some g \<Longrightarrow>
     \<exists>tid tt l. f_ExecutionID g = ws_execution_id (f_OrderID g) tid tt l"
  by (auto simp: execution_report_def Let_def split: if_splits; (rule exI)+; rule refl)

text \<open>Two ids for one execution. The fill that \<open>SubmitOrder\<close> returns and a fill that the
  user-data stream delivers for the same order never carry the same execution id, so a consumer
  that removes duplicates by execution id keeps both when the exchange reports an immediate
  execution on both ways.\<close>

theorem rest_and_stream_ids_differ:
  assumes "binance_SubmitOrder W bc c order h = (Inr f, h')"
    and "delivered_fill W oor i = Some g" and "f_OrderID f = f_OrderID g"
  shows "f_ExecutionID f \<noteq> f_ExecutionID g"
proof -
  obtain r where f: "f = submit_fill W order r"
    using assms(1) SubmitOrder_binance_cases [of W bc c order h f h'] by (auto simp: binance_def)
  obtain now payload where "execution_report (w_parseOther W) oor now payload = Some g"
    using assms(2) by (cases i) (auto simp: ws_message_def split: ws_event.splits option.splits if_splits jvalue.splits)
  then obtain tid tt l where "f_ExecutionID g = ws_execution_id (f_OrderID g) tid tt l"
    using execution_report_id by blast
  then show ?thesis using f assms(3) execution_ids_differ by (simp add: submit_fill_def)
qed

text \<open>The concrete stream: the report of one trade of the demo order, and a run around it.\<close>

definition bn_demo_report :: "(string \<times> jvalue) list" where
  "bn_demo_report = [(''e'', JStr ''executionReport''), (''c'', JStr ''o1''), (''s'', JStr ''BTCUSDT''), (''S'', JStr ''BUY''),
     (''x'', JStr ''TRADE''), (''X'', JStr ''FILLED''), (''l'', JStr ''1''), (''L'', JStr ''20''), (''n'', JStr ''0''),
     (''t'', JNum (Fin 3)), (''T'', JNum (Fin 5))]"

definition bn_demo_inputs :: "ws_input list" where
  "bn_demo_inputs = [DialFails (Fin 0) False, Dialed 0, Message 0 (Some [(''id'', JStr ''1'')]) False,
     Message 0 (Some bn_demo_report) False, ReadFails 5 (Fin (1 / 2)) False]"

lemma bn_demo_ParseFloat:
  "ParseFloat other ''1'' = Fin 1" "ParseFloat other ''20'' = Fin 20" "ParseFloat other ''0'' = Fin 0"
proof -
  have "parse_decimal ''1'' = Some 1" "parse_decimal ''20'' = Some 20" "parse_decimal ''0'' = Some 0"
    by (simp_all add: parse_decimal_def HasPrefix_def split_at_def is_digit_def digits_value_def)
  then show "ParseFloat other ''1'' = Fin 1" "ParseFloat other ''20'' = Fin 20" "ParseFloat other ''0'' = Fin 0"
    by (simp_all add: ParseFloat_def float_simps)
qed

lemma bn_demo_delivered:
  "\<exists>g. delivered_fill bn_demo_world oor (Message 0 (Some bn_demo_report) False) = Some g \<and> f_OrderID g = ''o1'' \<and>
     f_Quantity g = Fin 1"
  by (simp add: bn_demo_report_def ws_message_def execution_report_def str_field_def num_field_def bn_demo_ParseFloat Let_def)

theorem rest_and_stream_ids_differ_witness:
  "\<exists>f g. binance_SubmitOrder bn_demo_world bn_demo_bc bn_demo_call bn_demo_order () = (Inr f, ()) \<and>
     delivered_fill bn_demo_world (\<lambda>_. 0) (Message 0 (Some bn_demo_report) False) = Some g \<and>
     f_OrderID f = f_OrderID g \<and> f_ExecutionID f \<noteq> f_ExecutionID g"
proof -
  obtain f where f: "SubmitOrder (binance bn_demo_world bn_demo_bc) bn_demo_call bn_demo_order () = (Inr f, ())"
    using bn_demo_submit by blast

  obtain g where g: "delivered_fill bn_demo_world (\<lambda>_. 0) (Message 0 (Some bn_demo_report) False) = Some g" "f_OrderID g = ''o1''"
    using bn_demo_delivered by blast
  have "f_OrderID f = f_OrderID g" using echoed_id [OF bn_demo_world_honest f] g(2) by (simp add: bn_demo_order_def)
  with f g(1) show ?thesis
    using rest_and_stream_ids_differ [of bn_demo_world bn_demo_bc bn_demo_call bn_demo_order "()" f "()"
        "\<lambda>_. 0" "Message 0 (Some bn_demo_report) False" g]
    by (auto simp: binance_def)
qed


lemma bn_demo_run: "\<exists>st. StartUserStream bn_demo_world (\<lambda>_. 0) bn_demo_bc bn_demo_inputs us_start = Some st"
  by (simp add: bn_demo_inputs_def us_start_def ws_lost_def ws_deliver_def split: ws_event.split)


text \<open>The reconnect backoff. Whatever happens to the connection, the delay stays between half a
  second and a minute, every pause is at least seven eighths of half a second and at most a
  minute, and the gauge never shows a connection while the stream is dialing. After \<open>k\<close> failed
  dials in a row the delay is half a second times \<open>2^k\<close>, capped at a minute.\<close>

theorem stream_backoff:
  assumes "StartUserStream W oor bc is us_start = Some st" and "list_all input_random_ok is"
  shows "ws_baseDelay \<le> us_retryDelay st \<and> us_retryDelay st \<le> ws_maxDelay \<and>
    (\<forall>p\<in>set (us_pauses st). 7 * ws_baseDelay div 8 \<le> p \<and> p \<le> ws_maxDelay) \<and>
    (us_connected st \<longrightarrow> us_phase st \<noteq> Dialing) \<and>
    (\<forall>rs. is = map (\<lambda>r. DialFails r False) rs \<longrightarrow>
       us_retryDelay st = min ws_maxDelay (ws_baseDelay * 2 ^ length rs))"
proof -
  have "stream_ok us_start" by (simp add: stream_ok_def us_start_def)
  then have "stream_ok st"
    using StartUserStream_invariant [OF assms(1), of stream_ok] ws_step_ok assms(2) by (metis list_all_iff)
  moreover have "us_retryDelay st = min ws_maxDelay (ws_baseDelay * 2 ^ length rs)"
    if "is = map (\<lambda>r. DialFails r False) rs" for rs
    using that assms(1) failed_dials [of W oor bc rs us_start st] ws.doublings [of "length rs" oor]
    by (simp add: us_start_def)
  ultimately show ?thesis by (simp add: stream_ok_def list_all_iff)
qed

theorem stream_backoff_witness:
  "\<exists>st. StartUserStream bn_demo_world (\<lambda>_. 0) bn_demo_bc (map (\<lambda>r. DialFails r False) [Fin 0, Fin (1 / 2)]) us_start = Some st \<and>
     us_retryDelay st = 2000 * Millisecond \<and> length (us_pauses st) = 2 \<and> (\<forall>p\<in>set (us_pauses st). p \<le> ws_maxDelay)"
proof -
  let ?is = "map (\<lambda>r. DialFails r False) [Fin 0, Fin (1 / 2)]"
  obtain st where st: "StartUserStream bn_demo_world (\<lambda>_. 0) bn_demo_bc ?is us_start = Some st" "length (us_pauses st) = 2"
    by (simp add: us_start_def ws_lost_def)
  moreover have "list_all input_random_ok ?is" by (simp add: unit_random_def)
  ultimately have b: "\<forall>p\<in>set (us_pauses st). 7 * ws_baseDelay div 8 \<le> p \<and> p \<le> ws_maxDelay"
      "us_retryDelay st = min ws_maxDelay (ws_baseDelay * 2 ^ length [Fin 0, Fin (1 / 2)])"
    using stream_backoff [of bn_demo_world "\<lambda>_. 0" bn_demo_bc ?is st] by blast+
  show ?thesis using st b by (intro exI [of _ st]) simp
qed

end
