(* ===== verification/Boot.thy ===== *)
theory Boot
  imports Admin Reconcile Kafka Binance
begin

text \<open>
  \<open>internal/config/config.go\<close> and the assembly of the program in \<open>main\<close> of
  \<open>cmd/sleipnir/main.go\<close>: the configuration and its validation, the choice of the exchange
  backend, the risk policy, the gateway with its options, and the drain deadline. Every early
  exit of \<open>main\<close> is an error. The reading of the environment into the configuration (package
  \<open>envconfig\<close>), the file system, the YAML package and \<open>time.ParseDuration\<close> are parameters.
\<close>

section \<open>Configuration\<close>

record Config =
  cf_KafkaBrokers :: "string list"
  cf_KafkaIntentsTopic :: string
  cf_KafkaFillsTopic :: string
  cf_KafkaConsumerGroup :: string
  cf_BinanceAPIKey :: string
  cf_BinanceAPISecret :: string
  cf_BinanceRESTURL :: string
  cf_BinanceWSURL :: string
  cf_RateLimitRPS :: float64
  cf_Port :: string
  cf_SubmitTimeout :: duration
  cf_MaxOrderQtyBTC :: float64
  cf_MaxOrderQtyETH :: float64
  cf_MaxDailyOrders :: int
  cf_MaxDailyBuys :: int
  cf_MaxDailySells :: int
  cf_SimFillPrice :: float64
  cf_SimTxCostBps :: float64
  cf_AlgoType :: string
  cf_AlgoSlices :: int
  cf_AlgoDuration :: string
  cf_FeatureStreamEnabled :: bool
  cf_MuninnStreamURL :: string
  cf_MuninnStreamFeature :: string

text \<open>\<open>getenv\<close> is \<open>os.Getenv\<close>, \<open>envconfig\<close> the processing of the environment.\<close>

definition LoadConfig :: "((string \<Rightarrow> string) \<Rightarrow> goerror + Config) \<Rightarrow> (string \<Rightarrow> string) \<Rightarrow> goerror + Config" where
  "LoadConfig envconfig getenv = (case envconfig getenv of
     Inl e \<Rightarrow> Inl (''failed to process environment config: '' @ e)
   | Inr cfg \<Rightarrow>
       if getenv ''EXCHANGE_BACKEND'' \<noteq> ''sim'' \<and> cf_BinanceAPIKey cfg = ''''
       then Inl ''missing BINANCE_API_KEY environment variable''
       else if getenv ''EXCHANGE_BACKEND'' \<noteq> ''sim'' \<and> cf_BinanceAPISecret cfg = ''''
       then Inl ''missing BINANCE_API_SECRET environment variable''
       else Inr cfg)"

section \<open>The components\<close>

text \<open>The connector behind the interface: its configuration and, for the live one, the outside \<open>'h\<close>
  its HTTP client acts on. A call of the interface goes to the connector that was chosen.\<close>

datatype 'h backend = Live BinanceConnector 'h | Sim SimulatorConnector

fun backend_SubmitOrder :: "'h world \<Rightarrow> call \<Rightarrow> Order \<Rightarrow> 'h backend \<Rightarrow> (goerror + ExecutionFill) \<times> 'h backend" where
  "backend_SubmitOrder W c ord (Live bc h) = apsnd (Live bc) (SubmitOrder (binance W bc) c ord h)"
| "backend_SubmitOrder W c ord (Sim s) = apsnd Sim (SubmitOrder simulator c ord s)"

fun backend_CancelOrder :: "'h world \<Rightarrow> call \<Rightarrow> string \<Rightarrow> string \<Rightarrow> 'h backend \<Rightarrow> goerror option \<times> 'h backend" where
  "backend_CancelOrder W c oid inst (Live bc h) = apsnd (Live bc) (CancelOrder (binance W bc) c oid inst h)"
| "backend_CancelOrder W c oid inst (Sim s) = apsnd Sim (CancelOrder simulator c oid inst s)"

fun backend_GetOrderState :: "'h world \<Rightarrow> call \<Rightarrow> string \<Rightarrow> string \<Rightarrow> 'h backend \<Rightarrow>
    (goerror + OrderStatusResult) \<times> 'h backend" where
  "backend_GetOrderState W c oid inst (Live bc h) = apsnd (Live bc) (GetOrderState (binance W bc) c oid inst h)"
| "backend_GetOrderState W c oid inst (Sim s) = apsnd Sim (GetOrderState simulator c oid inst s)"

definition backend_connector :: "'h world \<Rightarrow> 'h backend ExchangeConnector" where
  "backend_connector W = \<lparr> SubmitOrder = backend_SubmitOrder W, CancelOrder = backend_CancelOrder W,
     GetOrderState = backend_GetOrderState W \<rparr>"

definition select_backend :: "(string \<Rightarrow> string) \<Rightarrow> Config \<Rightarrow> 'h \<Rightarrow> goerror + 'h backend" where
  "select_backend getenv cfg h =
     (let b = getenv ''EXCHANGE_BACKEND'' in
      if b = '''' \<or> b = ''binance''
      then Inr (Live (NewBinanceConnector (cf_BinanceAPIKey cfg) (cf_BinanceAPISecret cfg) (cf_BinanceRESTURL cfg) (cf_BinanceWSURL cfg)) h)
      else if b = ''sim''
      then Inr (Sim (NewSimulatorConnector \<lparr> cfg_FillPrice = cf_SimFillPrice cfg, cfg_TransactionCost = Fin 0,
             cfg_TransactionCostBps = cf_SimTxCostBps cfg, cfg_Latency = 0, cfg_AlsoEmitOnWS = False \<rparr>))
      else Inl (''Unknown EXCHANGE_BACKEND: '' @ b))"

definition boot_policy :: "(string \<Rightarrow> string) \<Rightarrow> (string \<Rightarrow> goerror + string) \<Rightarrow> (string \<Rightarrow> goerror + RiskPolicy) \<Rightarrow>
    (string \<Rightarrow> string) \<Rightarrow> Config \<Rightarrow> goerror + RiskPolicy" where
  "boot_policy uni readFile yaml getenv cfg =
     (case LoadRiskPolicy uni readFile yaml (getenv ''RISK_CONFIG_PATH'') of
        Inl e \<Rightarrow> Inl (''Failed to load risk policy: '' @ e)
      | Inr None \<Rightarrow> Inr (NewLegacyRiskPolicy (cf_MaxOrderQtyBTC cfg) (cf_MaxOrderQtyETH cfg))
      | Inr (Some p) \<Rightarrow> Inr p)"

text \<open>The values of the type \<open>Algorithm\<close> other than TWAP and VWAP are rejected when an order is
  executed; \<open>parseDuration\<close> is \<open>time.ParseDuration\<close>.\<close>

definition boot_algo :: "(string \<Rightarrow> goerror + duration) \<Rightarrow> Config \<Rightarrow> goerror + AlgoConfig option" where
  "boot_algo parseDuration cfg =
     (if cf_AlgoType cfg = '''' then Inr None
      else case parseDuration (cf_AlgoDuration cfg) of
        Inl e \<Rightarrow> Inl (''Invalid ALGO_DURATION: '' @ e)
      | Inr d \<Rightarrow> Inr (Some \<lparr> ac_Algorithm = cf_AlgoType cfg, ac_Duration = d, ac_Slices = cf_AlgoSlices cfg,
                             ac_VWAPWeights = None \<rparr>))"

definition drain_timeout :: "(string \<Rightarrow> goerror + duration) \<Rightarrow> (string \<Rightarrow> string) \<Rightarrow> duration" where
  "drain_timeout parseDuration getenv =
     (let v = getenv ''SHUTDOWN_DRAIN_TIMEOUT'' in
      if v = '''' then 8 * Second
      else case parseDuration v of
        Inr d \<Rightarrow> if 0 < d then d else 8 * Second
      | Inl _ \<Rightarrow> 8 * Second)"

definition boot_feed :: "Config \<Rightarrow> (LatestStore \<times> StreamClient) option" where
  "boot_feed cfg =
     (if cf_FeatureStreamEnabled cfg
      then Some (NewLatestStore, NewStreamClient \<lparr> fd_BaseURL = cf_MuninnStreamURL cfg, fd_Feature = cf_MuninnStreamFeature cfg,
                   fd_BaseDelay = 0, fd_MaxDelay = 0 \<rparr>)
      else None)"

definition boot_gateway :: "'m \<Rightarrow> 'p \<Rightarrow> 'x \<Rightarrow> 's OrderTracker \<Rightarrow> TokenBucketLimiter \<Rightarrow> RiskPolicy \<Rightarrow> AlgoConfig option \<Rightarrow>
    Config \<Rightarrow> ('s, 'x, 'p, 'm) Gateway" where
  "boot_gateway consumer producer connector tracker limiter policy algo cfg =
     (let gw = WithSubmitTimeout (cf_SubmitTimeout cfg)
                 (WithDailySideLimits (cf_MaxDailyBuys cfg) (cf_MaxDailySells cfg)
                   (NewGateway consumer producer connector tracker limiter (Some policy) (Some NewHalt) (cf_MaxDailyOrders cfg)))
      in case algo of None \<Rightarrow> gw | Some a \<Rightarrow> WithAlgo a gw)"

section \<open>The start of the program\<close>

text \<open>What the surroundings decide while \<open>main\<close> starts: the environment variables and what the
  packages make of them, the build identity, the creation of the trace exporter, the opening of the database, the clock, the
  preload and the query of the active orders, and the passes of the reconciliation.\<close>

record boot_env =
  be_getenv :: "string \<Rightarrow> string"
  be_envconfig :: "(string \<Rightarrow> string) \<Rightarrow> goerror + Config"
  be_uni :: "string \<Rightarrow> string"
  be_readFile :: "string \<Rightarrow> goerror + string"
  be_yaml :: "string \<Rightarrow> goerror + RiskPolicy"
  be_parseDuration :: "string \<Rightarrow> goerror + duration"
  be_fmtG :: "float64 \<Rightarrow> string"
  be_sod :: "time \<Rightarrow> time"
  be_version :: Info
  be_exporter :: "string \<Rightarrow> goerror option"
  be_resource :: "goerror option"
  be_mkdir :: "goerror option"
  be_open :: "goerror option"
  be_createOk :: bool
  be_migFaults :: "nat \<Rightarrow> mig_fault"
  be_now :: time
  be_preload :: call
  be_query :: call
  be_rec :: "nat \<Rightarrow> rec_env"

text \<open>The state of the tracing package at the start: no propagator and no provider.\<close>

definition otel_default :: otel where
  "otel_default = \<lparr> ot_propagators = [], ot_provider = None \<rparr>"

text \<open>What \<open>main\<close> has built when it serves requests and runs the gateway.\<close>

record ('h, 'p, 'm) program =
  pg_gateway :: "(table, 'h backend, 'p, 'm) Gateway"
  pg_schema :: Schema
  pg_drainTimeout :: duration
  pg_feed :: "(LatestStore \<times> StreamClient) option"
  pg_adminToken :: string
  pg_otel :: otel

text \<open>\<open>main\<close> up to \<open>gw.Start\<close>, in its order: an error ends the process. The database file is its schema
  and the rows of \<open>orders\<close>; \<open>h\<close>, \<open>p\<close> and \<open>m\<close> are the states of the exchange, of the fills producer and
  of the intents consumer.\<close>

definition boot :: "boot_env \<Rightarrow> 'h world \<Rightarrow> 'p FillPublisher \<Rightarrow> Schema \<Rightarrow> table \<Rightarrow> 'h \<Rightarrow> 'p \<Rightarrow> 'm \<Rightarrow>
    goerror + ('h, 'p, 'm) program" where
  "boot be W P sc rows h p m =
     (case LoadConfig (be_envconfig be) (be_getenv be) of Inl e \<Rightarrow> Inl e | Inr cfg \<Rightarrow>
      case tracing_Init (be_getenv be) (be_exporter be) (be_resource be) (vi_Version (be_version be)) otel_default of
        (Inl e, _) \<Rightarrow> Inl e | (Inr shutdown, ot) \<Rightarrow>
      case NewSQLiteOrderStore (be_mkdir be) (be_open be) (be_createOk be) (be_migFaults be) sc of
        (Some e, _) \<Rightarrow> Inl e | (None, sc') \<Rightarrow>
      case select_backend (be_getenv be) cfg h of Inl e \<Rightarrow> Inl e | Inr b \<Rightarrow>
      case boot_reconcile (be_sod be) (backend_connector W) P (be_fmtG be) (be_preload be) (be_query be) (be_rec be) rows (b, p) of
        (b', p', tracker) \<Rightarrow>
      case boot_policy (be_uni be) (be_readFile be) (be_yaml be) (be_getenv be) cfg of Inl e \<Rightarrow> Inl e | Inr policy \<Rightarrow>
      case boot_algo (be_parseDuration be) cfg of Inl e \<Rightarrow> Inl e | Inr algo \<Rightarrow>
        Inr \<lparr> pg_gateway = boot_gateway m p' b' tracker (NewTokenBucketLimiter (be_now be) (cf_RateLimitRPS cfg)) policy algo cfg,
              pg_schema = sc', pg_drainTimeout = drain_timeout (be_parseDuration be) (be_getenv be), pg_feed = boot_feed cfg,
              pg_adminToken = be_getenv be ''SLEIPNIR_ADMIN_TOKEN'', pg_otel = ot \<rparr>)"

text \<open>The collaborators the gateway runs with.\<close>

definition boot_ports :: "(time \<Rightarrow> time) \<Rightarrow> 'h world \<Rightarrow> 'p FillPublisher \<Rightarrow> ('k, 'm) IntentConsumer \<Rightarrow>
    (table, 'h backend, 'p, 'k, 'm) ports" where
  "boot_ports sod W P M = \<lparr> pt_store = sqlite_store sod, pt_connector = backend_connector W, pt_producer = P, pt_consumer = M \<rparr>"

section \<open>The chosen connector\<close>

text \<open>Neither connector turns into the other, and the live one keeps its credentials.\<close>

fun backend_kind :: "'h backend \<Rightarrow> BinanceConnector option" where
  "backend_kind (Live bc h) = Some bc"
| "backend_kind (Sim s) = None"

lemma backend_kind_keeps [simp]:
  "backend_kind (snd (SubmitOrder (backend_connector W) c ord b)) = backend_kind b"
  "backend_kind (snd (GetOrderState (backend_connector W) c oid inst b)) = backend_kind b"
  by (cases b; simp add: backend_connector_def)+

lemma reconcile_order_backend:
  "backend_kind (fst (reconcile_order S (backend_connector W) P fmtG env qs ord (b, p, t))) = backend_kind b"
proof (cases "GetOrderState (backend_connector W) (re_query env) (o_OrderID ord) (o_Instrument ord) b")
  case (Pair r b')
  then have "backend_kind b' = backend_kind b" using backend_kind_keeps(2) by (metis snd_conv)
  then show ?thesis using Pair by (simp add: reconcile_order_def Let_def split: sum.split)
qed

lemma reconcile_loop_backend:
  "backend_kind (fst (reconcile_loop S (backend_connector W) P fmtG env k qs os st)) = backend_kind (fst st)"
proof (induction os arbitrary: k st)
  case (Cons ord os)
  then show ?case
    by (cases st) (simp only: reconcile_loop.simps reconcile_order_backend fst_conv)
qed simp

lemma boot_reconcile_backend:
  "backend_kind (fst (boot_reconcile sod (backend_connector W) P fmtG c0 c env rows bp)) = backend_kind (fst bp)"
  by (simp add: boot_reconcile_def reconcile_def reconcile_loop_backend split: option.split sum.split prod.split)

text \<open>Each connector keeps the contract the gateway relies on; so does the chosen one.\<close>

lemma backend_echoes:
  assumes "\<And>bc. honest_exchange W bc"
  shows "echoing_connector (backend_connector W)"
proof unfold_locales
  fix c ord b fill b'
  assume sub: "SubmitOrder (backend_connector W) c ord b = (Inr fill, b')"
  have "f_OrderID fill = o_OrderID ord \<and> f_Side fill = o_Side ord"
  proof (cases b)
    case (Live bc h)
    then obtain h' where f: "SubmitOrder (binance W bc) c ord h = (Inr fill, h')"
      using sub by (cases "SubmitOrder (binance W bc) c ord h") (auto simp: backend_connector_def)
    then have "f_Side fill = o_Side ord" by (cases rule: SubmitOrder_binance_cases) (simp add: submit_fill_def)
    then show ?thesis using echoed_id [OF assms f] by simp
  next
    case (Sim s)
    then obtain s' where "SubmitOrder simulator c ord s = (Inr fill, s')"
      using sub by (cases "SubmitOrder simulator c ord s") (auto simp: backend_connector_def)
    then show ?thesis using sim.submit_echo_id sim.submit_echo_side by blast
  qed
  then show "f_OrderID fill = o_OrderID ord" "f_Side fill = o_Side ord" by simp_all
qed

section \<open>Properties\<close>

lemma boot_cases:
  assumes "boot be W P sc rows h p m = Inr pg"
  obtains cfg sc' b b' p' tracker policy algo ot where
    "LoadConfig (be_envconfig be) (be_getenv be) = Inr cfg"
    "NewSQLiteOrderStore (be_mkdir be) (be_open be) (be_createOk be) (be_migFaults be) sc = (None, sc')"
    "select_backend (be_getenv be) cfg h = Inr b"
    "boot_reconcile (be_sod be) (backend_connector W) P (be_fmtG be) (be_preload be) (be_query be) (be_rec be) rows (b, p) = (b', p', tracker)"
    "pg = \<lparr> pg_gateway = boot_gateway m p' b' tracker (NewTokenBucketLimiter (be_now be) (cf_RateLimitRPS cfg)) policy algo cfg,
        pg_schema = sc', pg_drainTimeout = drain_timeout (be_parseDuration be) (be_getenv be), pg_feed = boot_feed cfg,
        pg_adminToken = be_getenv be ''SLEIPNIR_ADMIN_TOKEN'', pg_otel = ot \<rparr>"
  using assms by (auto simp: boot_def split: sum.splits prod.splits option.splits)

lemma boot_gateway_sel [simp]:
  "gw_consumer (boot_gateway m p x t tb policy algo cfg) = m"
  "gw_producer (boot_gateway m p x t tb policy algo cfg) = p"
  "gw_connector (boot_gateway m p x t tb policy algo cfg) = x"
  "gw_tracker (boot_gateway m p x t tb policy algo cfg) = t"
  "gw_limiter (boot_gateway m p x t tb policy algo cfg) = tb"
  "gw_risk (boot_gateway m p x t tb policy algo cfg) = Some policy"
  "gw_halt (boot_gateway m p x t tb policy algo cfg) = NewHalt"
  "gw_ready (boot_gateway m p x t tb policy algo cfg) = False"
  "gw_maxDailyOrders (boot_gateway m p x t tb policy algo cfg) = cf_MaxDailyOrders cfg"
  "gw_maxDailyBuys (boot_gateway m p x t tb policy algo cfg) = cf_MaxDailyBuys cfg"
  "gw_maxDailySells (boot_gateway m p x t tb policy algo cfg) = cf_MaxDailySells cfg"
  by (cases algo; simp add: boot_gateway_def Let_def NewGateway_def WithSubmitTimeout_def WithDailySideLimits_def WithAlgo_def)+

text \<open>C34. A program that boots is configured to trade safely. If \<open>main\<close> gets as far as running the
  gateway, then the connector is the simulator exactly when the environment says so and otherwise the
  live one with a non-empty key and secret; the gateway has a risk policy, so that the check
  of limits is never skipped, the daily caps of the configuration, a kill switch that is off, and
  is not ready before its first intent; the database has the final schema if it had that of some
  earlier version; and the drain deadline is positive.\<close>

theorem boot_configured:
  assumes "boot be W P sc rows h p m = Inr pg"
  shows "(case backend_kind (gw_connector (pg_gateway pg)) of
      None \<Rightarrow> be_getenv be ''EXCHANGE_BACKEND'' = ''sim''
    | Some bc \<Rightarrow> be_getenv be ''EXCHANGE_BACKEND'' \<in> {[], ''binance''} \<and> bc_apiKey bc \<noteq> [] \<and> bc_apiSecret bc \<noteq> []) \<and>
    (\<exists>policy. gw_risk (pg_gateway pg) = Some policy \<and>
      CheckIntent uni (gw_risk (pg_gateway pg)) intent = check_limits (policy_limits uni policy intent) intent) \<and>
    (\<exists>cfg. LoadConfig (be_envconfig be) (be_getenv be) = Inr cfg \<and> gw_maxDailyOrders (pg_gateway pg) = cf_MaxDailyOrders cfg \<and>
      gw_maxDailyBuys (pg_gateway pg) = cf_MaxDailyBuys cfg \<and> gw_maxDailySells (pg_gateway pg) = cf_MaxDailySells cfg) \<and>
    \<not> IsHalted (gw_halt (pg_gateway pg)) \<and> \<not> IsReady (pg_gateway pg) \<and> 0 < pg_drainTimeout pg \<and>
    (schema_inv sc \<longrightarrow> pg_schema pg = full_schema)"
  using assms
proof (cases rule: boot_cases)
  case (1 cfg sc' b b' p' tracker policy algo ot)
  have kind: "backend_kind b' = backend_kind b"
    using boot_reconcile_backend [of "be_sod be" W P "be_fmtG be" "be_preload be" "be_query be" "be_rec be" rows "(b, p)"] 1(4)
    by simp
  have "case backend_kind b of None \<Rightarrow> be_getenv be ''EXCHANGE_BACKEND'' = ''sim''
    | Some bc \<Rightarrow> be_getenv be ''EXCHANGE_BACKEND'' \<in> {[], ''binance''} \<and> bc_apiKey bc \<noteq> [] \<and> bc_apiSecret bc \<noteq> []"
    using 1(1,3) by (auto simp: LoadConfig_def select_backend_def NewBinanceConnector_def Let_def split: sum.splits if_splits)
  moreover have "0 < drain_timeout (be_parseDuration be) (be_getenv be)"
    by (simp add: drain_timeout_def Let_def split: sum.split)
  moreover have "schema_inv sc \<longrightarrow> sc' = full_schema" using NewSQLiteOrderStore_ok 1(2) by blast
  ultimately show ?thesis
    using 1(1) kind by (simp add: 1(5) CheckIntent_def IsHalted_def NewHalt_def IsReady_def)
qed

text \<open>The simulator with the defaults, on a new database.\<close>

definition bt_config :: Config where
  "bt_config = \<lparr> cf_KafkaBrokers = [''localhost:9092''], cf_KafkaIntentsTopic = ''executions.intents.v1'',
     cf_KafkaFillsTopic = ''executions.fills.v1'', cf_KafkaConsumerGroup = ''sleipnir-gateway'', cf_BinanceAPIKey = '''',
     cf_BinanceAPISecret = '''', cf_BinanceRESTURL = '''', cf_BinanceWSURL = '''', cf_RateLimitRPS = Fin 10, cf_Port = ''8080'',
     cf_SubmitTimeout = 6 * Minute, cf_MaxOrderQtyBTC = fround (1 / 10), cf_MaxOrderQtyETH = Fin 2, cf_MaxDailyOrders = 500,
     cf_MaxDailyBuys = 0, cf_MaxDailySells = 0, cf_SimFillPrice = Fin 50000, cf_SimTxCostBps = Fin 0, cf_AlgoType = '''',
     cf_AlgoSlices = 5, cf_AlgoDuration = ''5m'', cf_FeatureStreamEnabled = False, cf_MuninnStreamURL = '''',
     cf_MuninnStreamFeature = '''' \<rparr>"

definition bt_env :: boot_env where
  "bt_env = \<lparr> be_getenv = (\<lambda>k. if k = ''EXCHANGE_BACKEND'' then ''sim'' else ''''), be_envconfig = (\<lambda>_. Inr bt_config),
     be_uni = id, be_readFile = (\<lambda>_. Inl ''none''), be_yaml = (\<lambda>_. Inl ''none''), be_parseDuration = (\<lambda>_. Inl ''bad''),
     be_fmtG = (\<lambda>_. ''1''), be_sod = (\<lambda>_. 0), be_version = ad_info, be_exporter = (\<lambda>_. None), be_resource = None, be_mkdir = None, be_open = None, be_createOk = True,
     be_migFaults = (\<lambda>_. MigOk), be_now = 0, be_preload = rc_call, be_query = rc_call, be_rec = rc_env \<rparr>"

definition bt_world :: "unit world" where
  "bt_world = \<lparr> w_uni = id, w_parseOther = (\<lambda>_. NaN), w_hmac = (\<lambda>_ _. ''''), w_newRequest = (\<lambda>_. None),
     w_http = (\<lambda>_ _ h. (SendError ''offline'', h)), w_orderResp = (\<lambda>_. Inl ''''), w_statusResp = (\<lambda>_. Inl '''') \<rparr>"

lemma empty_schema_inv: "schema_inv empty_schema"
  unfolding schema_inv_cases by (intro exI [of _ 0]) (simp add: empty_schema_def)

definition bt_sim :: SimulatorConnector where
  "bt_sim = NewSimulatorConnector \<lparr> cfg_FillPrice = Fin 50000, cfg_TransactionCost = Fin 0,
     cfg_TransactionCostBps = Fin 0, cfg_Latency = 0, cfg_AlsoEmitOnWS = False \<rparr>"

lemma bt_boot:
  assumes "boot_reconcile (\<lambda>_. 0) (backend_connector bt_world) fake_publisher (\<lambda>_. ''1'') rc_call rc_call rc_env rows
      (Sim bt_sim, []) = (b', p', t)"
  shows "\<exists>pg. boot bt_env bt_world fake_publisher empty_schema rows () [] m = Inr pg \<and>
    pg_gateway pg = boot_gateway m p' b' t (NewTokenBucketLimiter 0 (Fin 10))
      (NewLegacyRiskPolicy (fround (1 / 10)) (Fin 2)) None bt_config"
  using assms
  by (simp add: boot_def LoadConfig_def bt_env_def select_backend_def boot_policy_def LoadRiskPolicy_def boot_algo_def
        bt_config_def bt_sim_def tracing_Init_def NewSQLiteOrderStore_def runMigrations_complete [OF empty_schema_inv])

lemma bt_boots: "\<exists>pg. boot bt_env bt_world fake_publisher empty_schema rows () [] m = Inr pg"
  using bt_boot by (metis prod_cases3)

theorem boot_configured_witness:
  "\<exists>pg. boot bt_env bt_world fake_publisher empty_schema rc_rows () [] () = Inr pg \<and>
     backend_kind (gw_connector (pg_gateway pg)) = None \<and> gw_maxDailyOrders (pg_gateway pg) = 500 \<and>
     gw_risk (pg_gateway pg) \<noteq> None \<and> pg_schema pg = full_schema"
proof -
  obtain pg where pg: "boot bt_env bt_world fake_publisher empty_schema rc_rows () [] () = Inr pg" by (rule exE [OF bt_boots])
  have "LoadConfig (be_envconfig bt_env) (be_getenv bt_env) = Inr bt_config" by (simp add: LoadConfig_def bt_env_def)
  moreover have "be_getenv bt_env ''EXCHANGE_BACKEND'' = ''sim''" by (simp add: bt_env_def)
  ultimately show ?thesis
    using boot_configured [OF pg] empty_schema_inv pg by (fastforce simp: bt_config_def split: option.splits)
qed

end
