(* ===== verification/Mocks.thy ===== *)
theory Mocks
  imports Kafka Backoff Risk
begin

text \<open>
  The development tools around the gateway: \<open>cmd/mock_huginn/main.go\<close>, which generates intents, and
  \<open>cmd/mock_portfolio/main.go\<close>, which adds up the fills. The random numbers, the identifiers and the
  Kafka reader and writer are parameters; \<open>oor\<close> is the conversion of an out-of-range float.
\<close>

section \<open>Configuration\<close>

text \<open>The settings of the environment with their defaults, and the Kafka client they configure. The
  generator's writer leaves the acknowledgements at the client's default.\<close>

definition env_or :: "(string \<Rightarrow> string) \<Rightarrow> string \<Rightarrow> string \<Rightarrow> string" where
  "env_or getenv name dflt = (if getenv name = [] then dflt else getenv name)"

definition mock_brokers :: "(string \<Rightarrow> string) \<Rightarrow> string list" where
  "mock_brokers getenv = Split (CHR '','') (env_or getenv ''KAFKA_BROKERS'' ''localhost:9092'')"

definition huginn_config :: "(string \<Rightarrow> string) \<Rightarrow> WriterConfig" where
  "huginn_config getenv =
     \<lparr> wc_Addr = mock_brokers getenv, wc_Topic = env_or getenv ''KAFKA_INTENTS_TOPIC'' ''executions.intents.v1'',
       wc_Balancer = ''LeastBytes'', wc_RequiredAcks = RequireNone, wc_WriteTimeout = 10 * Second, wc_ReadTimeout = 0 \<rparr>"

definition portfolio_config :: "(string \<Rightarrow> string) \<Rightarrow> ReaderConfig" where
  "portfolio_config getenv =
     \<lparr> rc_Brokers = mock_brokers getenv, rc_GroupID = env_or getenv ''KAFKA_CONSUMER_GROUP'' ''mock-portfolio-tracker'',
       rc_Topic = env_or getenv ''KAFKA_FILLS_TOPIC'' ''executions.fills.v1'', rc_MinBytes = 1, rc_MaxBytes = 10000000,
       rc_MaxWait = 1 * Second \<rparr>"

section \<open>The generator of intents\<close>

fun round_ratio :: "nat \<Rightarrow> float64" where
  "round_ratio 0 = Fin 1"
| "round_ratio (Suc n) = float_mul (round_ratio n) (Fin 10)"

definition floatRound :: "(float64 \<Rightarrow> int) \<Rightarrow> float64 \<Rightarrow> nat \<Rightarrow> float64" where
  "floatRound oor val precision =
     (let ratio = round_ratio precision in
      float_div (float_of_int (int64_of_float oor (float_add (float_mul val ratio) (Fin (1 / 2))))) ratio)"

text \<open>One tick: the three draws of \<open>rand.Intn(2)\<close>, the two of \<open>rand.Float64\<close>, and the new UUID.\<close>

record huginn_draw =
  hd_inst :: bool
  hd_side :: bool
  hd_type :: bool
  hd_qty :: float64
  hd_price :: float64
  hd_uuid :: string

definition draw_qty :: "string \<Rightarrow> float64 \<Rightarrow> float64" where
  "draw_qty inst r =
     (if inst = ''BTC-USD'' then float_add (fround (1 / 1000)) (float_mul r (fround (4 / 1000)))
      else float_add (fround (1 / 100)) (float_mul r (fround (9 / 100))))"

definition draw_price :: "string \<Rightarrow> float64 \<Rightarrow> float64" where
  "draw_price inst r =
     (if inst = ''BTC-USD'' then float_add (Fin 62000) (float_mul r (Fin 3000))
      else float_add (Fin 31000) (float_mul r (Fin 150)))"

definition huginn_intent :: "(float64 \<Rightarrow> int) \<Rightarrow> huginn_draw \<Rightarrow> Order" where
  "huginn_intent oor d =
     (let inst = (if hd_inst d then ''ETH-USD'' else ''BTC-USD'');
          orderType = (if hd_type d then TypeMarket else TypeLimit)
      in \<lparr> o_OrderID = ''huginn-'' @ take 8 (hd_uuid d), o_Instrument = inst,
           o_Side = (if hd_side d then SideSell else SideBuy),
           o_Quantity = floatRound oor (draw_qty inst (hd_qty d)) 4,
           o_Price = (if orderType = TypeMarket then Fin 0 else floatRound oor (draw_price inst (hd_price d)) 2),
           o_Type = orderType \<rparr>)"

definition huginn_tick :: "json_env \<Rightarrow> 'w write_messages \<Rightarrow> (float64 \<Rightarrow> int) \<Rightarrow> call \<Rightarrow> huginn_draw \<Rightarrow> 'w \<Rightarrow> 'w" where
  "huginn_tick je write oor c d w =
     (let intent = huginn_intent oor d in
      case Marshal_order je intent of
        Inl e \<Rightarrow> w
      | Inr payload \<Rightarrow> snd (write c (empty_message\<lparr> km_Key := o_OrderID intent, km_Value := payload \<rparr>) w))"

text \<open>The loop ends when the context is done (\<open>None\<close>).\<close>

fun huginn_loop :: "json_env \<Rightarrow> 'w write_messages \<Rightarrow> (float64 \<Rightarrow> int) \<Rightarrow> (call \<times> huginn_draw) option list \<Rightarrow> 'w \<Rightarrow> 'w" where
  "huginn_loop je write oor [] w = w"
| "huginn_loop je write oor (None # evs) w = w"
| "huginn_loop je write oor (Some (c, d) # evs) w = huginn_loop je write oor evs (huginn_tick je write oor c d w)"

section \<open>The portfolio\<close>

type_synonym PortfolioTracker = "string \<Rightarrow> float64"

text \<open>A missing key of the map of totals reads as 0.\<close>

definition new_portfolio :: PortfolioTracker where
  "new_portfolio = (\<lambda>_. Fin 0)"

definition portfolio_add :: "ExecutionFill \<Rightarrow> PortfolioTracker \<Rightarrow> PortfolioTracker" where
  "portfolio_add fill t = t(f_Instrument fill := float_add (t (f_Instrument fill)) (f_Quantity fill))"

text \<open>One iteration: \<open>None\<close> when the loop returns. \<open>c_done\<close> of the fetch is \<open>ctx.Err() != nil\<close> after a
  failed fetch; the errors of the commits are dropped.\<close>

definition portfolio_turn :: "json_env \<Rightarrow> 'r kafka_reader \<Rightarrow> call \<Rightarrow> call \<Rightarrow> PortfolioTracker \<times> 'r \<Rightarrow>
    (PortfolioTracker \<times> 'r) option" where
  "portfolio_turn je R fetch commit st = (case st of (t, r) \<Rightarrow>
     case FetchMessage R fetch r of
       (Inl e, r') \<Rightarrow> if c_done fetch then None else Some (t, r')
     | (Inr msg, r') \<Rightarrow>
         (case Unmarshal_fill je (km_Value msg) of
            Inl e \<Rightarrow> Some (t, snd (CommitMessages R commit [msg] r'))
          | Inr fill \<Rightarrow> Some (portfolio_add fill t, snd (CommitMessages R commit [msg] r'))))"

fun portfolio_loop :: "json_env \<Rightarrow> 'r kafka_reader \<Rightarrow> (call \<times> call) list \<Rightarrow> PortfolioTracker \<times> 'r \<Rightarrow>
    PortfolioTracker \<times> 'r" where
  "portfolio_loop je R [] st = st"
| "portfolio_loop je R ((fetch, commit) # evs) st =
     (case portfolio_turn je R fetch commit st of None \<Rightarrow> st | Some st' \<Rightarrow> portfolio_loop je R evs st')"

section \<open>What the tools do\<close>

lemma round_ratio_values: "round_ratio 2 = Fin 100" "round_ratio 4 = Fin 10000"
  by (simp_all add: numeral_eq_Suc [of num.One] eval_nat_numeral float_simps)

text \<open>Rounding to four decimals, between bounds that are known.\<close>

lemma floatRound_4_bounds:
  assumes "0 \<le> m" "of_int m \<le> v * 10000" "v * 10000 \<le> of_int n" "n \<le> 10000"
    and "fround (a / 8192) = Fin (a / 8192)" "fround (b / 8192) = Fin (b / 8192)"
    and "a * 10000 \<le> of_int m * 8192" "of_int (n + 1) * 8192 \<le> b * 10000"
  shows "\<exists>q. floatRound oor (Fin v) 4 = Fin q \<and> a / 8192 \<le> q \<and> q \<le> b / 8192"
proof -
  have i: "fround (of_int k) = Fin (of_int k)" if "0 \<le> k" "k \<le> 10001" for k
    using that by (intro fround_of_int) simp
  obtain x where x: "fround (v * 10000) = Fin x" "of_int m \<le> x" "x \<le> of_int n"
    using fround_between [of "of_int m" "of_int n" "v * 10000"] i [of m] i [of n] assms(1-4)
      of_int_le_iff [of m n, where 'a = rat] by auto
  have "of_int m \<le> x + 1 / 2" "x + 1 / 2 \<le> of_int (n + 1)" using x(2,3) by simp_all
  then obtain y where y: "fround (x + 1 / 2) = Fin y" "of_int m \<le> y" "y \<le> of_int (n + 1)"
    using fround_between [of "of_int m" "of_int (n + 1)" "x + 1 / 2"] i [of m] i [of "n + 1"] assms(1-4)
      of_int_le_iff [of m n, where 'a = rat] order_trans [OF x(2,3)] by auto
  let ?k = "\<lfloor>y\<rfloor>"
  have k: "m \<le> ?k" "?k \<le> n + 1" using y(2,3) by (simp_all add: le_floor_iff floor_le_iff)
  have "int64_of_float oor (Fin y) = ?k"
    using y(2,3) assms(1,4) of_int_le_iff [of "n + 1" 10001, where 'a = rat] of_int_le_iff [of 0 m, where 'a = rat]
    by (intro int64_of_float_floor) (simp_all del: of_int_le_iff)
  moreover have "float_of_int ?k = Fin (of_int ?k)" using k assms(1,4) by (intro float_of_int_small) simp
  ultimately have r: "floatRound oor (Fin v) 4 = fround (of_int ?k / 10000)"
    by (simp add: floatRound_def round_ratio_values x(1) y(1) Let_def)
  have "of_int m \<le> (of_int ?k :: rat)" "(of_int ?k :: rat) \<le> of_int (n + 1)" using k by (simp_all only: of_int_le_iff)
  then have "a / 8192 \<le> of_int ?k / 10000" "of_int ?k / 10000 \<le> b / 8192" using assms(7,8) by simp_all
  then show ?thesis unfolding r using fround_between [OF assms(5,6)] by auto
qed

lemma dyadic_8192: "\<bar>k\<bar> \<le> 8192 \<Longrightarrow> fround (of_int k / 8192) = Fin (of_int k / 8192)"
  using fround_dyadic [of k 13] by simp

text \<open>A base and a random part of a range, in float64 arithmetic.\<close>

lemma draw_range:
  assumes "unit_random r" "of_int a / 8192 \<le> base" "base \<le> of_int b / 8192" "0 \<le> width" "width \<le> of_int c / 8192"
    and "0 \<le> a" "a \<le> b" "0 \<le> c" "b + c \<le> 8192"
  shows "\<exists>v. float_add (fround base) (float_mul r (fround width)) = Fin v \<and> of_int a / 8192 \<le> v \<and> v \<le> of_int (b + c) / 8192"
proof -
  obtain q where r: "r = Fin q" "0 \<le> q" "q < 1" using assms(1) by (cases r) (auto simp: unit_random_def)
  obtain x where x: "fround base = Fin x" "of_int a / 8192 \<le> x" "x \<le> of_int b / 8192"
    using fround_between [OF dyadic_8192 dyadic_8192 assms(2,3)] assms(6-9) by auto
  obtain w where w: "fround width = Fin w" "0 \<le> w" "w \<le> of_int c / 8192"
    using fround_between [OF fround_0 dyadic_8192 assms(4,5)] assms(6-9) by auto
  have "0 \<le> q * w" "q * w \<le> of_int c / 8192"
    using r(2,3) w(2,3) mult_left_le_one_le [of w q] by simp_all
  then obtain p where p: "fround (q * w) = Fin p" "0 \<le> p" "p \<le> of_int c / 8192"
    using fround_between [OF fround_0 dyadic_8192, of c "q * w"] assms(6-9) by auto
  have "of_int a / 8192 \<le> x + p" "x + p \<le> of_int (b + c) / 8192" using x(2,3) p(2,3) by simp_all
  then show ?thesis
    using fround_between [OF dyadic_8192 dyadic_8192, of a "b + c" "x + p"] assms(6-9) by (auto simp: r(1) x(1) w(1) p(1))
qed

lemma huginn_quantity:
  assumes "unit_random (hd_qty d)"
  shows "\<exists>q. o_Quantity (huginn_intent oor d) = Fin q \<and> 0 < q \<and>
    (if o_Instrument (huginn_intent oor d) = ''BTC-USD'' then q \<le> 44 / 8192 else q \<le> 821 / 8192)"
proof (cases "hd_inst d")
  case True
  obtain v where v: "draw_qty ''ETH-USD'' (hd_qty d) = Fin v" "81 / 8192 \<le> v" "v \<le> 820 / 8192"
    using draw_range [OF assms, of 81 "1 / 100" 82 "9 / 100" 738] by (auto simp: draw_qty_def)
  then have "\<exists>q. floatRound oor (Fin v) 4 = Fin q \<and> 80 / 8192 \<le> q \<and> q \<le> 821 / 8192"
    using dyadic_8192 [of 80] dyadic_8192 [of 821]
    by (intro floatRound_4_bounds [where m = 98 and n = 1001]) simp_all
  then show ?thesis using True v(1) by (auto simp: huginn_intent_def Let_def)
next
  case False
  obtain v where v: "draw_qty ''BTC-USD'' (hd_qty d) = Fin v" "8 / 8192 \<le> v" "v \<le> 42 / 8192"
    using draw_range [OF assms, of 8 "1 / 1000" 9 "4 / 1000" 33] by (auto simp: draw_qty_def)
  then have "\<exists>q. floatRound oor (Fin v) 4 = Fin q \<and> 7 / 8192 \<le> q \<and> q \<le> 44 / 8192"
    using dyadic_8192 [of 7] dyadic_8192 [of 44]
    by (intro floatRound_4_bounds [where m = 9 and n = 52]) simp_all
  then show ?thesis using False v(1) by (auto simp: huginn_intent_def Let_def)
qed

text \<open>The generator's intents are acceptable: their ids are valid, and their quantities pass the
  default caps of the gateway.\<close>

definition is_hex :: "char \<Rightarrow> bool" where
  "is_hex c = (c \<in> set ''0123456789abcdef'')"

theorem huginn_intent_acceptable:
  assumes "unit_random (hd_qty d)" "list_all is_hex (take 8 (hd_uuid d))"
  shows "ValidateOrderID (o_OrderID (huginn_intent oor d)) = None"
    and "CheckIntent uni (Some (NewLegacyRiskPolicy (fround (1 / 10)) (Fin 2))) (huginn_intent oor d) = (True, [])"
proof -
  have hex: "valid_id_char c" if "is_hex c" for c
    using that by (auto simp: is_hex_def valid_id_char_def)
  have "list_all valid_id_char ''huginn-''" by code_simp
  moreover have "list_all valid_id_char (take 8 (hd_uuid d))" using assms(2) hex by (auto elim: list.pred_mono_strong)
  ultimately have "list_all valid_id_char (o_OrderID (huginn_intent oor d))"
    by (simp add: huginn_intent_def Let_def)
  then show "ValidateOrderID (o_OrderID (huginn_intent oor d)) = None"
    using validate_chars_None [of "o_OrderID (huginn_intent oor d)"]
    by (auto simp: ValidateOrderID_def huginn_intent_def Let_def)
  let ?i = "huginn_intent oor d"
  obtain q where q: "o_Quantity ?i = Fin q" "0 < q" "if o_Instrument ?i = ''BTC-USD'' then q \<le> 44 / 8192 else q \<le> 821 / 8192"
    using huginn_quantity [OF assms(1)] by blast
  obtain p where p: "fround (1 / 10) = Fin p" "51 / 512 \<le> p" using jitterPercent_range by (auto simp: jitterPercent_def)
  have up: "ToUpper uni ''BTC-USD'' = ''BTC-USD''" "ToUpper uni ''ETH-USD'' = ''ETH-USD''" for uni
  proof -
    have "is_ascii ''BTC-USD''" "is_ascii ''ETH-USD''" "map upper_char ''BTC-USD'' = ''BTC-USD''" "map upper_char ''ETH-USD'' = ''ETH-USD''"
      by code_simp+
    then show "ToUpper uni ''BTC-USD'' = ''BTC-USD''" "ToUpper uni ''ETH-USD'' = ''ETH-USD''" by (simp_all only: ToUpper_def if_True)
  qed
  have "o_Instrument ?i = ''BTC-USD'' \<or> o_Instrument ?i = ''ETH-USD''" by (simp add: huginn_intent_def Let_def)
  then show "CheckIntent uni (Some (NewLegacyRiskPolicy (fround (1 / 10)) (Fin 2))) ?i = (True, [])"
  proof
    assume i: "o_Instrument ?i = ''BTC-USD''"
    then have "q \<le> p" using q(3) p(2) by simp
    then show ?thesis using i by (simp add: CheckIntent_def check_limits_def policy_limits_def NewLegacyRiskPolicy_def max_qty_only_def up q(1) p(1))
  next
    assume i: "o_Instrument ?i = ''ETH-USD''"
    then have "q \<le> 2" using q(3) by simp
    then show ?thesis using i by (simp add: CheckIntent_def check_limits_def policy_limits_def NewLegacyRiskPolicy_def max_qty_only_def up q(1))
  qed
qed

text \<open>The messages a run of the portfolio reads, and the fills among them.\<close>

fun portfolio_read :: "json_env \<Rightarrow> 'r kafka_reader \<Rightarrow> (call \<times> call) list \<Rightarrow> PortfolioTracker \<times> 'r \<Rightarrow> kafka_message list" where
  "portfolio_read je R [] st = []"
| "portfolio_read je R ((fetch, commit) # evs) st =
     (case portfolio_turn je R fetch commit st of
        None \<Rightarrow> []
      | Some st' \<Rightarrow> (case fst (FetchMessage R fetch (snd st)) of Inl _ \<Rightarrow> [] | Inr m \<Rightarrow> [m]) @ portfolio_read je R evs st')"

definition read_fills :: "json_env \<Rightarrow> kafka_message list \<Rightarrow> ExecutionFill list" where
  "read_fills je msgs = List.map_filter (\<lambda>m. case Unmarshal_fill je (km_Value m) of Inl _ \<Rightarrow> None | Inr f \<Rightarrow> Some f) msgs"

lemma read_fills_append: "read_fills je (ms @ ms') = read_fills je ms @ read_fills je ms'"
  by (simp add: read_fills_def List.map_filter_def)

lemma portfolio_turn_fills:
  assumes "portfolio_turn je R fetch commit (t, r) = Some (t', r')"
  shows "t' = fold portfolio_add (read_fills je (case fst (FetchMessage R fetch r) of Inl _ \<Rightarrow> [] | Inr m \<Rightarrow> [m])) t"
  using assms by (auto simp: portfolio_turn_def read_fills_def List.map_filter_simps split: prod.splits sum.splits if_splits)

lemma portfolio_loop_fills:
  "fst (portfolio_loop je R evs (t, r)) = fold portfolio_add (read_fills je (portfolio_read je R evs (t, r))) t"
proof (induction evs arbitrary: t r)
  case (Cons ev evs)
  obtain fetch commit where ev: "ev = (fetch, commit)" by (cases ev)
  show ?case
  proof (cases "portfolio_turn je R fetch commit (t, r)")
    case None
    then show ?thesis by (simp add: ev read_fills_def List.map_filter_simps)
  next
    case (Some st)
    obtain t' r' where st: "st = (t', r')" by (cases st)
    show ?thesis using portfolio_turn_fills [of je R fetch commit t r t' r'] Some Cons.IH [of t' r']
      by (simp add: ev st read_fills_append)
  qed
qed (simp add: read_fills_def List.map_filter_simps)

lemma portfolio_add_total:
  "fold portfolio_add fs t inst = foldl float_add (t inst) (map f_Quantity (filter (\<lambda>f. f_Instrument f = inst) fs))"
  by (induction fs arbitrary: t) (auto simp: portfolio_add_def)

text \<open>The portfolio's total of an instrument is the float sum, in their order, of the quantities of the
  fills it read. A fill that is delivered twice counts twice: its execution id is not looked at.\<close>

theorem portfolio_totals:
  "fst (portfolio_loop je R evs (new_portfolio, r)) inst =
     foldl float_add (Fin 0)
       (map f_Quantity (filter (\<lambda>f. f_Instrument f = inst) (read_fills je (portfolio_read je R evs (new_portfolio, r)))))"
  unfolding portfolio_loop_fills portfolio_add_total by (simp add: new_portfolio_def)

end
