(* ===== verification/Spec2Isabelle.thy ===== *)
theory Spec2Isabelle
  imports Interleave Races Telemetry Shutdown Boot Mocks
begin

text \<open>
  \<^bold>\<open>Sleipnir, an order execution gateway.\<close> The program reads order intents from a Kafka topic, checks
  them, submits them to an exchange (Binance, or a simulator in memory), tracks the orders in SQLite
  and publishes their fills on another topic. This development models the Go sources under
  \<open>src/internal\<close> and \<open>src/cmd\<close> as HOL functions and proves the properties that make them correct.

  \<^bold>\<open>Parts and theories.\<close>

  \<^item> \<open>Prelude\<close>, \<open>Float64\<close>, \<open>Golib\<close>: the collections of simplification rules; IEEE float64 arithmetic
    (infinities, NaN, round to nearest even; the sign of zero is not kept); \<open>int64\<close> wrap-around,
    instants, durations in nanoseconds, and the functions of \<open>strings\<close> and \<open>strconv\<close> the code calls.
  \<^item> \<open>Exchange\<close> (\<open>exchange/connector.go\<close>): orders, fills, states, and the interface
    \<open>ExchangeConnector\<close> as a record of operations. The locale \<open>echoing_connector\<close> is what the gateway
    relies on; the record \<open>call\<close> is what the surroundings decide during one call.
  \<^item> \<open>Simulator\<close> (\<open>exchange/simulator.go\<close>) and \<open>Binance\<close> (\<open>exchange/binance.go\<close>): the two connectors,
    the second with its signed requests, the errors of its three REST operations, and its user-data
    stream as a machine over the events of the connection.
  \<^item> \<open>Backoff\<close>: the reconnect backoff of that stream and of the feature stream.
  \<^item> \<open>Risk\<close> (\<open>gateway/risk.go\<close>): limits, policy, kill switch, order id validation.
  \<^item> \<open>Store\<close> (\<open>gateway/store.go\<close>): the table of orders, the SQL statements as functions on it, opening
    and migrating the database. The locale \<open>order_store\<close> is the contract of the interface.
  \<^item> \<open>Tracker\<close>, \<open>Limiter\<close> (\<open>gateway/tracker.go\<close>): the maps in memory over a store, and the token bucket.
  \<^item> \<open>Ports\<close> (\<open>gateway/ports.go\<close>): the two Kafka interfaces with the locales \<open>fill_publisher\<close> and
    \<open>intent_consumer\<close>; \<open>Json\<close>, \<open>Tracing\<close>, \<open>Kafka\<close> (\<open>kafka/*.go\<close>, \<open>tracing/tracing.go\<close>): their
    implementations, the wire format by the tags of the structs, and the trace headers.
  \<^item> \<open>Algo\<close> (\<open>algo/algo.go\<close>): TWAP and VWAP over any connector.
  \<^item> \<open>Gateway\<close>, \<open>GatewayRun\<close> (\<open>gateway/gateway.go\<close>): the handling of one intent and of one fill as
    functions, the retry of a publication, \<open>Drain\<close>, and their behaviour on every branch.
  \<^item> \<open>Interleave\<close>: the same two handlers as the atomic steps of two goroutines, \<open>istep\<close> and \<open>fstep\<close>; one
    step is one section under a lock, one statement on the store or one call of a port. The relation
    \<open>work\<close> gives all interleavings of the workers and the operator; \<open>steps_are_handlers\<close> shows that a
    handler that is not disturbed runs to the result of its function. \<open>Races\<close>: a schedule that loses
    an update, and what the next boot makes of it.
  \<^item> \<open>Telemetry\<close> (\<open>telemetry/metrics.go\<close>): the collectors, their registration, and what the counters
    and the gauge of active orders say about a run of the workers.
  \<^item> \<open>Supervise\<close>, \<open>Shutdown\<close> (\<open>gateway/gateway.go\<close>, \<open>cmd/sleipnir/main.go\<close>): \<open>Start\<close> with its two workers
    and contexts, and the end of \<open>main\<close>: signal, drain, cancellation, and the closing of Kafka.
  \<^item> \<open>Feed\<close> (\<open>feed/sse.go\<close>): the client of the feature stream and the store of latest values.
  \<^item> \<open>Reconcile\<close>, \<open>Admin\<close>, \<open>Boot\<close> (\<open>cmd/sleipnir/main.go\<close>, \<open>config/config.go\<close>, \<open>version/version.go\<close>): the
    reconciliation at boot, the HTTP API, and \<open>main\<close> up to the start of the gateway.
  \<^item> \<open>Mocks\<close> (\<open>cmd/mock_huginn\<close>, \<open>cmd/mock_portfolio\<close>): the development tools at both ends.
  \<^item> This theory: properties of the assembled program.

  \<^bold>\<open>How state and operations correspond.\<close> A struct is a record with prefixed field names, an interface
  a record of operations on an abstract state, a method a function from state to result and state. An
  error return is \<open>Inl\<close> of a sum or \<open>Some\<close> of an option; error texts are those of the code, with the
  wrapped error appended. A handler of \<open>Start\<close> is split along its blocks: \<open>screen\<close>, \<open>reject\<close>, \<open>register\<close>,
  \<open>submit_intent\<close>, \<open>settle\<close>, \<open>book_immediate\<close> for an intent, \<open>book_fill\<close> for a fill. In \<open>Interleave\<close> the point a
  goroutine has reached is a constructor of \<open>ipoint\<close> or \<open>fpoint\<close> that holds its local variables. Maps that Go
  iterates over in no fixed order are association lists or functions; no result depends on the order.

  \<^bold>\<open>Loops, bounds and fuel.\<close> A loop over data is structural recursion. A loop that waits for the
  outside recurses over the list of what it sees: the rounds of the limiter (\<open>None\<close>: these rounds do
  not end it), the polls of \<open>Drain\<close>, the events of the two streams, the turns of \<open>Start\<close>. That they end is
  proved where the code promises it: the limiter grants a token after the time the rate needs
  (\<open>limiter_no_starvation\<close>), \<open>Drain\<close> returns at its deadline (\<open>drain_result\<close>), and \<open>Start\<close> returns after
  one more turn of each worker once its context is done (\<open>start_supervised\<close>). The retry of a publication
  has \<open>publishRetries + 1\<close> attempts.
  A run of the workers (\<open>work\<close>) is of any finite length. \<open>Drain\<close>, the cancellation and the teardown
  are interleaved with turns of the workers (\<open>Supervise\<close>, \<open>Shutdown\<close>), where a turn is a whole
  iteration; the properties of orders, commits, caps and the kill switch hold for atomic steps.

  \<^bold>\<open>What the groups of theorems show.\<close>

  \<^item> Orders: no id is submitted twice in a run, nor, after a restart, one that was active before it;
    what is submitted has passed every guard; limits and daily caps hold; the kill switch stops
    everything but at most one intent that had passed it, and only an authorised request moves it; the
    bucket respects its rate and starves nobody.
  \<^item> Fills: a committed intent's fill is on the topic and can be read from it; the retry succeeds
    exactly if an attempt does, and leaves a bounded number of copies; what the exchange reports on
    the stream is delivered, booked and published.
  \<^item> Recovery: migrations survive any crash, a restarted tracker holds exactly the active orders, the
    reconciliation publishes exactly the missed quantities, once.
  \<^item> Interfaces: each provider meets the contract its client was verified against, by interpretation
    (\<open>sqlite\<close>, \<open>sim\<close>, \<open>fakepub\<close>, \<open>fakecon\<close>, \<open>headers\<close>, \<open>ws\<close>, \<open>feed\<close>) or, where the provider
    itself has parameters, as a lemma (\<open>binance_echoes\<close>, \<open>backend_echoes\<close>, \<open>kafka_meets_contracts\<close>).
  \<^item> Operation: the metrics are well declared and their counts are those of the run; the shutdown drains
    before it cancels, stops both workers before it closes Kafka, and cannot hang.
  \<^item> Limits of the code: a filled order is submitted again after a restart, an unpublished fill is
    lost when its intent is redelivered or after the reconciliation, a NaN cannot be published, a fill
    on the stream that overtakes the bookkeeping of its submission is published again at the next
    boot, a drain overlooks an intent that is not tracked yet, and the gauge of active orders drifts.

  \<^bold>\<open>Parameters.\<close> Code outside the repository is an argument: the HTTP client and HMAC (\<open>world\<close>), the Kafka
  reader and writer with \<open>reader_contract\<close> and \<open>writer_contract\<close>, the text of JSON values and times
  (\<open>json_env\<close>), \<open>envconfig\<close>, YAML, the file system and \<open>time.ParseDuration\<close> (\<open>boot_env\<close>), the
  propagator of OpenTelemetry, the Unicode tables for characters outside ASCII (\<open>uni\<close>), the start of
  a local day (\<open>sod\<close>), the verb \<open>%g\<close> (\<open>fmtG\<close>), and the conversion of floats outside \<open>int64\<close> (\<open>oor\<close>).

  \<^bold>\<open>Not modelled.\<close> The observations of the latency histogram, spans and logging, which nothing reads
  back; the counter of the limiter's delays; the HTTP server around the handler and the delivery of
  signals, which are I/O; the memory model of Go below the level of locks and channel operations.
\<close>

section \<open>The program after a restart\<close>

lemma handle_intent_reaches_iff:
  "(\<exists>out gw'. handle_intent pt uni env i msg gw = Some (out, gw') \<and> reaches_exchange out) \<longleftrightarrow>
     screen pt uni env i gw = None \<and> (\<exists>tb. limiter_Wait (ie_rounds env) (gw_limiter gw) = Some (None, tb))"
    (is "?L = ?R")
proof
  assume ?L
  then obtain out gw' where "handle_intent pt uni env i msg gw = Some (out, gw')" "reaches_exchange out" by blast
  then show ?R by (cases rule: handle_intent_cases) (auto dest: screen_outcome)
next
  assume ?R
  then obtain tb where sc: "screen pt uni env i gw = None" "limiter_Wait (ie_rounds env) (gw_limiter gw) = Some (None, tb)"
    by blast
  obtain out gw' where p: "process pt env i msg (gw\<lparr> gw_ready := True, gw_limiter := tb \<rparr>) = (out, gw')" by fastforce
  then have "reaches_exchange out"
    by (auto simp: process_def split: prod.splits elim: settle_cases)
  then show ?L using sc p by (auto simp: handle_intent_def Let_def)
qed

lemma boot_known_ids:
  assumes "boot be W P sc rows h p m = Inr pg" "rows_inv rows" "c_ok (be_preload be)" "c_rows (be_preload be) = None"
  shows "known (pg_gateway pg) = active_ids rows" "\<not> IsHalted (gw_halt (pg_gateway pg))"
proof -
  have "known (pg_gateway pg) = active_ids rows \<and> \<not> IsHalted (gw_halt (pg_gateway pg))"
    using assms(1)
  proof (cases rule: boot_cases)
    case 1
    then show ?thesis
      using boot_known [OF assms(2-4), of "be_sod be" "backend_connector W" P "be_fmtG be" "be_query be" "be_rec be"]
      by (metis IsHalted_def NewHalt_def Halt.select_convs(1) boot_gateway_sel(4,7) program.select_convs(1) snd_conv)
  qed
  then show "known (pg_gateway pg) = active_ids rows" "\<not> IsHalted (gw_halt (pg_gateway pg))" by simp_all
qed

text \<open>C2. The duplicate guard across a restart. After a boot on a database whose active orders were
  read completely, an intent with a valid id goes to the exchange exactly if no order with that id
  was active in the database, the risk check passes and the limiter grants a token; and no run of
  the gateway hands an id to the exchange that was active at the boot. An id whose order had
  reached a terminal state before the restart is not recognised: a redelivered intent of a filled
  order is submitted again.\<close>

theorem restart_duplicate_guard:
  assumes "boot be W P sc rows h p m = Inr pg" "rows_inv rows" "c_ok (be_preload be)" "c_rows (be_preload be) = None"
    and "ValidateOrderID (o_OrderID i) = None"
  shows "((\<exists>out gw'. handle_intent (boot_ports (be_sod be) W P M) uni env i msg (pg_gateway pg) = Some (out, gw') \<and> reaches_exchange out) \<longleftrightarrow>
      o_OrderID i \<notin> active_ids rows \<and> fst (checkRiskLimits (boot_ports (be_sod be) W P M) uni env i (pg_gateway pg)) \<and>
      (\<exists>tb. limiter_Wait (ie_rounds env) (gw_limiter (pg_gateway pg)) = Some (None, tb))) \<and>
    (\<forall>tr st. work (boot_ports (be_sod be) W P M) uni Q (idle (pg_gateway pg)) tr st \<longrightarrow>
       o_OrderID ` set (sent tr) \<inter> active_ids rows = {})"
proof -
  note known = boot_known_ids [OF assms(1-4)]
  have "(\<exists>out gw'. handle_intent (boot_ports (be_sod be) W P M) uni env i msg (pg_gateway pg) = Some (out, gw') \<and> reaches_exchange out) \<longleftrightarrow>
      o_OrderID i \<notin> active_ids rows \<and> fst (checkRiskLimits (boot_ports (be_sod be) W P M) uni env i (pg_gateway pg)) \<and>
      (\<exists>tb. limiter_Wait (ie_rounds env) (gw_limiter (pg_gateway pg)) = Some (None, tb))"
    unfolding handle_intent_reaches_iff screen_pass known(1) using assms(5) known(2) by simp
  moreover have "o_OrderID ` set (sent tr) \<inter> active_ids rows = {}"
    if "work (boot_ports (be_sod be) W P M) uni Q (idle (pg_gateway pg)) tr st" for tr st
    using work_dup [OF that refl] unfolding dup_inv_def dup_ok_def known(1) by (simp only: set_map)
  ultimately show ?thesis by (intro conjI allI impI)
qed

text \<open>A restart of the simulator after an order was filled.\<close>

definition sp_order :: Order where
  "sp_order = rc_order\<lparr> o_Instrument := ''SOL-USD'' \<rparr>"

definition sp_consumer :: fakeConsumer where
  "sp_consumer = \<lparr> fc_intents = [sp_order], fc_idx = 0, fc_committed = [] \<rparr>"

lemma sp_wait: "\<exists>tb. limiter_Wait [(0, False)] (NewTokenBucketLimiter 0 (Fin 10)) = Some (None, tb)"
  by (simp add: limiter_Wait_Cons NewTokenBucketLimiter_def tb_refill_def tb_take_def Let_def time_sub_def
      dur_seconds_def float_sub_def float_simps)

lemma sp_active: "GetActiveOrders rc_call [new_row sp_order StateFilled 0] = Inr ([], [], [])"
  by (simp add: GetActiveOrders_def rc_call_def select_active_def)

lemma sp_boot:
  "boot_reconcile (\<lambda>_. 0) (backend_connector bt_world) fake_publisher (\<lambda>_. ''1'') rc_call rc_call rc_env
     [new_row sp_order StateFilled 0] (Sim bt_sim, []) =
   (Sim bt_sim, [], NewOrderTracker\<lparr> tr_store := Some [new_row sp_order StateFilled 0] \<rparr>)"
  by (simp add: boot_reconcile_def reconcile_def WithStore_def sqlite_store_def sp_active)

lemma sp_upper: "ToUpper id ''SOL-USD'' = ''SOL-USD''"
  by code_simp

lemma sp_risk:
  assumes "gw_risk gw = Some (NewLegacyRiskPolicy q1 q2)" "tr_store (gw_tracker gw) = Some [r]"
    "gw_maxDailyOrders gw = 500" "gw_maxDailyBuys gw = 0" "gw_maxDailySells gw = 0"
  shows "fst (checkRiskLimits (boot_ports (\<lambda>_. 0) W P M) id demo_ienv sp_order gw)"
  using assms
  by (simp add: checkRiskLimits_def CheckIntent_def NewLegacyRiskPolicy_def policy_limits_def check_limits_def sp_order_def
      rc_order_def check_daily_def boot_ports_def sqlite_store_def GetDailyOrderCount_def demo_call_def Let_def sp_upper)

theorem restart_duplicate_guard_witness:
  "\<exists>pg out gw'. boot bt_env bt_world fake_publisher empty_schema [new_row sp_order StateFilled 0] () [] sp_consumer = Inr pg \<and>
     handle_intent (boot_ports (\<lambda>_. 0) bt_world fake_publisher fake_consumer) id demo_ienv sp_order 1 (pg_gateway pg) = Some (out, gw') \<and>
     reaches_exchange out"
proof -
  let ?rows = "[new_row sp_order StateFilled 0]" and ?pt = "boot_ports (\<lambda>_. 0) bt_world fake_publisher fake_consumer"
  obtain pg where pg: "boot bt_env bt_world fake_publisher empty_schema ?rows () [] sp_consumer = Inr pg"
    and gw: "pg_gateway pg = boot_gateway sp_consumer [] (Sim bt_sim) (NewOrderTracker\<lparr> tr_store := Some ?rows \<rparr>)
      (NewTokenBucketLimiter 0 (Fin 10)) (NewLegacyRiskPolicy (fround (1 / 10)) (Fin 2)) None bt_config"
    using bt_boot [OF sp_boot, of sp_consumer] by blast
  have "ValidateOrderID (o_OrderID sp_order) = None" unfolding sp_order_def rc_order_def by code_simp
  moreover have "o_OrderID sp_order \<notin> active_ids ?rows"
    by (simp add: active_ids_def rows_view_def)
  moreover have "fst (checkRiskLimits ?pt id demo_ienv sp_order (pg_gateway pg))"
    unfolding gw by (rule sp_risk) (simp_all add: bt_config_def)
  moreover have "\<exists>tb. limiter_Wait (ie_rounds demo_ienv) (gw_limiter (pg_gateway pg)) = Some (None, tb)"
    unfolding gw using sp_wait by simp
  moreover have "rows_inv ?rows" by (simp add: rows_inv_def)
  moreover have "c_ok (be_preload bt_env)" "c_rows (be_preload bt_env) = None" "be_sod bt_env = (\<lambda>_. 0)"
    by (simp_all add: bt_env_def rc_call_def)
  ultimately show ?thesis
    using restart_duplicate_guard [OF pg, where i = sp_order and M = fake_consumer and uni = id and env = demo_ienv and msg = 1] pg by auto
qed

section \<open>From the gateway to the topic\<close>

text \<open>When a fill's text can be read back: its strings are ASCII, and the time format and the JSON text
  of that fill round-trip.\<close>

definition json_faithful :: "json_env \<Rightarrow> ExecutionFill \<Rightarrow> bool" where
  "json_faithful je fill \<longleftrightarrow> ascii_fill fill \<and> (\<forall>ts. je_fmtTime je (f_Timestamp fill) = Inr ts \<longrightarrow>
     je_parseTime je ts = Inr (f_Timestamp fill) \<and>
     je_parse je (je_render je (fill_tree je fill ts)) = Inr (fill_tree je fill ts))"

lemma topic_entry_readable:
  assumes "topic_entry je f \<in> set (topic_log wlog pd)" "json_faithful je f"
  shows "\<exists>msg\<in>set (wlog (pd_writer pd)). km_Key msg = f_OrderID f \<and> Unmarshal_fill je (km_Value msg) = Inr f"
proof -
  obtain msg where msg: "msg \<in> set (wlog (pd_writer pd))" "km_Key msg = f_OrderID f" "Marshal_fill je f = Inr (km_Value msg)"
    using assms(1) by (auto simp: topic_entry_def topic_log_def)
  then show ?thesis
    using Unmarshal_Marshal_fill [OF msg(3)] assms(2) by (auto simp: json_faithful_def)
qed


lemma publish_loop_fails:
  assumes "\<And>c p. \<exists>e. PublishFill P c fill p = (Some e, p)"
  shows "\<exists>e ps. publish_loop P io fill mx k n b le p = (Some e, ps, p)"
proof (induction n arbitrary: k b le)
  case (Suc n)
  obtain e where e: "PublishFill P (io k) fill p = (Some e, p)" using assms by blast
  obtain e' ps where "publish_loop P io fill mx (Suc k) n (next_backoff k b) (Some e) p = (Some e', ps, p)"
    using Suc.IH by blast
  then show ?case
    using publish_loop_retry [where io = io and k = k and mx = mx and n = n and b = b and e = le, OF _ e]
    by (cases "0 < k \<and> c_done (io k)") (auto simp: publish_loop_abort)
qed simp

lemma publishFillWithRetry_fails:
  assumes "\<And>c p. \<exists>e. PublishFill (pt_producer pt) c fill p = (Some e, p)"
  shows "\<exists>e. publishFillWithRetry pt io fill gw = (Some e, gw)"
proof -
  obtain e ps where "publish_loop (pt_producer pt) io fill (gw_publishRetries gw + 1) 0 (nat (gw_publishRetries gw + 1))
      (gw_publishBackoff gw) None (gw_producer gw) = (Some e, ps, gw_producer gw)"
    using publish_loop_fails [OF assms] by blast
  then show ?thesis by (simp add: publishFillWithRetry_def)
qed

text \<open>C21. A fill that is not a number is never published. If its quantity, price or cost is infinite or
  NaN, then the JSON encoding fails on every attempt: over the Kafka producer the retry returns an
  error and leaves the producer and the topic as they were, however many attempts are configured,
  although a fill of the user-data stream is booked by then.\<close>

theorem nonfinite_fill_never_published:
  assumes "\<not> finite_fill fill" "pt_producer pt = kafka_producer je trace write"
  shows "(\<exists>e. publishFillWithRetry pt io fill gw = (Some e, gw)) \<and>
    (\<exists>e gw'. handle_fill pt env fill gw = (Some e, gw') \<and> gw_producer gw' = gw_producer gw \<and>
       tracker_GetOrderState (f_OrderID fill) (gw_tracker gw') = Some (fill_target fill))"
proof -
  have fail: "\<exists>e. PublishFill (pt_producer pt) c fill p = (Some e, p)" for c p
    using assms Marshal_fill_not_finite [OF assms(1), of je] by (auto simp: kafka_producer_def kafka_PublishFill_def)
  have retry: "\<exists>e. publishFillWithRetry pt io fill gw = (Some e, gw)" by (rule publishFillWithRetry_fails [OF fail])
  let ?g = "track (book_fill (pt_store pt) env fill) (count_filled fill gw)"
  let ?g' = "if fill_target fill \<in> {StateFilled, StateCanceled, StateRejected} then add_active (- 1) ?g else ?g"
  obtain e where "handle_fill pt env fill gw = (Some e, ?g')"
    using publishFillWithRetry_fails [OF fail, of "fe_pub env" ?g'] by (auto simp: handle_fill_def Let_def)
  moreover from this have "map_of (tr_states (gw_tracker ?g')) (f_OrderID fill) = Some (fill_target fill)"
    using handle_fill_tracker(2) [of pt env fill gw] by simp
  moreover have "gw_producer ?g' = gw_producer gw" by (simp add: gateway_simps)
  ultimately show ?thesis using retry
    by (auto simp: tracker_GetOrderState_def)
qed

section \<open>The kill switch\<close>

text \<open>The intents the gateway handles one after the other.\<close>

fun handle_intents :: "('s, 'x, 'p, 'k, 'm) ports \<Rightarrow> (string \<Rightarrow> string) \<Rightarrow> (intent_env \<times> Order \<times> 'k) list \<Rightarrow>
    ('s, 'x, 'p, 'm) Gateway \<Rightarrow> (outcome list \<times> ('s, 'x, 'p, 'm) Gateway) option" where
  "handle_intents pt uni [] gw = Some ([], gw)"
| "handle_intents pt uni ((env, i, msg) # is) gw =
     (case handle_intent pt uni env i msg gw of
        None \<Rightarrow> None
      | Some (out, gw') \<Rightarrow> map_option (apfst ((#) out)) (handle_intents pt uni is gw'))"

lemma halted_intents:
  "IsHalted (gw_halt gw) \<Longrightarrow> \<exists>gw'. handle_intents pt uni is gw = Some (replicate (length is) RejHalted, gw') \<and>
     gw_halt gw' = gw_halt gw \<and> gw_connector gw' = gw_connector gw \<and> gw_producer gw' = gw_producer gw"
proof (induction "is" arbitrary: gw)
  case (Cons ev "is")
  obtain env i msg where ev: "ev = (env, i, msg)" by (rule prod_cases3)
  let ?g = "reject pt env i msg RejHalted (gw\<lparr> gw_ready := True \<rparr>)"
  have "handle_intent pt uni env i msg gw = Some (RejHalted, ?g)"
    using Cons.prems by (simp add: handle_intent_def screen_def)
  moreover have "gw_halt ?g = gw_halt gw" "gw_connector ?g = gw_connector gw" "gw_producer ?g = gw_producer gw"
    by (simp_all add: gateway_simps)
  ultimately show ?case using Cons.IH [of ?g] Cons.prems ev by (auto simp del: reject.simps)
qed simp


section \<open>Concrete instances\<close>

text \<open>The gateway with the simulator over Kafka topics in memory.\<close>

definition kp_json :: json_env where
  "kp_json = (mem_json demo_fill)\<lparr> je_parse := (\<lambda>text. Inr (if text = ''intent'' then order_tree (mem_json demo_fill) demo_order
     else fill_tree (mem_json demo_fill) demo_fill ''t'')) \<rparr>"

definition kp_message :: kafka_message where
  "kp_message = empty_message\<lparr> km_Value := ''intent'' \<rparr>"

definition kp_ports :: "(table, SimulatorConnector, kafka_message list Producer, kafka_message,
    (kafka_message list \<times> kafka_message list) Consumer) ports" where
  "kp_ports = \<lparr> pt_store = sqlite_store (\<lambda>_. 0), pt_connector = simulator,
     pt_producer = kafka_producer kp_json (\<lambda>_. []) mem_write, pt_consumer = kafka_consumer kp_json mem_reader \<rparr>"

definition kp_gateway :: "(table, SimulatorConnector, kafka_message list Producer,
    (kafka_message list \<times> kafka_message list) Consumer) Gateway" where
  "kp_gateway = NewGateway \<lparr> cs_reader = ([kp_message], []), cs_topic = ''executions.intents.v1'', cs_processed = [] \<rparr> mem_producer
     demo_sim (NewOrderTracker\<lparr> tr_store := Some [] \<rparr>) (NewTokenBucketLimiter 0 (Fin 4)) None None 100"

lemma kp_ports_sel [simp]:
  "pt_store kp_ports = sqlite_store (\<lambda>_. 0)" "pt_connector kp_ports = simulator"
  "pt_producer kp_ports = kafka_producer kp_json (\<lambda>_. []) mem_write" "pt_consumer kp_ports = kafka_consumer kp_json mem_reader"
  by (simp_all add: kp_ports_def)

lemma itoa_one: "itoa 1 = ''1''"
  by code_simp

lemma demo_fill_finite: "finite_fill demo_fill" "ascii_fill demo_fill"
  by (simp_all add: finite_fill_def ascii_fill_def is_finite_def is_ascii_def demo_fill_def demo_order_def demo_sim_def
        NewSimulatorConnector_def sim_fill_def sim_price_def sim_txcost_def sim_execution_id_def Let_def itoa_one)

lemma kp_faithful: "json_faithful kp_json demo_fill"
proof -
  have "fill_tree kp_json demo_fill ts = fill_tree (mem_json demo_fill) demo_fill ts" for ts
    by (simp add: fill_tree_def enc_string_def kp_json_def)
  then show ?thesis using demo_fill_finite(2) by (simp add: json_faithful_def) (simp add: kp_json_def mem_json_def)
qed

lemma kp_publish:
  assumes "gw_publishRetries gw = 3"
  shows "fst (publishFillWithRetry kp_ports io demo_fill gw) = None"
proof -
  obtain p' where "PublishFill (pt_producer kp_ports) (io 0) demo_fill (gw_producer gw) = (None, p')"
    using Marshal_fill_finite [OF demo_fill_finite(1), of kp_json "''t''"]
    by (simp add: kafka_producer_def kafka_PublishFill_def mem_write_def kp_json_def mem_json_def)
  from publish_loop_last [where k = 0 and io = io and n = 3, OF _ this] show ?thesis
    using assms by (simp add: publishFillWithRetry_def eval_nat_numeral)
qed

lemma kp_fetch:
  "\<exists>m. FetchIntent (pt_consumer kp_ports) c (gw_consumer kp_gateway) = (Inr (demo_order, kp_message), m) \<and> snd (cs_reader m) = []"
proof -
  have "order_tree kp_json demo_order = order_tree (mem_json demo_fill) demo_order"
    by (simp add: order_tree_def enc_string_def kp_json_def)
  then have "Unmarshal_order kp_json (km_Value kp_message) = Inr demo_order"
    by (intro Unmarshal_order_tree) (simp_all add: kp_json_def kp_message_def is_ascii_def demo_order_def)
  then show ?thesis
    by (simp add: kafka_consumer_def kafka_FetchIntent_def mem_reader_def kp_gateway_def NewGateway_def count_consumed_def)
qed

lemma kp_handled:
  "\<exists>gw'. handle_intent kp_ports id demo_ienv demo_order kp_message (kp_gateway\<lparr> gw_consumer := m \<rparr>) =
     Some (FillPublished demo_fill, gw')"
proof -
  let ?kp = "kp_gateway\<lparr> gw_consumer := m \<rparr>"
  have sel: "gw_tracker kp_gateway = NewOrderTracker\<lparr> tr_store := Some [] \<rparr>" "gw_connector kp_gateway = demo_sim"
      "gw_halt kp_gateway = NewHalt" "gw_risk kp_gateway = None" "gw_limiter kp_gateway = NewTokenBucketLimiter 0 (Fin 4)"
      "gw_maxDailyOrders kp_gateway = 100" "gw_maxDailyBuys kp_gateway = 0" "gw_maxDailySells kp_gateway = 0"
      "gw_algoExec kp_gateway = False" "gw_publishRetries kp_gateway = 3"
    by (simp_all add: kp_gateway_def NewGateway_def)
  have sc: "screen kp_ports id demo_ienv demo_order ?kp = None"
    unfolding screen_pass using demo_valid
    by (simp add: sel IsHalted_def NewHalt_def NewOrderTracker_def checkRiskLimits_def CheckIntent_def check_daily_def
        sqlite_store_def GetDailyOrderCount_def demo_call_def)
  obtain tb where w: "limiter_Wait (ie_rounds demo_ienv) (gw_limiter ?kp) = Some (None, tb)"
    using demo_wait sel(5) by simp
  let ?g = "register kp_ports demo_ienv demo_order (?kp\<lparr> gw_ready := True, gw_limiter := tb \<rparr>)"
  obtain x' where sub: "submit_intent kp_ports demo_ienv demo_order ?g = (Inr demo_fill, ?g\<lparr> gw_connector := x' \<rparr>)"
    by (simp add: submit_intent_def register_def gateway_simps sel simulator_def sim_SubmitOrder_def demo_sim_def
        NewSimulatorConnector_def demo_fill_def Let_def wrap64_def demo_call_def)
  have "float_gt (f_Quantity demo_fill) (Fin 0)" by (simp add: demo_fill_def demo_order_def)
  then have "fst (settle kp_ports demo_ienv demo_order kp_message (Inr demo_fill) (?g\<lparr> gw_connector := x' \<rparr>)) = FillPublished demo_fill"
    by (simp add: settle_def Let_def case_prod_beta kp_publish sel book_immediate_def gateway_simps register_def split: option.split)
  then show ?thesis using sc w sub
    by (auto simp: handle_intent_def Let_def process_def case_prod_beta prod_eq_iff)
qed


theorem nonfinite_fill_never_published_witness:
  "\<exists>e gw'. handle_fill kp_ports demo_fenv (demo_fill\<lparr> f_FillPrice := NaN \<rparr>) kp_gateway = (Some e, gw') \<and>
     pd_writer (gw_producer gw') = [] \<and> tracker_GetOrderState (f_OrderID demo_fill) (gw_tracker gw') = Some StateFilled"
proof -
  have "\<not> finite_fill (demo_fill\<lparr> f_FillPrice := NaN \<rparr>)" by (simp add: finite_fill_def is_finite_def)
  from nonfinite_fill_never_published [OF this kp_ports_sel(3), where io = "\<lambda>_. demo_call" and env = demo_fenv and gw = kp_gateway] show ?thesis
    by (auto simp: fill_target_def demo_fill_def sim_fill_def Let_def kp_gateway_def NewGateway_def mem_producer_def)
qed


end
